(* ===== verification/CMachine.thy ===== *)
theory CMachine
  imports "HOL-Library.Word"
begin

unbundle bit_operations_syntax

text \<open>
  The prelude: the C types of the runtime as words of their width, the outcome of a C call
  (it returns, or it stops in a failed \<open>assert\<close> or an access outside an object), the macros
  of \<^verbatim>\<open>include/util.h\<close> and \<^verbatim>\<open>include/compiler.h\<close>, the error numbers of
  \<^verbatim>\<open>include/errno.h\<close>, and the lemmas on words, lists and outcomes that the
  component theories share.
\<close>

section \<open>Types\<close>

type_synonym u8 = "8 word"
type_synonym u16 = "16 word"
type_synonym u32 = "32 word"
type_synonym u64 = "64 word"
type_synonym register_t = u64
type_synonym size_t = u64
type_synonym uintptr_t = u64
type_synonym index_t = u32
type_synonym count_t = u32

section \<open>Outcomes\<close>

text \<open>
  \<open>assert\<close> is active in the shipped configuration (\<^verbatim>\<open>build.conf\<close> leaves \<open>NDEBUG\<close> out); a failed
  assertion ends in \<open>panic\<close>, so the call never returns. \<open>BadAccess\<close> is an access
  that C leaves undefined. \<open>OutOfFuel\<close> is only ever produced by the models of loops that
  carry a fuel argument; each such loop has a lemma that its fuel is enough.
\<close>

datatype fault = AssertionFailed | BadAccess | OutOfFuel

datatype 'a outcome = Done 'a | Fault fault

fun bindc :: "'a outcome \<Rightarrow> ('a \<Rightarrow> 'b outcome) \<Rightarrow> 'b outcome" where
  "bindc (Done x) f = f x"
| "bindc (Fault e) f = Fault e"

definition ensure :: "bool \<Rightarrow> 'a outcome \<Rightarrow> 'a outcome" where
  "ensure b k = (if b then k else Fault AssertionFailed)"

definition in_object :: "bool \<Rightarrow> 'a outcome \<Rightarrow> 'a outcome" where
  "in_object b k = (if b then k else Fault BadAccess)"

lemma bindc_cong [fundef_cong]:
  "m = m' \<Longrightarrow> (\<And>x. m' = Done x \<Longrightarrow> f x = f' x) \<Longrightarrow> bindc m f = bindc m' f'"
  by (cases m') auto

lemma ensure_cong [fundef_cong]:
  "b = b' \<Longrightarrow> (b' \<Longrightarrow> k = k') \<Longrightarrow> ensure b k = ensure b' k'"
  by (simp add: ensure_def)

lemma ensure_True [simp]: "ensure True k = k"
  and ensure_False [simp]: "ensure False k = Fault AssertionFailed"
  by (simp_all add: ensure_def)

lemma ensure_AssertionFailed [simp]: "ensure b (Fault AssertionFailed) = Fault AssertionFailed"
  by (simp add: ensure_def)

lemma in_object_True [simp]: "in_object True k = k"
  and in_object_False [simp]: "in_object False k = Fault BadAccess"
  by (simp_all add: in_object_def)

lemma bindc_eq_Done: "bindc m f = Done y \<longleftrightarrow> (\<exists>x. m = Done x \<and> f x = Done y)"
  by (cases m) auto

lemma bindc_eq_Fault:
  "bindc m f = Fault e \<longleftrightarrow> m = Fault e \<or> (\<exists>x. m = Done x \<and> f x = Fault e)"
  by (cases m) auto

lemma ensure_eq_Done: "ensure b k = Done y \<longleftrightarrow> b \<and> k = Done y"
  by (simp add: ensure_def)

lemma in_object_eq_Done: "in_object b k = Done y \<longleftrightarrow> b \<and> k = Done y"
  by (simp add: in_object_def)

lemmas outcome_Done = bindc_eq_Done ensure_eq_Done in_object_eq_Done

lemma bindc_assoc: "bindc (bindc m f) g = bindc m (\<lambda>x. bindc (f x) g)"
  by (cases m) auto

lemma bindc_Done_right [simp]: "bindc m Done = m"
  by (cases m) auto

section \<open>Buffers and log calls\<close>

text \<open>
  A buffer of characters is the list of its bytes: \<open>store\<close> is \<open>memcpy\<close> to an offset of a buffer
  and \<open>fetch\<close> reads \<open>n\<close> bytes from an offset; both stop at an access outside the buffer.
\<close>

abbreviation (input) "NUL \<equiv> CHR 0x00"

definition store :: "string \<Rightarrow> nat \<Rightarrow> string \<Rightarrow> string outcome" where
  "store mem off s =
     in_object (off + length s \<le> length mem) (Done (take off mem @ s @ drop (off + length s) mem))"

definition fetch :: "string \<Rightarrow> nat \<Rightarrow> nat \<Rightarrow> string outcome" where
  "fetch mem off n = in_object (off + n \<le> length mem) (Done (take n (drop off mem)))"

text \<open>The character at an offset of a \<open>NUL\<close>-terminated string.\<close>

definition char_at :: "string \<Rightarrow> nat \<Rightarrow> char outcome" where
  "char_at f i = in_object (i \<le> length f) (Done (if i < length f then f ! i else NUL))"

lemma char_at_inside: "char_at f i = Done c \<Longrightarrow> c \<noteq> NUL \<Longrightarrow> i < length f"
  by (auto simp: char_at_def in_object_def split: if_splits)

lemma length_store: "store mem off s = Done mem' \<Longrightarrow> length mem' = length mem"
  by (auto simp: store_def in_object_def split: if_splits)

lemma store_fits:
  "off + length s \<le> length mem \<Longrightarrow>
     store mem off s = Done (take off mem @ s @ drop (off + length s) mem)"
  by (simp add: store_def)

lemma fetch_fits: "off + n \<le> length mem \<Longrightarrow> fetch mem off n = Done (take n (drop off mem))"
  by (simp add: fetch_def)

lemma nth_store:
  assumes "store mem off s = Done mem'" "i < length mem"
  shows "mem' ! i = (if off \<le> i \<and> i < off + length s then s ! (i - off) else mem ! i)"
  using assms by (auto simp: store_def in_object_def nth_append min_def split: if_splits)

text \<open>A call of the \<open>LOG\<close> macro: its format and its arguments.\<close>

datatype log_arg = LogNum register_t | LogStr string

type_synonym log_call = "string \<times> log_arg list"

section \<open>Error numbers\<close>

text \<open>\<^verbatim>\<open>include/errno.h\<close>. The functions return them negated in an \<open>int32_t\<close>, here an \<open>int\<close>.\<close>

abbreviation (input) "ENOENT \<equiv> (2 :: int)"
abbreviation (input) "EINTR \<equiv> (4 :: int)"
abbreviation (input) "E2BIG \<equiv> (7 :: int)"
abbreviation (input) "EBADF \<equiv> (9 :: int)"
abbreviation (input) "ENOMEM \<equiv> (12 :: int)"
abbreviation (input) "EBUSY \<equiv> (16 :: int)"
abbreviation (input) "EINVAL \<equiv> (22 :: int)"
abbreviation (input) "ENFILE \<equiv> (23 :: int)"
abbreviation (input) "ENOSYS \<equiv> (38 :: int)"

section \<open>The macros of util.h and compiler.h\<close>

definition util_bit :: "nat \<Rightarrow> u64" where
  "util_bit b = push_bit b 1"

definition util_mask :: "nat \<Rightarrow> u64" where
  "util_mask n = util_bit n - 1"

definition util_mask_safe :: "nat \<Rightarrow> u64" where
  "util_mask_safe n = (if n < 64 then util_mask n else NOT 0)"

definition util_max :: "'a::linorder \<Rightarrow> 'a \<Rightarrow> 'a" where
  "util_max x y = (if x > y then x else y)"

definition util_min :: "'a::linorder \<Rightarrow> 'a \<Rightarrow> 'a" where
  "util_min x y = (if x < y then x else y)"

definition util_is_p2_or_zero :: "u64 \<Rightarrow> bool" where
  "util_is_p2_or_zero x \<longleftrightarrow> x AND (x - 1) = 0"

definition util_is_p2 :: "u64 \<Rightarrow> bool" where
  "util_is_p2 x \<longleftrightarrow> x \<noteq> 0 \<and> util_is_p2_or_zero x"

text \<open>
  The alignment macros assert that the alignment is a power of two; every use in the runtime
  passes the literal \<open>PAGE_SIZE\<close> or 16, for which the assertion holds
  (\<open>util_is_p2_literals\<close>), so the models below are plain functions.
\<close>

definition util_is_baligned :: "u64 \<Rightarrow> u64 \<Rightarrow> bool" where
  "util_is_baligned x a \<longleftrightarrow> x AND (a - 1) = 0"

definition util_add_overflows :: "u64 \<Rightarrow> u64 \<Rightarrow> bool" where
  "util_add_overflows a b \<longleftrightarrow> a > NOT b"

definition util_balign_down :: "u64 \<Rightarrow> u64 \<Rightarrow> u64" where
  "util_balign_down x a = x AND NOT (a - 1)"

definition util_balign_up :: "u64 \<Rightarrow> u64 \<Rightarrow> u64" where
  "util_balign_up x a = util_balign_down (x + (a - 1)) a"

definition PAGE_SIZE :: u64 where
  "PAGE_SIZE = 4096"

text \<open>\<open>__builtin_clzl\<close> and \<open>__builtin_ctzl\<close> on a nonzero 64-bit word.\<close>

definition builtin_ctz :: "u64 \<Rightarrow> nat" where
  "builtin_ctz x = length (takeWhile (\<lambda>i. \<not> bit x i) [0..<64])"

definition builtin_clz :: "u64 \<Rightarrow> nat" where
  "builtin_clz x = length (takeWhile (\<lambda>i. \<not> bit x i) (rev [0..<64]))"

definition compiler_ctz :: "u64 \<Rightarrow> index_t outcome" where
  "compiler_ctz x = ensure (x \<noteq> 0) (Done (of_nat (builtin_ctz x)))"

definition compiler_clz :: "u64 \<Rightarrow> index_t outcome" where
  "compiler_clz x = ensure (x \<noteq> 0) (Done (of_nat (builtin_clz x)))"

definition compiler_msb :: "u64 \<Rightarrow> index_t outcome" where
  "compiler_msb x = bindc (compiler_clz x) (\<lambda>c. Done (64 - 1 - c))"

section \<open>Words\<close>

lemma util_max_max [simp]: "util_max x y = max x y"
  by (auto simp: util_max_def max_def)

lemma util_min_min [simp]: "util_min x y = min x y"
  by (auto simp: util_min_def min_def)

lemma util_is_p2_literals: "util_is_p2 PAGE_SIZE" "util_is_p2 16"
  by (simp_all add: util_is_p2_def util_is_p2_or_zero_def PAGE_SIZE_def)

lemma util_mask_eq: "util_mask n = mask n"
  by (simp add: util_mask_def util_bit_def mask_eq_exp_minus_1 push_bit_eq_mult)

lemma util_mask_safe_eq: "util_mask_safe n = mask n"
proof (cases "n < 64")
  case True
  then show ?thesis by (simp add: util_mask_safe_def util_mask_eq)
next
  case False
  then have "(mask n :: u64) = NOT 0"
    by (intro bit_word_eqI) (auto simp: bit_simps)
  with False show ?thesis by (simp add: util_mask_safe_def)
qed

lemma unat_add_fits: "unat a + unat b < 2 ^ LENGTH('a) \<Longrightarrow> unat (a + b) = unat a + unat b"
  for a b :: "'a::len word"
  by (simp add: unat_word_ariths)

lemma unat_sub_fits: "unat b \<le> unat a \<Longrightarrow> unat (a - b) = unat a - unat b"
  for a b :: "'a::len word"
  by (simp add: unat_sub word_le_nat_alt)

lemma unat_pred: "w \<noteq> 0 \<Longrightarrow> unat (w - 1) = unat w - 1"
  for w :: "'a::len word"
proof -
  assume "w \<noteq> 0"
  then have "unat (1 :: 'a word) \<le> unat w" by (simp add: Suc_leI unat_gt_0)
  then show ?thesis by (simp add: unat_sub_fits)
qed

lemma unat_mult_fits: "unat a * unat b < 2 ^ LENGTH('a) \<Longrightarrow> unat (a * b) = unat a * unat b"
  for a b :: "'a::len word"
  by (simp add: unat_word_ariths)

lemma unat_of_nat_fits: "n < 2 ^ LENGTH('a) \<Longrightarrow> unat (of_nat n :: 'a::len word) = n"
  by (simp add: unat_of_nat)

lemma unat_of_nat32 [simp]: "n < 4294967296 \<Longrightarrow> unat (of_nat n :: u32) = n"
  by (rule unat_of_nat_fits) simp

lemma unat_of_nat64 [simp]: "n < 18446744073709551616 \<Longrightarrow> unat (of_nat n :: u64) = n"
  by (rule unat_of_nat_fits) simp

lemma unat_lt32: "unat (x :: u32) < 4294967296"
  using unsigned_less [of x] by simp

lemma unat_lt64: "unat (x :: u64) < 18446744073709551616"
  using unsigned_less [of x] by simp

lemma unat_min: "unat (min a b) = min (unat a) (unat b)"
  for a b :: "'a::len word"
  by (auto simp: min_def word_le_nat_alt)

lemma unat_max: "unat (max a b) = max (unat a) (unat b)"
  for a b :: "'a::len word"
  by (auto simp: max_def word_le_nat_alt)

lemma max_of_nat32:
  "a < 2 ^ 32 \<Longrightarrow> b < 2 ^ 32 \<Longrightarrow> max (of_nat a) (of_nat b) = (of_nat (max a b) :: u32)"
  by (auto simp: max_def word_le_nat_alt)

lemma unat_sub_length:
  "n < unat (r :: size_t) \<Longrightarrow> unat (r - of_nat n) = unat r - n"
  using unat_lt64 [of r] by (simp add: unat_sub_fits)

lemma sint_nonneg: "unat x < 2 ^ 63 \<Longrightarrow> sint (x :: u64) = int (unat x)"
proof -
  assume "unat x < 2 ^ 63"
  then have "int (unat x) < int (2 ^ 63)" by (simp only: of_nat_less_iff)
  then have "uint x < 2 ^ 63" by simp
  moreover have "- (2 ^ 63) \<le> uint x" by (rule order_trans [OF _ uint_ge_0]) simp
  ultimately have "signed_take_bit 63 (uint x) = uint x" by (intro signed_take_bit_int_eq_self) auto
  then show ?thesis by (simp add: sint_uint)
qed

lemma unat_ucast_32_64 [simp]: "unat (ucast (x :: u32) :: u64) = unat x"
  using unat_lt32 [of x] by (simp add: unsigned_ucast_eq take_bit_eq_mod)

lemma unat_ucast_64_32: "unat (ucast (x :: u64) :: u32) = unat x mod 4294967296"
  by (simp add: unsigned_ucast_eq take_bit_eq_mod)

lemma util_add_overflows_iff:
  "util_add_overflows a b \<longleftrightarrow> 18446744073709551616 \<le> unat a + unat b"
proof -
  have "NOT b = - 1 - b"
    by (simp add: not_eq_complement)
  moreover have "unat (- 1 - b) = unat (- 1 :: u64) - unat b"
    by (rule unat_sub) simp
  ultimately have "unat (NOT b) = 18446744073709551615 - unat b"
    by (simp add: unsigned_minus_1_eq_mask mask_eq_exp_minus_1)
  then show ?thesis
    using unat_lt64 [of b] by (auto simp: util_add_overflows_def word_less_nat_alt)
qed

lemma util_is_baligned_page:
  "util_is_baligned x PAGE_SIZE \<longleftrightarrow> unat x mod 4096 = 0"
proof -
  have "x AND (PAGE_SIZE - 1) = take_bit 12 x"
    by (simp add: PAGE_SIZE_def take_bit_eq_mask mask_numeral)
  moreover have "unat (take_bit 12 x) = unat x mod 4096"
    by (simp add: unsigned_take_bit_eq take_bit_eq_mod unat_mod)
  ultimately show ?thesis
    by (metis unat_eq_0 util_is_baligned_def)
qed

lemma unat_Suc_fits: "i < w \<Longrightarrow> unat (i + 1) = Suc (unat i)"
  for i w :: "'a::len word"
proof -
  assume "i < w"
  then have "Suc (unat i) \<le> unat w" by (simp add: word_less_nat_alt)
  also have "unat w < 2 ^ LENGTH('a)" by (rule unsigned_less)
  finally show ?thesis by (simp add: unat_word_ariths)
qed

lemma word_and_nonzero_iff: "x AND y \<noteq> 0 \<longleftrightarrow> (\<exists>n. bit x n \<and> bit y n)"
  for x y :: "'a::len word"
  by (auto simp: bit_eq_iff bit_simps dest: bit_imp_le_length)

lemma word_nonzero_iff: "x \<noteq> 0 \<longleftrightarrow> (\<exists>n. bit x n)"
  for x :: "'a::len word"
  by (auto simp: bit_eq_iff dest: bit_imp_le_length)

lemma takeWhile_upt_first:
  assumes "P m" "\<And>k. k < m \<Longrightarrow> \<not> P k" "m < n"
  shows "length (takeWhile (\<lambda>i. \<not> P i) [0..<n]) = m"
proof -
  have "[0..<n] = [0..<m] @ m # [Suc m..<n]"
    using assms(3) by (metis add_0 le_add_diff_inverse less_imp_le_nat upt_add_eq_append
        upt_conv_Cons zero_le)
  then show ?thesis
    using assms(1,2) by (simp add: takeWhile_append)
qed

lemma builtin_ctz_eqI:
  assumes "bit x m" "\<And>k. k < m \<Longrightarrow> \<not> bit x k"
  shows "builtin_ctz x = m"
  unfolding builtin_ctz_def
  using assms bit_imp_le_length [OF assms(1)] by (intro takeWhile_upt_first) auto

lemma builtin_ctz_first:
  assumes "x \<noteq> 0"
  shows "bit x (builtin_ctz x)" "k < builtin_ctz x \<Longrightarrow> \<not> bit x k" "builtin_ctz x < 64"
proof -
  obtain n where n: "bit x n"
    using assms word_nonzero_iff by blast
  define m where "m = (LEAST k. bit x k)"
  have m: "bit x m" "\<And>k. k < m \<Longrightarrow> \<not> bit x k"
    using n by (auto simp: m_def intro: LeastI dest: not_less_Least)
  have eq: "builtin_ctz x = m"
    using m by (rule builtin_ctz_eqI)
  show "bit x (builtin_ctz x)" using m eq by simp
  show "k < builtin_ctz x \<Longrightarrow> \<not> bit x k" using m eq by simp
  show "builtin_ctz x < 64" using m eq bit_imp_le_length by fastforce
qed

lemma builtin_clz_last:
  assumes "bit x m" "\<And>k. m < k \<Longrightarrow> \<not> bit x k"
  shows "builtin_clz x = 63 - m"
proof -
  have m: "m < 64" using bit_imp_le_length [OF assms(1)] by simp
  have rev: "rev [0..<64] = map (\<lambda>i. 63 - i) [0..<64::nat]"
    by (intro nth_equalityI) (auto simp: rev_nth)
  have "length (takeWhile (\<lambda>i. \<not> bit x (63 - i)) [0..<64]) = 63 - m"
    using m assms by (intro takeWhile_upt_first) auto
  then show ?thesis
    by (simp add: builtin_clz_def rev takeWhile_map o_def)
qed

text \<open>\<open>compiler_msb\<close> is the number of the highest set bit.\<close>

lemma compiler_msb_eq:
  assumes "x \<noteq> 0"
  obtains m where "compiler_msb x = Done (of_nat m)" "bit x m" "m < 64"
    "\<And>k. m < k \<Longrightarrow> \<not> bit x k"
proof -
  define m where "m = Max {k. bit x k}"
  have fin: "finite {k. bit x k}" by (rule finite_bit_word)
  have "{k. bit x k} \<noteq> {}" using assms word_nonzero_iff by blast
  then have m: "bit x m" using Max_in [OF fin] by (auto simp: m_def)
  have above: "\<not> bit x k" if "m < k" for k
  proof
    assume "bit x k"
    then have "k \<le> m" unfolding m_def by (intro Max_ge fin) simp
    with that show False by simp
  qed
  have lt: "m < 64" using bit_imp_le_length [OF m] by simp
  have "compiler_msb x = Done (64 - 1 - of_nat (63 - m))"
    using assms by (simp add: compiler_msb_def compiler_clz_def builtin_clz_last [OF m above])
  also have "(64 - 1 - of_nat (63 - m) :: u32) = of_nat m"
    using lt by (intro word_unat_eq_iff [THEN iffD2]) (simp add: unat_sub_fits)
  finally show thesis using that m above lt by simp
qed

lemma div_mod_offset:
  assumes "b mod m + k < (m::nat)"
  shows "(b + k) div m = b div m" "(b + k) mod m = b mod m + k"
proof -
  have eq: "b + k = (b mod m + k) + (b div m) * m" by (simp add: mult.commute)
  have "((b mod m + k) + (b div m) * m) div m = b div m + (b mod m + k) div m"
    using assms by (intro div_mult_self1) auto
  then show "(b + k) div m = b div m"
    using assms by (simp only: eq div_less add_0_right)
  have "((b mod m + k) + (b div m) * m) mod m = (b mod m + k) mod m"
    by (rule mod_mult_self1)
  then show "(b + k) mod m = b mod m + k"
    using assms by (simp only: eq mod_less)
qed

section \<open>Searching an interval\<close>

lemma find_upt_None: "(\<And>n. a \<le> n \<Longrightarrow> n < b \<Longrightarrow> \<not> P n) \<Longrightarrow> find P [a..<b] = None"
  by (auto simp: find_None_iff)

lemma find_upt_Some:
  assumes "a \<le> m" "m < b" "P m" "\<And>n. a \<le> n \<Longrightarrow> n < m \<Longrightarrow> \<not> P n"
  shows "find P [a..<b] = Some m"
proof -
  have "[a..<b] ! (m - a) = m" using assms by simp
  then show ?thesis
    using assms by (auto simp: find_Some_iff intro!: exI [of _ "m - a"])
qed

lemma find_upt_skip:
  assumes "a \<le> c" "\<And>n. a \<le> n \<Longrightarrow> n < c \<Longrightarrow> \<not> P n"
  shows "find P [a..<b] = find P [c..<b]"
proof (cases "find P [c..<b]")
  case None
  then have "\<And>n. a \<le> n \<Longrightarrow> n < b \<Longrightarrow> \<not> P n"
    using assms by (auto simp: find_None_iff not_less [symmetric])
  with None show ?thesis by (simp add: find_upt_None)
next
  case (Some m)
  then obtain i where "i < length [c..<b]" "P ([c..<b] ! i)" "m = [c..<b] ! i"
    "\<And>j. j < i \<Longrightarrow> \<not> P ([c..<b] ! j)"
    by (auto simp: find_Some_iff)
  then have m: "c \<le> m" "m < b" "P m" "m = c + i" by auto
  have "\<not> P n" if "c \<le> n" "n < m" for n
    using \<open>\<And>j. j < i \<Longrightarrow> \<not> P ([c..<b] ! j)\<close> [of "n - c"] that m by auto
  then have "find P [a..<b] = Some m"
    using assms m by (intro find_upt_Some) (auto simp: not_less [symmetric])
  with Some show ?thesis by simp
qed

lemma find_upt_SomeD:
  assumes "find P [a..<b] = Some m"
  shows "a \<le> m" "m < b" "P m" "a \<le> n \<Longrightarrow> n < m \<Longrightarrow> \<not> P n"
proof -
  obtain i where i: "i < length [a..<b]" "P ([a..<b] ! i)" "m = [a..<b] ! i"
    "\<And>j. j < i \<Longrightarrow> \<not> P ([a..<b] ! j)"
    using assms by (auto simp: find_Some_iff)
  show "a \<le> m" "m < b" "P m" using i by auto
  show "a \<le> n \<Longrightarrow> n < m \<Longrightarrow> \<not> P n" using i(1,3) i(4) [of "n - a"] by auto
qed

lemma find_upt_NoneD: "find P [a..<b] = None \<Longrightarrow> a \<le> n \<Longrightarrow> n < b \<Longrightarrow> \<not> P n"
  by (auto simp: find_None_iff)

end
