(* ===== verification/Bitmap.thy ===== *)
theory Bitmap
  imports CMachine
begin

text \<open>
  The bitmaps of \<^verbatim>\<open>src/bitmap.c\<close> and \<^verbatim>\<open>include/bitmap.h\<close>: an array of 64-bit words, here a
  list of words whose length is the size of the array object. The operations return the
  updated array; a search returns the index it stores through \<open>ret_bit\<close>, \<open>None\<close> where the
  code returns \<open>false\<close>. \<open>bm_test\<close> reads a bitmap as a set of bit numbers, and the lemmas
  say what every operation does to that set.
\<close>

unbundle bit_operations_syntax

section \<open>The operations\<close>

type_synonym bitmap = "register_t list"

abbreviation "BITMAP_WORD_BITS \<equiv> (64 :: count_t)"

definition BITMAP_NUM_WORDS :: "count_t \<Rightarrow> count_t" where
  "BITMAP_NUM_WORDS x = (x + BITMAP_WORD_BITS - 1) div BITMAP_WORD_BITS"

definition BITMAP_SET_BIT :: "index_t \<Rightarrow> register_t" where
  "BITMAP_SET_BIT x = push_bit (unat (x mod BITMAP_WORD_BITS)) 1"

definition BITMAP_WORD :: "index_t \<Rightarrow> index_t" where
  "BITMAP_WORD x = x div BITMAP_WORD_BITS"

text \<open>
  \<open>compiler_sizeof_object\<close> is the size of the array where the compiler knows it; where it
  does not, the assertion is vacuous and the same condition is what makes the access below
  it defined. The model checks it against the length of the array in both cases.
\<close>

definition BITMAP_SIZE_ASSERT :: "bitmap \<Rightarrow> index_t \<Rightarrow> 'a outcome \<Rightarrow> 'a outcome" where
  "BITMAP_SIZE_ASSERT bitmap b k = ensure (unat (BITMAP_WORD b) < length bitmap) k"

definition bitmap_isset :: "bitmap \<Rightarrow> index_t \<Rightarrow> bool outcome" where
  "bitmap_isset bitmap b =
     BITMAP_SIZE_ASSERT bitmap b
       (let i = BITMAP_WORD b
        in Done ((bitmap ! unat i) AND BITMAP_SET_BIT b \<noteq> 0))"

definition bitmap_set :: "bitmap \<Rightarrow> index_t \<Rightarrow> bitmap outcome" where
  "bitmap_set bitmap b =
     BITMAP_SIZE_ASSERT bitmap b
       (let i = BITMAP_WORD b
        in Done (bitmap[unat i := (bitmap ! unat i) OR BITMAP_SET_BIT b]))"

definition bitmap_clear :: "bitmap \<Rightarrow> index_t \<Rightarrow> bitmap outcome" where
  "bitmap_clear bitmap b =
     BITMAP_SIZE_ASSERT bitmap b
       (let i = BITMAP_WORD b
        in Done (bitmap[unat i := (bitmap ! unat i) AND NOT (BITMAP_SET_BIT b)]))"

definition bitmap_extract :: "bitmap \<Rightarrow> index_t \<Rightarrow> index_t \<Rightarrow> register_t outcome" where
  "bitmap_extract bitmap b width =
     BITMAP_SIZE_ASSERT bitmap (b + width - 1)
       (ensure (width \<le> BITMAP_WORD_BITS \<and> BITMAP_WORD b = BITMAP_WORD (b + width - 1))
         (let i = BITMAP_WORD b; mask = util_mask_safe (unat width)
          in Done (drop_bit (unat (b mod BITMAP_WORD_BITS)) (bitmap ! unat i) AND mask)))"

definition bitmap_insert :: "bitmap \<Rightarrow> index_t \<Rightarrow> index_t \<Rightarrow> register_t \<Rightarrow> bitmap outcome" where
  "bitmap_insert bitmap b width val =
     BITMAP_SIZE_ASSERT bitmap (b + width - 1)
       (ensure (width \<le> BITMAP_WORD_BITS \<and> BITMAP_WORD b = BITMAP_WORD (b + width - 1))
         (let i = BITMAP_WORD b; mask = util_mask_safe (unat width);
              s = unat (b mod BITMAP_WORD_BITS);
              w = (bitmap ! unat i) AND NOT (push_bit s mask)
          in Done (bitmap[unat i := w OR push_bit s (val AND mask)])))"

text \<open>The word \<open>x\<close> that \<open>bitmap_find_first\<close> examines at index \<open>i\<close>.\<close>

definition search_word :: "bitmap \<Rightarrow> index_t \<Rightarrow> bool \<Rightarrow> index_t \<Rightarrow> register_t" where
  "search_word bitmap start_bit is_set i =
     (let x = (if is_set then bitmap ! unat i else NOT (bitmap ! unat i))
      in if i = BITMAP_WORD start_bit
         then x AND NOT (util_mask (unat (start_bit mod BITMAP_WORD_BITS)))
         else x)"

text \<open>The loop of \<open>bitmap_find_first\<close>, from word \<open>i\<close> to \<open>words\<close>.\<close>

function find_first_loop ::
  "bitmap \<Rightarrow> index_t \<Rightarrow> index_t \<Rightarrow> bool \<Rightarrow> count_t \<Rightarrow> index_t \<Rightarrow> index_t option outcome" where
  "find_first_loop bitmap start_bit end_bit is_set words i =
     (if i < words then
        in_object (unat i < length bitmap)
          (let x = search_word bitmap start_bit is_set i
           in if x \<noteq> 0 then
                bindc (compiler_ctz x) (\<lambda>j.
                  ensure (j < BITMAP_WORD_BITS)
                    (let b = i * BITMAP_WORD_BITS + j
                     in Done (if b \<le> end_bit then Some b else None)))
              else find_first_loop bitmap start_bit end_bit is_set words (i + 1))
      else Done None)"
  by pat_completeness auto
termination
  by (relation "measure (\<lambda>(bitmap, s, e, is_set, words, i). unat words - unat i)")
    (auto simp: word_less_nat_alt unat_Suc_fits intro!: diff_less_mono2)

definition bitmap_find_first ::
  "bitmap \<Rightarrow> index_t \<Rightarrow> index_t \<Rightarrow> bool \<Rightarrow> index_t option outcome" where
  "bitmap_find_first bitmap start_bit end_bit is_set =
     ensure (start_bit \<le> end_bit)
       (BITMAP_SIZE_ASSERT bitmap end_bit
         (find_first_loop bitmap start_bit end_bit is_set
           (BITMAP_NUM_WORDS (end_bit + 1)) (BITMAP_WORD start_bit)))"

definition bitmap_ffs :: "bitmap \<Rightarrow> index_t \<Rightarrow> index_t \<Rightarrow> index_t option outcome" where
  "bitmap_ffs bitmap start_bit end_bit = bitmap_find_first bitmap start_bit end_bit True"

definition bitmap_ffc :: "bitmap \<Rightarrow> index_t \<Rightarrow> index_t \<Rightarrow> index_t option outcome" where
  "bitmap_ffc bitmap start_bit end_bit = bitmap_find_first bitmap start_bit end_bit False"

declare find_first_loop.simps [simp del]

section \<open>A bitmap as a set of bits\<close>

definition bm_test :: "bitmap \<Rightarrow> nat \<Rightarrow> bool" where
  "bm_test bm n \<longleftrightarrow> n div 64 < length bm \<and> bit (bm ! (n div 64)) (n mod 64)"

definition bm_bits :: "bitmap \<Rightarrow> nat" where
  "bm_bits bm = 64 * length bm"

lemma bm_test_bound: "bm_test bm n \<Longrightarrow> n < bm_bits bm"
  by (auto simp: bm_test_def bm_bits_def)

lemma bm_bits_iff: "n div 64 < length bm \<longleftrightarrow> n < bm_bits bm"
  by (auto simp: bm_bits_def)

lemma unat_BITMAP_WORD [simp]: "unat (BITMAP_WORD x) = unat x div 64"
  by (simp add: BITMAP_WORD_def unat_div)

lemma unat_mod_64 [simp]: "unat ((x :: index_t) mod 64) = unat x mod 64"
  by (simp add: unat_mod)

lemma bit_BITMAP_SET_BIT: "bit (BITMAP_SET_BIT x) k \<longleftrightarrow> k = unat x mod 64"
proof -
  have "unat x mod 64 < 64" by simp
  then show ?thesis
    by (auto simp: BITMAP_SET_BIT_def bit_simps)
qed

lemma word_and_bit_nonzero:
  assumes "\<And>k. bit y k \<longleftrightarrow> k = m"
  shows "x AND y \<noteq> 0 \<longleftrightarrow> bit (x :: 'a::len word) m"
  using assms by (auto simp: word_and_nonzero_iff)

lemma BITMAP_SIZE_ASSERT_ok [simp]:
  "unat b < bm_bits bm \<Longrightarrow> BITMAP_SIZE_ASSERT bm b k = k"
  by (simp add: BITMAP_SIZE_ASSERT_def bm_bits_iff)

lemma BITMAP_SIZE_ASSERT_fail:
  "bm_bits bm \<le> unat b \<Longrightarrow> BITMAP_SIZE_ASSERT bm b k = Fault AssertionFailed"
  by (simp add: BITMAP_SIZE_ASSERT_def bm_bits_iff)

lemma bitmap_isset_eq:
  assumes "unat b < bm_bits bm"
  shows "bitmap_isset bm b = Done (bm_test bm (unat b))"
  using assms
  by (simp add: bitmap_isset_def bm_test_def bm_bits_iff
      word_and_bit_nonzero [OF bit_BITMAP_SET_BIT])

lemma nth_eq_div_mod: "n div 64 = m div 64 \<Longrightarrow> n mod 64 = m mod 64 \<Longrightarrow> n = (m::nat)"
  by (metis div_mult_mod_eq)

lemma bitmap_set_eq:
  assumes "unat b < bm_bits bm"
  obtains bm' where "bitmap_set bm b = Done bm'" "length bm' = length bm"
    "\<And>n. bm_test bm' n \<longleftrightarrow> n = unat b \<or> bm_test bm n"
proof -
  let ?bm' = "bm[unat b div 64 := (bm ! (unat b div 64)) OR BITMAP_SET_BIT b]"
  have "bitmap_set bm b = Done ?bm'"
    using assms by (simp add: bitmap_set_def)
  moreover have "bm_test ?bm' n \<longleftrightarrow> n = unat b \<or> bm_test bm n" for n
    using assms nth_eq_div_mod [of n "unat b"]
    by (auto simp: bm_test_def bm_bits_iff [symmetric] nth_list_update bit_simps bit_BITMAP_SET_BIT)
  ultimately show thesis using that by simp
qed

lemma bitmap_clear_eq:
  assumes "unat b < bm_bits bm"
  obtains bm' where "bitmap_clear bm b = Done bm'" "length bm' = length bm"
    "\<And>n. bm_test bm' n \<longleftrightarrow> n \<noteq> unat b \<and> bm_test bm n"
proof -
  let ?bm' = "bm[unat b div 64 := (bm ! (unat b div 64)) AND NOT (BITMAP_SET_BIT b)]"
  have "bitmap_clear bm b = Done ?bm'"
    using assms by (simp add: bitmap_clear_def)
  moreover have "bm_test ?bm' n \<longleftrightarrow> n \<noteq> unat b \<and> bm_test bm n" for n
    using assms nth_eq_div_mod [of n "unat b"]
    by (auto simp: bm_test_def bm_bits_iff [symmetric] nth_list_update bit_simps bit_BITMAP_SET_BIT
        dest: bit_imp_le_length)
  ultimately show thesis using that by simp
qed

section \<open>Ranges within a word\<close>

text \<open>
  \<open>in_word bm b w\<close>: the \<open>w\<close> bits from \<open>b\<close> lie in one word of the bitmap, which is what
  \<open>bitmap_extract\<close> and \<open>bitmap_insert\<close> assert.
\<close>

definition in_word :: "bitmap \<Rightarrow> index_t \<Rightarrow> index_t \<Rightarrow> bool" where
  "in_word bm b w \<longleftrightarrow> 0 < unat w \<and> unat b mod 64 + unat w \<le> 64 \<and>
     unat b + unat w \<le> bm_bits bm \<and> bm_bits bm < 2 ^ 32"

lemma in_word_last:
  assumes "in_word bm b w"
  shows "unat (b + w - 1) = unat b + unat w - 1"
proof -
  have "unat (b + w) = unat b + unat w"
    using assms by (intro unat_add_fits) (simp add: in_word_def)
  then show ?thesis
    using assms by (simp add: in_word_def unat_sub_fits)
qed

lemma in_word_same_word:
  assumes "in_word bm b w"
  shows "unat (BITMAP_WORD (b + w - 1)) = unat b div 64"
proof -
  have "(unat b + (unat w - 1)) div 64 = unat b div 64"
    using assms by (intro div_mod_offset) (auto simp: in_word_def)
  moreover have "unat b + (unat w - 1) = unat b + unat w - 1"
    using assms by (simp add: in_word_def)
  ultimately have "(unat b + unat w - 1) div 64 = unat b div 64"
    by (simp only:)
  then show ?thesis
    using assms by (simp only: in_word_last unat_BITMAP_WORD)
qed

lemma in_word_asserts:
  assumes "in_word bm b w"
  shows "BITMAP_SIZE_ASSERT bm (b + w - 1) k = k"
    "w \<le> 64" "BITMAP_WORD b = BITMAP_WORD (b + w - 1)" "unat b div 64 < length bm"
proof -
  show "BITMAP_SIZE_ASSERT bm (b + w - 1) k = k"
    using assms in_word_last [OF assms] by (intro BITMAP_SIZE_ASSERT_ok) (auto simp: in_word_def)
  show "w \<le> 64" using assms by (auto simp: in_word_def word_le_nat_alt)
  show "BITMAP_WORD b = BITMAP_WORD (b + w - 1)"
    using in_word_same_word [OF assms] by (simp add: word_unat_eq_iff)
  show "unat b div 64 < length bm"
    using assms by (simp add: bm_bits_iff in_word_def)
qed

lemma bitmap_extract_eq:
  assumes "in_word bm b w"
  obtains v where "bitmap_extract bm b w = Done v"
    "\<And>k. bit v k \<longleftrightarrow> k < unat w \<and> bm_test bm (unat b + k)"
proof -
  let ?v = "drop_bit (unat b mod 64) (bm ! (unat b div 64)) AND mask (unat w)"
  have "bitmap_extract bm b w = Done ?v"
    unfolding bitmap_extract_def in_word_asserts(1) [OF assms]
    using in_word_asserts(2,3) [OF assms]
    by (simp add: util_mask_safe_eq Let_def unat_BITMAP_WORD [symmetric] del: unat_BITMAP_WORD)
  moreover have "bit ?v k \<longleftrightarrow> k < unat w \<and> bm_test bm (unat b + k)" for k
  proof (cases "k < unat w")
    case True
    then have "unat b mod 64 + k < 64" using assms by (simp add: in_word_def)
    then have "(unat b + k) div 64 = unat b div 64" "(unat b + k) mod 64 = unat b mod 64 + k"
      by (rule div_mod_offset)+
    then show ?thesis
      using True assms in_word_asserts(4) [OF assms]
      by (auto simp: bm_test_def bit_simps in_word_def dest: bit_imp_le_length)
  qed (simp add: bit_simps)
  ultimately show thesis using that by blast
qed

lemma bitmap_insert_eq:
  assumes "in_word bm b w"
  obtains bm' where "bitmap_insert bm b w v = Done bm'" "length bm' = length bm"
    "\<And>n. bm_test bm' n \<longleftrightarrow>
       (if unat b \<le> n \<and> n < unat b + unat w then bit v (n - unat b) else bm_test bm n)"
proof -
  let ?i = "unat b div 64" and ?s = "unat b mod 64"
  let ?x = "((bm ! ?i) AND NOT (push_bit ?s (mask (unat w)))) OR push_bit ?s (v AND mask (unat w))"
  let ?bm' = "bm[?i := ?x]"
  have "bitmap_insert bm b w v = Done ?bm'"
    unfolding bitmap_insert_def in_word_asserts(1) [OF assms]
    using in_word_asserts(2,3) [OF assms]
    by (simp add: util_mask_safe_eq Let_def unat_BITMAP_WORD [symmetric] del: unat_BITMAP_WORD)
  moreover have "bm_test ?bm' n \<longleftrightarrow>
       (if unat b \<le> n \<and> n < unat b + unat w then bit v (n - unat b) else bm_test bm n)" for n
  proof -
    have fits: "?s + unat w \<le> 64" "?i < length bm"
      using assms in_word_asserts(4) [OF assms] by (simp_all add: in_word_def)
    have bitx: "bit ?x k \<longleftrightarrow> (if ?s \<le> k \<and> k < ?s + unat w then bit v (k - ?s) else bit (bm ! ?i) k)"
      if "k < 64" for k
      using that by (auto simp: bit_simps)
    show ?thesis
    proof (cases "n div 64 = ?i")
      case True
      have "n = 64 * ?i + n mod 64" "unat b = 64 * ?i + ?s"
        using True by (metis mult_div_mod_eq)+
      then have "unat b \<le> n \<longleftrightarrow> ?s \<le> n mod 64" "n < unat b + unat w \<longleftrightarrow> n mod 64 < ?s + unat w"
        "n - unat b = n mod 64 - ?s"
        by linarith+
      then show ?thesis
        using True fits bitx [of "n mod 64"] by (auto simp: bm_test_def)
    next
      case False
      have "\<not> (unat b \<le> n \<and> n < unat b + unat w)"
      proof
        assume n: "unat b \<le> n \<and> n < unat b + unat w"
        then have "(unat b + (n - unat b)) div 64 = ?i"
          using fits by (intro div_mod_offset) auto
        with n False show False by simp
      qed
      then show ?thesis
        using False by (auto simp: bm_test_def)
    qed
  qed
  ultimately show thesis using that by simp
qed

section \<open>Searching\<close>

text \<open>
  The word-at-a-time search returns what a bit-at-a-time search of the interval does: the
  first bit from \<open>start_bit\<close> to \<open>end_bit\<close> (both included) with the wanted value.
\<close>

definition bm_first :: "bitmap \<Rightarrow> index_t \<Rightarrow> index_t \<Rightarrow> bool \<Rightarrow> index_t option" where
  "bm_first bm s e v =
     map_option of_nat (find (\<lambda>n. bm_test bm n = v) [unat s..<Suc (unat e)])"

lemma bit_search_word:
  assumes "unat i < length bm" "unat s div 64 \<le> unat i" "k < 64"
  shows "bit (search_word bm s v i) k \<longleftrightarrow>
    bm_test bm (64 * unat i + k) = v \<and> unat s \<le> 64 * unat i + k"
proof -
  have "bm_test bm (64 * unat i + k) \<longleftrightarrow> bit (bm ! unat i) k"
    using assms by (simp add: bm_test_def)
  moreover have "i = BITMAP_WORD s \<longleftrightarrow> unat i = unat s div 64"
    by (simp add: word_unat_eq_iff)
  moreover have "unat s \<le> 64 * unat i + k \<longleftrightarrow> unat i = unat s div 64 \<longrightarrow> unat s mod 64 \<le> k"
  proof -
    have "unat s = 64 * (unat s div 64) + unat s mod 64" "unat s mod 64 < 64" by simp_all
    then show ?thesis using assms(2,3) by (cases "unat i = unat s div 64") linarith+
  qed
  ultimately show ?thesis
    using assms(3)
    by (auto simp: search_word_def Let_def util_mask_eq bit_simps)
qed

lemma find_first_loop_step:
  assumes "unat i < unat words" "unat i < length bm"
  shows "find_first_loop bm s e v words i =
    (if search_word bm s v i \<noteq> 0 then
       let b = i * 64 + of_nat (builtin_ctz (search_word bm s v i))
       in Done (if b \<le> e then Some b else None)
     else find_first_loop bm s e v words (i + 1))"
proof (cases "search_word bm s v i = 0")
  case True
  then show ?thesis
    using assms by (subst find_first_loop.simps) (simp add: Let_def word_less_nat_alt)
next
  case False
  then have "builtin_ctz (search_word bm s v i) < 64" by (rule builtin_ctz_first)
  then have "(of_nat (builtin_ctz (search_word bm s v i)) :: index_t) < 64"
    by (simp add: word_less_nat_alt)
  with False show ?thesis
    using assms
    by (subst find_first_loop.simps) (simp add: Let_def word_less_nat_alt [of i] compiler_ctz_def)
qed

text \<open>The lowest bit of a word that is not zero.\<close>

lemma find_first_hit:
  assumes "unat i < length bm" "bm_bits bm < 2 ^ 32" "unat s div 64 \<le> unat i" "search_word bm s v i \<noteq> 0"
  defines "j \<equiv> builtin_ctz (search_word bm s v i)"
  shows "unat (i * 64 + of_nat j) = 64 * unat i + j" "i * 64 + of_nat j = of_nat (64 * unat i + j)"
    "find (\<lambda>n. bm_test bm n = v) [max (unat s) (64 * unat i)..<Suc (unat e)] =
       (if 64 * unat i + j \<le> unat e then Some (64 * unat i + j) else None)"
proof -
  let ?x = "search_word bm s v i" and ?P = "\<lambda>n. bm_test bm n = v" and ?lo = "max (unat s) (64 * unat i)"
  note bits = bit_search_word [OF assms(1,3)]
  have j: "bit ?x j" "\<And>k. k < j \<Longrightarrow> \<not> bit ?x k" "j < 64"
    using builtin_ctz_first [OF assms(4)] by (auto simp: j_def)
  have "64 * unat i + j < 2 ^ 32" using assms(1,2) j(3) by (simp add: bm_bits_def)
  then show "unat (i * 64 + of_nat j) = 64 * unat i + j" using j(3) by (simp add: unat_word_ariths)
  then show "i * 64 + of_nat j = of_nat (64 * unat i + j)" by (simp add: mult.commute)
  have hit: "?P (64 * unat i + j)" "?lo \<le> 64 * unat i + j"
    using bits [OF j(3), of v] j(1) by auto
  have miss: "\<not> ?P n" if "?lo \<le> n" "n < 64 * unat i + j" for n
    using bits [of "n - 64 * unat i" v] j(2) [of "n - 64 * unat i"] j(3) that by auto
  show "find ?P [?lo..<Suc (unat e)] = (if 64 * unat i + j \<le> unat e then Some (64 * unat i + j) else None)"
  proof (cases "64 * unat i + j \<le> unat e")
    case True
    with hit miss have "find ?P [?lo..<Suc (unat e)] = Some (64 * unat i + j)"
      by (intro find_upt_Some) simp_all
    with True show ?thesis by simp
  next
    case False
    with miss have "find ?P [?lo..<Suc (unat e)] = None" by (intro find_upt_None) simp
    with False show ?thesis by simp
  qed
qed

lemma find_first_loop_eq:
  assumes "unat e < bm_bits bm" "bm_bits bm < 2 ^ 32"
    "unat words = Suc (unat e div 64)" "unat s div 64 \<le> unat i"
  shows "find_first_loop bm s e v words i =
    Done (map_option of_nat
      (find (\<lambda>n. bm_test bm n = v) [max (unat s) (64 * unat i)..<Suc (unat e)]))"
  using assms(4)
proof (induction "unat words - unat i" arbitrary: i rule: less_induct)
  case less
  let ?x = "search_word bm s v i" and ?P = "\<lambda>n. bm_test bm n = v"
  let ?lo = "max (unat s) (64 * unat i)"
  show ?case
  proof (cases "unat i < unat words")
    case False
    then have "Suc (unat e) \<le> 64 * unat i" using assms(3) by simp
    with False show ?thesis
      by (subst find_first_loop.simps) (simp add: word_less_nat_alt)
  next
    case True
    then have len: "unat i < length bm" "64 * unat i \<le> unat e"
      using assms(1,3) by (auto simp: bm_bits_def)
    note bits = bit_search_word [OF len(1) less.prems]
    show ?thesis
    proof (cases "?x = 0")
      case True
      have none: "\<not> ?P n" if "?lo \<le> n" "n < 64 * Suc (unat i)" for n
        using bits [of "n - 64 * unat i" v] that True by auto
      have next_word: "unat (i + 1) = Suc (unat i)"
        using \<open>unat i < unat words\<close> by (intro unat_Suc_fits) (simp add: word_less_nat_alt)
      have "find_first_loop bm s e v words i = find_first_loop bm s e v words (i + 1)"
        using True len \<open>unat i < unat words\<close> by (simp add: find_first_loop_step)
      also have "\<dots> = Done (map_option of_nat
          (find ?P [max (unat s) (64 * unat (i + 1))..<Suc (unat e)]))"
        using \<open>unat i < unat words\<close> less.prems next_word by (intro less.hyps) auto
      also have "find ?P [max (unat s) (64 * unat (i + 1))..<Suc (unat e)] = find ?P [?lo..<Suc (unat e)]"
        using less.prems none by (intro find_upt_skip [symmetric]) (auto simp: next_word)
      finally show ?thesis .
    next
      case False
      define j where "j = builtin_ctz ?x"
      note hit = find_first_hit [OF len(1) assms(2) less.prems False, folded j_def]
      show ?thesis
        using False \<open>unat i < unat words\<close> len(1) hit(1) hit(3) [of e]
        by (simp add: find_first_loop_step Let_def word_le_nat_alt hit(2) j_def [symmetric] del: upt_Suc)
    qed
  qed
qed

lemma bitmap_find_first_eq:
  assumes "unat s \<le> unat e" "unat e < bm_bits bm" "bm_bits bm < 2 ^ 32"
  shows "bitmap_find_first bm s e v = Done (bm_first bm s e v)"
proof -
  have "unat e + 64 < 2 ^ 32"
    using assms(2,3) by (auto simp: bm_bits_def)
  then have "unat (e + 64) = unat e + 64"
    by (intro unat_add_fits [THEN trans]) simp_all
  moreover have "BITMAP_NUM_WORDS (e + 1) = (e + 64) div 64"
    by (simp add: BITMAP_NUM_WORDS_def add.commute)
  ultimately have "unat (BITMAP_NUM_WORDS (e + 1)) = Suc (unat e div 64)"
    by (simp add: unat_div)
  moreover have "max (unat s) (64 * (unat s div 64)) = unat s"
    by simp
  ultimately show ?thesis
    using assms(1,2) find_first_loop_eq [OF assms(2,3), of "BITMAP_NUM_WORDS (e + 1)" s "BITMAP_WORD s" v]
    by (simp add: bitmap_find_first_def bm_first_def word_le_nat_alt del: upt_Suc)
qed

lemma bm_first_NoneD:
  "bm_first bm s e v = None \<Longrightarrow> unat s \<le> n \<Longrightarrow> n \<le> unat e \<Longrightarrow> bm_test bm n \<noteq> v"
  by (auto simp: bm_first_def simp del: upt_Suc dest: find_upt_NoneD)

lemma bm_first_SomeD:
  assumes "bm_first bm s e v = Some i"
  shows "unat s \<le> unat i" "unat i \<le> unat e" "bm_test bm (unat i) = v"
    "unat s \<le> n \<Longrightarrow> n < unat i \<Longrightarrow> bm_test bm n \<noteq> v"
proof -
  obtain m where m: "find (\<lambda>n. bm_test bm n = v) [unat s..<Suc (unat e)] = Some m" "i = of_nat m"
    using assms by (auto simp: bm_first_def)
  note found = find_upt_SomeD [OF m(1)]
  have "m < 2 ^ 32" using found(2) unat_lt32 [of e] by simp
  then have "unat i = m" by (simp add: m(2))
  then show "unat s \<le> unat i" "unat i \<le> unat e" "bm_test bm (unat i) = v"
    "unat s \<le> n \<Longrightarrow> n < unat i \<Longrightarrow> bm_test bm n \<noteq> v"
    using found by simp_all
qed

lemma bitmap_ffs_eq:
  "unat s \<le> unat e \<Longrightarrow> unat e < bm_bits bm \<Longrightarrow> bm_bits bm < 2 ^ 32 \<Longrightarrow>
   bitmap_ffs bm s e = Done (bm_first bm s e True)"
  unfolding bitmap_ffs_def by (rule bitmap_find_first_eq)

lemma bitmap_ffc_eq:
  "unat s \<le> unat e \<Longrightarrow> unat e < bm_bits bm \<Longrightarrow> bm_bits bm < 2 ^ 32 \<Longrightarrow>
   bitmap_ffc bm s e = Done (bm_first bm s e False)"
  unfolding bitmap_ffc_def by (rule bitmap_find_first_eq)

end
