(* ===== verification/Mmap.thy ===== *)
theory Mmap
  imports Bitmap
begin

text \<open>
  The page allocator of \<^verbatim>\<open>src/mmap.c\<close>: heap nodes with a bitmap of free pages and a
  second-level bitmap of blocks that have free pages, the program break, and the calls
  \<open>sys_brk\<close>, \<open>sys_mmap\<close>, \<open>sys_munmap\<close>, \<open>mmap_add_heap\<close>, \<open>mmap_remove_heap\<close>,
  \<open>mmap_heap_is_free\<close> and \<open>mmap_heap_get_stats\<close>. The static variables of the file are the
  record \<open>mmap_state\<close>. A node pointer is the address of the node, which is the base of its
  heap; \<open>NULL\<close> is 0. The build has \<open>MMAP_ALLOC_TRACK\<close> and \<open>MMAP_SANITISE\<close> set to 0.
\<close>

unbundle bit_operations_syntax

section \<open>State\<close>

record mmap_node =
  nd_base :: uintptr_t
  nd_size :: size_t
  nd_avail_blocks :: bitmap
  nd_free_pages :: bitmap
  nd_meta_size :: size_t

record mmap_state =
  mmap_node_list :: "mmap_node list"
  mmap_brk_node :: uintptr_t
  mmap_total_size :: size_t
  mmap_alloc_size :: size_t
  brk_base :: uintptr_t
  brk_top :: uintptr_t
  cur_brk :: uintptr_t
  mm_mem :: "uintptr_t \<Rightarrow> u8"
  mm_logs :: "log_call list"

definition mmap_initial :: "(uintptr_t \<Rightarrow> u8) \<Rightarrow> mmap_state" where
  "mmap_initial m =
     \<lparr>mmap_node_list = [], mmap_brk_node = 0, mmap_total_size = 0, mmap_alloc_size = 0,
      brk_base = 0, brk_top = 0, cur_brk = 0, mm_mem = m, mm_logs = []\<rparr>"

definition mem_fill :: "uintptr_t \<Rightarrow> u8 \<Rightarrow> size_t \<Rightarrow> (uintptr_t \<Rightarrow> u8) \<Rightarrow> (uintptr_t \<Rightarrow> u8)" where
  "mem_fill s c n m = (\<lambda>a. if unat (a - s) < unat n then c else m a)"

definition mm_log :: "string \<Rightarrow> log_arg list \<Rightarrow> mmap_state \<Rightarrow> mmap_state" where
  "mm_log fmt args st = st\<lparr>mm_logs := mm_logs st @ [(fmt, args)]\<rparr>"

section \<open>The program break\<close>

definition sys_brk :: "uintptr_t \<Rightarrow> mmap_state \<Rightarrow> uintptr_t \<times> mmap_state" where
  "sys_brk brk st =
     (let new_brk = util_balign_up brk PAGE_SIZE
      in if new_brk \<ge> brk_base st \<and> new_brk \<le> brk_top st
         then let st' = st\<lparr>cur_brk := new_brk\<rparr> in (cur_brk st', st')
         else if brk \<noteq> 0
         then let st' = mm_log ''{:s}: invalid brk {:#x}\<newline>'' [LogStr ''sys_brk'', LogNum brk] st
              in (cur_brk st', st')
         else (cur_brk st, st))"

section \<open>Ranges of pages\<close>

text \<open>
  The loop of \<open>update_mmap_range\<close>: \<open>curr_bit\<close> and \<open>rem_bits\<close> move by at most a word in each
  round.
\<close>

function update_range_loop ::
  "index_t \<Rightarrow> bool \<Rightarrow> mmap_node \<Rightarrow> index_t \<Rightarrow> count_t \<Rightarrow> (mmap_node \<times> index_t) outcome" where
  "update_range_loop start_bit is_set node curr_bit rem_bits =
     (if rem_bits > 0 then
        let i = curr_bit mod BITMAP_WORD_BITS;
            j = curr_bit div BITMAP_WORD_BITS;
            width = util_min rem_bits (BITMAP_WORD_BITS - i);
            msk = util_mask_safe (unat width)
        in ensure (curr_bit = start_bit \<or> i = 0)
          (if is_set then
             bindc (bitmap_extract (nd_free_pages node) curr_bit width) (\<lambda>v.
             ensure (v = 0)
               (bindc (bitmap_insert (nd_free_pages node) curr_bit width msk) (\<lambda>free.
                bindc (bitmap_set (nd_avail_blocks node) j) (\<lambda>avail.
                update_range_loop start_bit is_set
                  (node\<lparr>nd_free_pages := free, nd_avail_blocks := avail\<rparr>)
                  (curr_bit + width) (rem_bits - width)))))
           else
             bindc (bitmap_isset (nd_avail_blocks node) j) (\<lambda>av.
             ensure av
               (bindc (bitmap_extract (nd_free_pages node) curr_bit width) (\<lambda>v.
                ensure (v = msk)
                  (bindc (bitmap_insert (nd_free_pages node) curr_bit width 0) (\<lambda>free.
                   in_object (unat j < length free)
                     (bindc (if free ! unat j = 0
                             then bitmap_clear (nd_avail_blocks node) j
                             else Done (nd_avail_blocks node)) (\<lambda>avail.
                      update_range_loop start_bit is_set
                        (node\<lparr>nd_free_pages := free, nd_avail_blocks := avail\<rparr>)
                        (curr_bit + width) (rem_bits - width))))))))
          )
      else Done (node, curr_bit))"
  by pat_completeness auto

text \<open>A round makes progress: its width is at least one bit.\<close>

lemma chunk_width_pos:
  fixes r c :: index_t
  assumes "0 < r"
  shows "0 < min r (64 - c mod 64)"
proof -
  have "unat (c mod 64) < 64" by (simp add: unat_mod)
  then have "0 < unat (64 - c mod 64)" by (simp add: unat_sub_fits)
  then show ?thesis using assms by (simp add: word_less_nat_alt min_def)
qed

lemma chunk_width_decr:
  fixes r c :: index_t
  assumes "0 < r"
  shows "unat (r - min r (64 - c mod 64)) < unat r"
proof -
  let ?w = "min r (64 - c mod 64)"
  have "unat (r - ?w) = unat r - unat ?w"
    by (rule unat_sub_fits) (simp add: unat_min)
  moreover have "0 < unat ?w"
    using chunk_width_pos [OF assms, of c] by (simp add: word_less_nat_alt)
  ultimately show ?thesis
    using assms by (simp add: word_less_nat_alt)
qed

termination update_range_loop
  by (relation "measure (\<lambda>(s, b, node, c, r). unat r)") (simp_all add: chunk_width_decr)

declare update_range_loop.simps [simp del]

definition update_mmap_range ::
  "mmap_node \<Rightarrow> index_t \<Rightarrow> count_t \<Rightarrow> bool \<Rightarrow> mmap_node outcome" where
  "update_mmap_range node start_bit num_bits is_set =
     bindc (update_range_loop start_bit is_set node start_bit num_bits) (\<lambda>(node', curr_bit).
       ensure (curr_bit = start_bit + num_bits) (Done node'))"

text \<open>
  \<open>mmap_range_is_free\<close> returns its verdict and the value left in \<open>*next_bit\<close>.
\<close>

function range_is_free_loop ::
  "index_t \<Rightarrow> mmap_node \<Rightarrow> index_t \<Rightarrow> index_t \<Rightarrow> count_t \<Rightarrow> (bool \<times> index_t) outcome" where
  "range_is_free_loop start_bit node next_bit curr_bit rem_bits =
     (if rem_bits > 0 then
        let i = curr_bit mod BITMAP_WORD_BITS;
            width = util_min rem_bits (BITMAP_WORD_BITS - i);
            msk = util_mask_safe (unat width)
        in ensure (curr_bit = start_bit \<or> i = 0)
          (bindc (bitmap_extract (nd_free_pages node) curr_bit width) (\<lambda>v.
           if v \<noteq> msk then
             let alloc_bits = NOT v AND msk
             in ensure (alloc_bits \<noteq> 0)
                  (bindc (compiler_msb alloc_bits) (\<lambda>m.
                   Done (False, curr_bit + m + 1)))
           else range_is_free_loop start_bit node next_bit (curr_bit + width) (rem_bits - width)))
      else Done (True, next_bit))"
  by pat_completeness auto
termination
  by (relation "measure (\<lambda>(s, node, nb, c, r). unat r)") (simp_all add: chunk_width_decr)

declare range_is_free_loop.simps [simp del]

definition mmap_range_is_free ::
  "mmap_node \<Rightarrow> index_t \<Rightarrow> count_t \<Rightarrow> index_t \<Rightarrow> (bool \<times> index_t) outcome" where
  "mmap_range_is_free node start_bit num_bits next_bit =
     range_is_free_loop start_bit node next_bit start_bit num_bits"

text \<open>
  The \<open>do\<close> loop of \<open>search_free_mmap_range\<close>, with fuel. Each round moves \<open>curr_bit\<close> past an
  allocated page, so as many rounds as there are start positions are enough
  (\<open>search_free_mmap_range_eq\<close>).
\<close>

fun search_loop ::
  "nat \<Rightarrow> mmap_node \<Rightarrow> count_t \<Rightarrow> count_t \<Rightarrow> count_t \<Rightarrow> index_t \<Rightarrow> index_t option outcome" where
  "search_loop 0 node num_bits end_bit end_block curr_bit = Fault OutOfFuel"
| "search_loop (Suc fuel) node num_bits end_bit end_block curr_bit =
     (let curr_block = curr_bit div BITMAP_WORD_BITS
      in bindc (bitmap_ffs (nd_avail_blocks node) curr_block end_block) (\<lambda>r.
         case r of
           None \<Rightarrow> Done None
         | Some next_block \<Rightarrow>
             let curr_bit = util_max curr_bit (next_block * BITMAP_WORD_BITS)
             in bindc (bitmap_ffs (nd_free_pages node) curr_bit end_bit) (\<lambda>r.
                case r of
                  None \<Rightarrow> Done None
                | Some next_bit \<Rightarrow>
                    bindc (mmap_range_is_free node next_bit num_bits curr_bit)
                      (\<lambda>(free, curr_bit).
                        if free then Done (Some next_bit)
                        else if curr_bit \<le> end_bit
                        then search_loop fuel node num_bits end_bit end_block curr_bit
                        else Done None))))"

definition search_free_mmap_range ::
  "mmap_node \<Rightarrow> count_t \<Rightarrow> index_t option outcome" where
  "search_free_mmap_range node num_bits =
     (let node_bits = ucast (nd_size node div PAGE_SIZE) :: count_t
      in if num_bits > node_bits then Done None
         else let end_bit = node_bits - num_bits;
                  end_block = end_bit div BITMAP_WORD_BITS
              in search_loop (Suc (unat end_bit)) node num_bits end_bit end_block 0)"

section \<open>Allocation\<close>

text \<open>
  The walk of \<open>alloc_mmap\<close> over the nodes: the first node with a free range is updated; the
  result is that node and the first page of the range.
\<close>

fun alloc_from_nodes ::
  "count_t \<Rightarrow> mmap_node list \<Rightarrow> (mmap_node list \<times> (mmap_node \<times> index_t) option) outcome" where
  "alloc_from_nodes num_bits [] = Done ([], None)"
| "alloc_from_nodes num_bits (node # nodes) =
     bindc (search_free_mmap_range node num_bits) (\<lambda>r.
       case r of
         Some start_bit \<Rightarrow>
           bindc (update_mmap_range node start_bit num_bits False) (\<lambda>node'.
             Done (node' # nodes, Some (node', start_bit)))
       | None \<Rightarrow>
           bindc (alloc_from_nodes num_bits nodes) (\<lambda>(nodes', r).
             Done (node # nodes', r)))"

definition node_at :: "uintptr_t \<Rightarrow> mmap_node list \<Rightarrow> mmap_node option" where
  "node_at p nodes = find (\<lambda>n. nd_base n = p) nodes"

text \<open>The end of \<open>alloc_mmap\<close>, once a node and a first page are known.\<close>

definition finish_alloc ::
  "size_t \<Rightarrow> mmap_node \<Rightarrow> index_t \<Rightarrow> mmap_state \<Rightarrow> (u64 \<times> mmap_state) outcome" where
  "finish_alloc len node start_bit st =
     (let addr = nd_base node + ucast start_bit * PAGE_SIZE
      in ensure (util_is_baligned addr PAGE_SIZE)
           (ensure (addr \<ge> nd_base node)
             (ensure (addr + len \<le> nd_base node + nd_size node)
               (Done (addr, st\<lparr>mmap_alloc_size := mmap_alloc_size st + len,
                              mm_mem := mem_fill addr 0 len (mm_mem st)\<rparr>)))))"

definition alloc_mmap :: "size_t \<Rightarrow> mmap_state \<Rightarrow> (u64 \<times> mmap_state) outcome" where
  "alloc_mmap len st =
     ensure (util_is_baligned len PAGE_SIZE)
      (ensure (cur_brk st \<le> brk_top st)
        (if len > mmap_total_size st then Done (- of_int ENOMEM, st)
         else
           let num_bits = ucast (len div PAGE_SIZE) :: count_t
           in bindc (alloc_from_nodes num_bits (mmap_node_list st)) (\<lambda>(nodes, r).
              case r of
                Some (node, start_bit) \<Rightarrow>
                  finish_alloc len node start_bit (st\<lparr>mmap_node_list := nodes\<rparr>)
              | None \<Rightarrow>
                  if len \<le> brk_top st - cur_brk st then
                    let st' = st\<lparr>brk_top := brk_top st - len\<rparr>
                    in case node_at (mmap_brk_node st) (mmap_node_list st) of
                         None \<Rightarrow> Fault BadAccess
                       | Some node \<Rightarrow>
                           finish_alloc len node
                             (ucast ((brk_top st' - nd_base node) div PAGE_SIZE)) st'
                  else
                    Done (- of_int ENOMEM,
                      mm_log ''sys_mmap: out of memory {:#x} {:#x} {:#x}\<newline>''
                        [LogNum len, LogNum (mmap_total_size st), LogNum (mmap_alloc_size st)] st))))"

abbreviation "MMAP_RW \<equiv> (3 :: u32)" \<comment> \<open>\<open>PROT_READ | PROT_WRITE\<close>\<close>
abbreviation "MMAP_ANON_PRIVATE \<equiv> (0x22 :: u32)" \<comment> \<open>\<open>MAP_ANONYMOUS | MAP_PRIVATE\<close>\<close>

definition sys_mmap ::
  "uintptr_t \<Rightarrow> size_t \<Rightarrow> u32 \<Rightarrow> u32 \<Rightarrow> int \<Rightarrow> size_t \<Rightarrow> mmap_state \<Rightarrow> (u64 \<times> mmap_state) outcome" where
  "sys_mmap addr len prot flags fd off st =
     (if addr \<noteq> 0 \<or> len = 0 \<or> \<not> util_is_baligned len PAGE_SIZE \<or>
         flags \<noteq> MMAP_ANON_PRIVATE \<or> prot \<noteq> MMAP_RW \<or> fd \<noteq> - 1 \<or> off \<noteq> 0
      then Done (- of_int EINVAL,
             mm_log ''{:#x} {:#x}\<newline>'' [LogNum (of_int fd), LogNum off]
              (mm_log ''sys_mmap invalid: {:#x} {:#x} {:#x} {:#x} ''
                [LogNum addr, LogNum len, LogNum (ucast prot), LogNum (ucast flags)] st))
      else alloc_mmap len st)"

section \<open>Release\<close>

definition node_holds :: "uintptr_t \<Rightarrow> size_t \<Rightarrow> mmap_node \<Rightarrow> bool" where
  "node_holds addr len node \<longleftrightarrow>
     addr \<ge> nd_base node \<and> addr + len \<le> nd_base node + nd_size node"

text \<open>The walk of \<open>free_mmap\<close>: the first node that holds the range gets its pages back.\<close>

fun free_in_nodes ::
  "uintptr_t \<Rightarrow> size_t \<Rightarrow> mmap_node list \<Rightarrow> mmap_node list option outcome" where
  "free_in_nodes addr len [] = Done None"
| "free_in_nodes addr len (node # nodes) =
     (if node_holds addr len node then
        bindc (update_mmap_range node (ucast ((addr - nd_base node) div PAGE_SIZE))
                 (ucast (len div PAGE_SIZE)) True) (\<lambda>node'.
          Done (Some (node' # nodes)))
      else
        bindc (free_in_nodes addr len nodes) (\<lambda>r.
          Done (map_option ((#) node) r)))"

definition free_mmap :: "uintptr_t \<Rightarrow> size_t \<Rightarrow> mmap_state \<Rightarrow> (int \<times> mmap_state) outcome" where
  "free_mmap addr len st =
     ensure (\<not> util_add_overflows addr len)
      (ensure (util_is_baligned addr PAGE_SIZE)
        (ensure (util_is_baligned len PAGE_SIZE)
          (bindc (free_in_nodes addr len (mmap_node_list st)) (\<lambda>r.
           case r of
             None \<Rightarrow> Done (- EINVAL, st)
           | Some nodes \<Rightarrow>
               Done (0, st\<lparr>mmap_node_list := nodes,
                           mmap_alloc_size := mmap_alloc_size st - len\<rparr>)))))"

definition sys_munmap :: "uintptr_t \<Rightarrow> size_t \<Rightarrow> mmap_state \<Rightarrow> (int \<times> mmap_state) outcome" where
  "sys_munmap addr len st =
     (if addr = 0 \<or> len = 0 \<or> util_add_overflows addr len \<or>
         \<not> util_is_baligned addr PAGE_SIZE \<or> \<not> util_is_baligned len PAGE_SIZE
      then Done (- EINVAL, st)
      else free_mmap addr len st)"

section \<open>Adding and removing heaps\<close>

abbreviation "SIZEOF_MMAP_NODE \<equiv> (56 :: size_t)" \<comment> \<open>seven 8-byte fields\<close>

definition heap_meta_size :: "count_t \<Rightarrow> size_t" where
  "heap_meta_size num_pages =
     (let num_blocks = BITMAP_NUM_WORDS num_pages;
          total_words = BITMAP_NUM_WORDS num_blocks + BITMAP_NUM_WORDS num_pages
      in SIZEOF_MMAP_NODE + ucast total_words * 8)"

definition fresh_node :: "uintptr_t \<Rightarrow> size_t \<Rightarrow> count_t \<Rightarrow> size_t \<Rightarrow> mmap_node" where
  "fresh_node base sz num_pages meta_size_align =
     \<lparr>nd_base = base, nd_size = sz,
      nd_avail_blocks = replicate (unat (BITMAP_NUM_WORDS (BITMAP_NUM_WORDS num_pages))) 0,
      nd_free_pages = replicate (unat (BITMAP_NUM_WORDS num_pages)) 0,
      nd_meta_size = meta_size_align\<rparr>"

definition mmap_add_heap ::
  "uintptr_t \<Rightarrow> size_t \<Rightarrow> bool \<Rightarrow> mmap_state \<Rightarrow> (int \<times> mmap_state) outcome" where
  "mmap_add_heap base sz is_brk st =
     ensure (sz \<noteq> 0)
      (ensure (util_is_baligned base PAGE_SIZE)
        (ensure (util_is_baligned sz PAGE_SIZE)
          (ensure (\<not> util_add_overflows base sz)
            (let num_pages = ucast (sz div PAGE_SIZE) :: count_t;
                 meta_size = heap_meta_size num_pages;
                 meta_size_align = util_balign_up meta_size PAGE_SIZE
             in if meta_size_align \<ge> sz then Done (- ENOMEM, st)
                else
                  let st1 = st\<lparr>mm_mem := mem_fill base 0 meta_size (mm_mem st)\<rparr>;
                      node = fresh_node base sz num_pages meta_size_align
                  in bindc
                      (if is_brk then
                         ensure (mmap_brk_node st1 = 0)
                           (Done (node,
                              st1\<lparr>mmap_brk_node := base,
                                  brk_base := base + meta_size_align,
                                  cur_brk := base + meta_size_align,
                                  brk_top := base + sz\<rparr>))
                       else
                         let meta_bits = ucast (meta_size_align div PAGE_SIZE) :: count_t
                         in bindc (update_mmap_range node meta_bits (num_pages - meta_bits) True)
                              (\<lambda>node'. Done (node', st1)))
                      (\<lambda>(node', st2).
                        Done (0, st2\<lparr>mmap_total_size := mmap_total_size st2 + sz,
                                     mmap_node_list := mmap_node_list st2 @ [node']\<rparr>))))))"

text \<open>\<open>is_mmap_node_free\<close>: the error code, or 0 and the node stored through \<open>node_ret\<close>.\<close>

definition is_mmap_node_free ::
  "uintptr_t \<Rightarrow> size_t \<Rightarrow> mmap_state \<Rightarrow> (int \<times> mmap_node option) outcome" where
  "is_mmap_node_free base sz st =
     ensure (sz \<noteq> 0)
      (ensure (util_is_baligned base PAGE_SIZE)
        (ensure (util_is_baligned sz PAGE_SIZE)
          (ensure (\<not> util_add_overflows base sz)
            (case find (\<lambda>n. base = nd_base n \<and> sz = nd_size n) (mmap_node_list st) of
               None \<Rightarrow> Done (- EINVAL, None)
             | Some node \<Rightarrow>
                 if nd_base node = mmap_brk_node st then Done (- EINVAL, None)
                 else
                   let start_bit = ucast (nd_meta_size node div PAGE_SIZE) :: index_t;
                       end_bit = ucast (sz div PAGE_SIZE) - 1 :: index_t
                   in bindc (bitmap_ffc (nd_free_pages node) start_bit end_bit) (\<lambda>r.
                      case r of
                        Some _ \<Rightarrow> Done (- EBUSY, None)
                      | None \<Rightarrow> Done (0, Some node))))))"

definition mmap_remove_heap :: "uintptr_t \<Rightarrow> size_t \<Rightarrow> mmap_state \<Rightarrow> (int \<times> mmap_state) outcome" where
  "mmap_remove_heap base sz st =
     bindc (is_mmap_node_free base sz st) (\<lambda>(err, r).
       case r of
         None \<Rightarrow> Done (err, st)
       | Some node \<Rightarrow>
           Done (0, st\<lparr>mmap_total_size := mmap_total_size st - sz,
                       mmap_node_list := remove1 node (mmap_node_list st)\<rparr>))"

definition mmap_heap_is_free :: "uintptr_t \<Rightarrow> size_t \<Rightarrow> mmap_state \<Rightarrow> int outcome" where
  "mmap_heap_is_free base sz st =
     bindc (is_mmap_node_free base sz st) (\<lambda>(err, r). Done err)"

section \<open>Statistics\<close>

record allocator_stats =
  as_info :: u32
  as_total :: size_t
  as_allocated :: size_t
  as_reserved :: size_t
  as_largest_free :: size_t

text \<open>
  The inner loop of \<open>mmap_heap_get_stats\<close> over the free ranges of a node, with fuel; each
  round starts past the range it has measured (\<open>free_runs_loop_eq\<close>).
\<close>

fun free_runs_loop ::
  "nat \<Rightarrow> bitmap \<Rightarrow> index_t \<Rightarrow> index_t \<Rightarrow> count_t \<Rightarrow> count_t outcome" where
  "free_runs_loop 0 free end_bit curr_bit free_bits = Fault OutOfFuel"
| "free_runs_loop (Suc fuel) free end_bit curr_bit free_bits =
     (if curr_bit \<le> end_bit then
        bindc (bitmap_ffs free curr_bit end_bit) (\<lambda>r.
          case r of
            None \<Rightarrow> Done free_bits
          | Some next_bit \<Rightarrow>
              bindc (bitmap_ffc free next_bit end_bit) (\<lambda>r.
                let curr_bit = (case r of None \<Rightarrow> end_bit + 1 | Some b \<Rightarrow> b)
                in ensure (curr_bit > next_bit)
                     (free_runs_loop fuel free end_bit curr_bit
                       (util_max (curr_bit - next_bit) free_bits))))
      else Done free_bits)"

fun stats_nodes :: "mmap_node list \<Rightarrow> size_t \<Rightarrow> count_t \<Rightarrow> (size_t \<times> count_t) outcome" where
  "stats_nodes [] reserved free_bits = Done (reserved, free_bits)"
| "stats_nodes (node # nodes) reserved free_bits =
     (let end_bit = ucast (nd_size node div PAGE_SIZE) - 1 :: index_t
      in bindc (free_runs_loop (Suc (Suc (unat end_bit))) (nd_free_pages node) end_bit 0 free_bits)
           (\<lambda>free_bits. stats_nodes nodes (reserved + nd_meta_size node) free_bits))"

definition mmap_heap_get_stats :: "mmap_state \<Rightarrow> allocator_stats outcome" where
  "mmap_heap_get_stats st =
     bindc (stats_nodes (mmap_node_list st) 0 0) (\<lambda>(reserved_size, free_bits).
       Done \<lparr>as_info = 1, as_total = mmap_total_size st,
             as_allocated = mmap_alloc_size st + (cur_brk st - brk_base st),
             as_reserved = reserved_size,
             as_largest_free = ucast free_bits * PAGE_SIZE\<rparr>)"

end
