(* ===== verification/MmapRange.thy ===== *)
theory MmapRange
  imports Mmap
begin

text \<open>
  What the page-range routines of \<^verbatim>\<open>src/mmap.c\<close> do, in terms of the set of free pages of a
  node: \<open>update_mmap_range\<close> flips exactly the pages of its range and keeps the block bitmap
  in step with the page bitmap (or stops in an assertion), \<open>mmap_range_is_free\<close> decides
  whether a range is free, and \<open>search_free_mmap_range\<close> is a first-fit search.
\<close>

unbundle bit_operations_syntax

section \<open>The two bitmaps of a node\<close>

abbreviation page_free :: "mmap_node \<Rightarrow> nat \<Rightarrow> bool" where
  "page_free node \<equiv> bm_test (nd_free_pages node)"

text \<open>
  \<open>linked\<close>: bit \<open>j\<close> of the block bitmap is set exactly when word \<open>j\<close> of the page bitmap has
  a free page.
\<close>

definition linked :: "mmap_node \<Rightarrow> bool" where
  "linked node \<longleftrightarrow>
     bm_bits (nd_free_pages node) < 2 ^ 32 \<and>
     length (nd_free_pages node) \<le> bm_bits (nd_avail_blocks node) \<and>
     bm_bits (nd_avail_blocks node) < 2 ^ 32 \<and>
     (\<forall>j < length (nd_free_pages node).
        bm_test (nd_avail_blocks node) j \<longleftrightarrow> (\<exists>n. n div 64 = j \<and> page_free node n))"

text \<open>\<open>flipped b lo hi node node'\<close>: \<open>node'\<close> is \<open>node\<close> with the pages of the range set to \<open>b\<close>.\<close>

definition flipped :: "bool \<Rightarrow> nat \<Rightarrow> nat \<Rightarrow> mmap_node \<Rightarrow> mmap_node \<Rightarrow> bool" where
  "flipped b lo hi node node' \<longleftrightarrow>
     nd_base node' = nd_base node \<and> nd_size node' = nd_size node \<and>
     nd_meta_size node' = nd_meta_size node \<and>
     length (nd_free_pages node') = length (nd_free_pages node) \<and>
     length (nd_avail_blocks node') = length (nd_avail_blocks node) \<and>
     (\<forall>n. page_free node' n \<longleftrightarrow> (if lo \<le> n \<and> n < hi then b else page_free node n)) \<and>
     linked node'"

lemma flipped_trans:
  assumes "flipped b lo mid node node'" "flipped b mid hi node' node''" "lo \<le> mid" "mid \<le> hi"
  shows "flipped b lo hi node node''"
  using assms by (auto simp: flipped_def)

lemma flipped_refl: "linked node \<Longrightarrow> flipped b lo lo node node"
  by (auto simp: flipped_def)

lemma bm_word_zero_iff:
  assumes "j < length bm"
  shows "bm ! j = 0 \<longleftrightarrow> \<not> (\<exists>n. n div 64 = j \<and> bm_test bm n)"
proof -
  have "(\<exists>k. bit (bm ! j) k) \<longleftrightarrow> (\<exists>n. n div 64 = j \<and> bm_test bm n)"
  proof
    assume "\<exists>k. bit (bm ! j) k"
    then obtain k where k: "bit (bm ! j) k" by blast
    then have "k < 64" using bit_imp_le_length by fastforce
    with k assms have "(64 * j + k) div 64 = j \<and> bm_test bm (64 * j + k)"
      by (simp add: bm_test_def)
    then show "\<exists>n. n div 64 = j \<and> bm_test bm n" by blast
  qed (auto simp: bm_test_def)
  then show ?thesis using word_nonzero_iff by blast
qed

section \<open>One round of the loops\<close>

definition chunk :: "index_t \<Rightarrow> count_t \<Rightarrow> count_t" where
  "chunk c r = min r (64 - c mod 64)"

lemma unat_chunk: "unat (chunk c r) = min (unat r) (64 - unat c mod 64)"
  by (simp add: chunk_def unat_min unat_sub_fits)

lemma chunk_round:
  assumes "0 < unat r" "unat c + unat r \<le> bm_bits bm" "bm_bits bm < 2 ^ 32"
  shows "in_word bm c (chunk c r)" "unat (c + chunk c r) = unat c + unat (chunk c r)"
    "unat (r - chunk c r) = unat r - unat (chunk c r)" "unat (chunk c r) \<le> unat r"
    "0 < unat (chunk c r)"
    "unat (r - chunk c r) = 0 \<or> (c + chunk c r) mod 64 = 0"
proof -
  show le: "unat (chunk c r) \<le> unat r" and pos: "0 < unat (chunk c r)"
    using assms(1) by (auto simp: unat_chunk)
  show "in_word bm c (chunk c r)"
    using assms by (auto simp: in_word_def unat_chunk)
  show sum: "unat (c + chunk c r) = unat c + unat (chunk c r)"
    using assms le by (intro unat_add_fits) simp
  show diff: "unat (r - chunk c r) = unat r - unat (chunk c r)"
    using le by (rule unat_sub_fits)
  show "unat (r - chunk c r) = 0 \<or> (c + chunk c r) mod 64 = 0"
  proof (cases "unat r \<le> 64 - unat c mod 64")
    case True
    then show ?thesis by (simp add: diff unat_chunk)
  next
    case False
    define q where "q = unat c div 64"
    define m where "m = unat c mod 64"
    have "unat c = 64 * q + m" "m < 64" by (simp_all add: q_def m_def)
    moreover have "unat (chunk c r) = 64 - m" using False by (simp add: unat_chunk m_def)
    ultimately have "unat c + unat (chunk c r) = 64 * (q + 1)" by simp
    then have "(unat c + unat (chunk c r)) mod 64 = 0"
      by (simp only: mod_mult_self1_is_0)
    then have "unat ((c + chunk c r) mod 64) = 0" by (simp only: unat_mod_64 sum)
    then have "(c + chunk c r) mod 64 = 0" by (simp only: unat_eq_0)
    then show ?thesis by simp
  qed
qed

lemma in_word_div:
  assumes "in_word bm c w" "unat c \<le> n" "n < unat c + unat w"
  shows "n div 64 = unat c div 64"
  using assms div_mod_offset [of "unat c" 64 "n - unat c"] by (auto simp: in_word_def)

text \<open>The word read by \<open>bitmap_extract\<close> tells whether a chunk is all clear or all set.\<close>

lemma extract_all_clear:
  assumes "\<And>k. bit v k \<longleftrightarrow> k < w \<and> bm_test bm (b + k)"
  shows "v = (0 :: u64) \<longleftrightarrow> (\<forall>n. b \<le> n \<and> n < b + w \<longrightarrow> \<not> bm_test bm n)"
proof
  assume "v = 0"
  then show "\<forall>n. b \<le> n \<and> n < b + w \<longrightarrow> \<not> bm_test bm n"
    using assms by (auto dest!: spec [of _ "_ - b"]) (metis add_diff_inverse_nat
      add_less_cancel_left bit_0_eq bot_apply bot_bool_def linorder_not_less)
next
  assume *: "\<forall>n. b \<le> n \<and> n < b + w \<longrightarrow> \<not> bm_test bm n"
  then have "\<not> bit v k" for k using assms [of k] by simp
  then show "v = 0" using word_nonzero_iff by blast
qed

lemma extract_all_set:
  assumes "\<And>k. bit v k \<longleftrightarrow> k < w \<and> bm_test bm (b + k)" "w \<le> 64"
  shows "v = (mask w :: u64) \<longleftrightarrow> (\<forall>n. b \<le> n \<and> n < b + w \<longrightarrow> bm_test bm n)"
proof -
  have "v = mask w \<longleftrightarrow> (\<forall>k < w. bm_test bm (b + k))"
    using assms(1) order.strict_trans2 [OF _ assms(2)] by (auto simp: bit_eq_iff bit_simps)
  also have "\<dots> \<longleftrightarrow> (\<forall>n. b \<le> n \<and> n < b + w \<longrightarrow> bm_test bm n)"
    by (metis add_diff_inverse_nat add_less_cancel_left le_add1 linorder_not_less)
  finally show ?thesis .
qed

section \<open>update\_mmap\_range\<close>

lemma linked_set_chunk:
  assumes "linked node" "in_word (nd_free_pages node) c w"
    "length free = length (nd_free_pages node)" "length avail = length (nd_avail_blocks node)"
    "\<And>n. bm_test free n \<longleftrightarrow>
       (if unat c \<le> n \<and> n < unat c + unat w then b else page_free node n)"
    "\<And>j. bm_test avail j \<longleftrightarrow>
       (if j = unat c div 64 then \<exists>n. n div 64 = j \<and> bm_test free n
        else bm_test (nd_avail_blocks node) j)"
  shows "flipped b (unat c) (unat c + unat w) node
     (node\<lparr>nd_free_pages := free, nd_avail_blocks := avail\<rparr>)"
proof -
  have "(\<exists>n. n div 64 = j \<and> bm_test free n) \<longleftrightarrow> (\<exists>n. n div 64 = j \<and> page_free node n)"
    if "j \<noteq> unat c div 64" for j
    using in_word_div [OF assms(2)] that assms(5) by metis
  then show ?thesis
    using assms by (auto simp: flipped_def linked_def bm_bits_def)
qed

lemma update_range_loop_set:
  assumes "0 < r" "c = s \<or> c mod 64 = 0"
    "bitmap_extract (nd_free_pages node) c (chunk c r) = Done 0"
    "bitmap_insert (nd_free_pages node) c (chunk c r) (mask (unat (chunk c r))) = Done free"
    "bitmap_set (nd_avail_blocks node) (c div 64) = Done avail"
  shows "update_range_loop s True node c r = update_range_loop s True
     (node\<lparr>nd_free_pages := free, nd_avail_blocks := avail\<rparr>) (c + chunk c r) (r - chunk c r)"
  using assms unfolding chunk_def
  by (subst update_range_loop.simps) (simp add: Let_def util_mask_safe_eq)

lemma update_range_loop_clear:
  assumes "0 < r" "c = s \<or> c mod 64 = 0"
    "bitmap_isset (nd_avail_blocks node) (c div 64) = Done True"
    "bitmap_extract (nd_free_pages node) c (chunk c r) = Done (mask (unat (chunk c r)))"
    "bitmap_insert (nd_free_pages node) c (chunk c r) 0 = Done free"
    "unat (c div 64) < length free"
    "(if free ! unat (c div 64) = 0 then bitmap_clear (nd_avail_blocks node) (c div 64)
      else Done (nd_avail_blocks node)) = Done avail"
  shows "update_range_loop s False node c r = update_range_loop s False
     (node\<lparr>nd_free_pages := free, nd_avail_blocks := avail\<rparr>) (c + chunk c r) (r - chunk c r)"
  using assms unfolding chunk_def
  by (subst update_range_loop.simps) (simp add: Let_def util_mask_safe_eq)

text \<open>One round of the loop on a chunk whose pages all have the value the round expects.\<close>

text \<open>What a round of the update reads from and writes to the word of its chunk.\<close>

lemma chunk_of_pages:
  assumes "linked node" "0 < unat r" "unat c + unat r \<le> bm_bits (nd_free_pages node)"
    "\<And>n. unat c \<le> n \<Longrightarrow> n < unat c + unat (chunk c r) \<Longrightarrow> page_free node n = (\<not> b)"
  obtains free where "bitmap_extract (nd_free_pages node) c (chunk c r) = Done (if b then 0 else mask (unat (chunk c r)))"
    "bitmap_insert (nd_free_pages node) c (chunk c r) (if b then mask (unat (chunk c r)) else 0) = Done free"
    "length free = length (nd_free_pages node)"
    "\<And>n. bm_test free n \<longleftrightarrow> (if unat c \<le> n \<and> n < unat c + unat (chunk c r) then b else page_free node n)"
    "in_word (nd_free_pages node) c (chunk c r)" "unat (c div 64) < length (nd_free_pages node)"
    "unat (c div 64) < bm_bits (nd_avail_blocks node)" "0 < unat (chunk c r)"
proof -
  let ?f = "nd_free_pages node" and ?w = "chunk c r"
  have small: "bm_bits ?f < 2 ^ 32" using assms(1) by (simp add: linked_def)
  note rnd = chunk_round [OF assms(2,3) small]
  have w64: "unat ?w \<le> 64" by (simp add: unat_chunk)
  obtain v where v: "bitmap_extract ?f c ?w = Done v" "\<And>k. bit v k \<longleftrightarrow> k < unat ?w \<and> bm_test ?f (unat c + k)"
    using bitmap_extract_eq [OF rnd(1)] by blast
  have v': "v = (if b then 0 else mask (unat ?w))"
    using extract_all_clear [OF v(2)] extract_all_set [OF v(2) w64] assms(4) by auto
  obtain free where free: "bitmap_insert ?f c ?w (if b then mask (unat ?w) else 0) = Done free"
    "length free = length ?f"
    "\<And>n. bm_test free n \<longleftrightarrow> (if unat c \<le> n \<and> n < unat c + unat ?w
       then bit (if b then mask (unat ?w) else 0 :: u64) (n - unat c) else bm_test ?f n)"
    using bitmap_insert_eq [OF rnd(1), of "if b then mask (unat ?w) else 0"] by blast
  have test: "bm_test free n \<longleftrightarrow> (if unat c \<le> n \<and> n < unat c + unat ?w then b else page_free node n)" for n
    using free(3) [of n] w64 by (auto simp: bit_simps)
  have word: "unat (c div 64) < length ?f" using in_word_asserts(4) [OF rnd(1)] by (simp add: unat_div)
  then have block: "unat (c div 64) < bm_bits (nd_avail_blocks node)"
    using assms(1) by (simp add: linked_def)
  show thesis by (rule that [OF v(1) [unfolded v'] free(1,2) test rnd(1) word block rnd(5)])
qed

text \<open>The block stays available until its last page is taken.\<close>

lemma clear_block:
  assumes "unat (c div 64) < bm_bits a" "bm_test a (unat (c div 64))"
  obtains avail where
    "(if full then bitmap_clear a (c div 64) else Done a) = Done avail" "length avail = length a"
    "\<And>n. bm_test avail n \<longleftrightarrow> (if n = unat (c div 64) then \<not> full else bm_test a n)"
proof (cases full)
  case True
  obtain bm' where "bitmap_clear a (c div 64) = Done bm'" "length bm' = length a"
    "\<And>n. bm_test bm' n \<longleftrightarrow> n \<noteq> unat (c div 64) \<and> bm_test a n"
    using bitmap_clear_eq [OF assms(1)] by blast
  with True show thesis by (intro that [of bm']) simp_all
next
  case False
  with assms(2) show thesis by (intro that [of a]) simp_all
qed

lemma update_range_round:
  assumes "linked node" "0 < unat r" "unat c + unat r \<le> bm_bits (nd_free_pages node)"
    "c = s \<or> c mod 64 = 0"
    "\<And>n. unat c \<le> n \<Longrightarrow> n < unat c + unat (chunk c r) \<Longrightarrow> page_free node n = (\<not> b)"
  obtains node' where
    "update_range_loop s b node c r = update_range_loop s b node' (c + chunk c r) (r - chunk c r)"
    "flipped b (unat c) (unat c + unat (chunk c r)) node node'"
proof -
  let ?f = "nd_free_pages node" and ?a = "nd_avail_blocks node" and ?w = "chunk c r"
  have r: "0 < r" using assms(2) by (simp add: word_less_nat_alt)
  have jj: "unat (c div 64) = unat c div 64" by (simp add: unat_div)
  obtain free where ch: "bitmap_extract ?f c ?w = Done (if b then 0 else mask (unat ?w))"
    "bitmap_insert ?f c ?w (if b then mask (unat ?w) else 0) = Done free" "length free = length ?f"
    "\<And>n. bm_test free n \<longleftrightarrow> (if unat c \<le> n \<and> n < unat c + unat ?w then b else page_free node n)"
    "in_word ?f c ?w" "unat (c div 64) < length ?f" "unat (c div 64) < bm_bits ?a" "0 < unat ?w"
    by (rule chunk_of_pages [OF assms(1-3), of b]) ((rule assms(5); assumption), (rule that; assumption))
  show thesis
  proof (cases b)
    case True
    obtain avail where avail: "bitmap_set ?a (c div 64) = Done avail" "length avail = length ?a"
      "\<And>n. bm_test avail n \<longleftrightarrow> n = unat (c div 64) \<or> bm_test ?a n"
      using bitmap_set_eq [OF ch(7)] by blast
    have "update_range_loop s b node c r = update_range_loop s b
        (node\<lparr>nd_free_pages := free, nd_avail_blocks := avail\<rparr>) (c + ?w) (r - ?w)"
      using update_range_loop_set [OF r assms(4)] True ch(1,2) avail(1) by simp
    moreover have "bm_test free (unat c) \<and> unat c div 64 = unat (c div 64)"
      using ch(4) [of "unat c"] ch(8) True by (simp add: unat_div)
    then have "flipped b (unat c) (unat c + unat ?w) node
        (node\<lparr>nd_free_pages := free, nd_avail_blocks := avail\<rparr>)"
      using avail by (intro linked_set_chunk [OF assms(1) ch(5,3) avail(2) ch(4)]) (auto simp: unat_div)
    ultimately show thesis by (rule that)
  next
    case False
    have isset: "bm_test ?a (unat (c div 64))"
      using assms(1) ch(6) assms(5) [of "unat c"] ch(8) False jj unfolding linked_def by force
    obtain avail where avail: "(if free ! (unat c div 64) = 0 then bitmap_clear ?a (c div 64) else Done ?a) = Done avail"
      "length avail = length ?a"
      "\<And>n. bm_test avail n \<longleftrightarrow> (if n = unat (c div 64) then free ! (unat c div 64) \<noteq> 0 else bm_test ?a n)"
      by (rule clear_block [OF ch(7) isset, of "free ! (unat c div 64) = 0"]) (rule that; assumption)
    have "update_range_loop s b node c r = update_range_loop s b
        (node\<lparr>nd_free_pages := free, nd_avail_blocks := avail\<rparr>) (c + ?w) (r - ?w)"
      unfolding False [THEN eq_False [THEN iffD2]]
    proof (rule update_range_loop_clear [OF r assms(4)])
      show "bitmap_isset ?a (c div 64) = Done True" using bitmap_isset_eq [OF ch(7)] isset by simp
      show "unat (c div 64) < length free" using ch(3,6) by simp
    qed (use False ch(1,2) avail(1) jj in simp_all)
    moreover have "flipped b (unat c) (unat c + unat ?w) node
        (node\<lparr>nd_free_pages := free, nd_avail_blocks := avail\<rparr>)"
      using avail(3) bm_word_zero_iff [of "unat c div 64" free] ch(3,6) jj
      by (intro linked_set_chunk [OF assms(1) ch(5,3) avail(2) ch(4)]) auto
    ultimately show thesis by (rule that)
  qed
qed

text \<open>A chunk with a page in the wrong state stops the loop in an assertion.\<close>

lemma update_range_bad_chunk:
  assumes "linked node" "0 < unat r" "unat c + unat r \<le> bm_bits (nd_free_pages node)"
    "unat c \<le> n" "n < unat c + unat (chunk c r)" "page_free node n = b"
  shows "update_range_loop s b node c r = Fault AssertionFailed"
proof -
  let ?f = "nd_free_pages node" and ?a = "nd_avail_blocks node" and ?w = "chunk c r"
  have small: "bm_bits ?f < 2 ^ 32" using assms(1) by (simp add: linked_def)
  note rnd = chunk_round [OF assms(2,3) small]
  have w64: "unat ?w \<le> 64" by (simp add: unat_chunk)
  have r: "0 < r" using assms(2) by (simp add: word_less_nat_alt)
  obtain v where v: "bitmap_extract ?f c ?w = Done v"
    "\<And>k. bit v k \<longleftrightarrow> k < unat ?w \<and> bm_test ?f (unat c + k)"
    using bitmap_extract_eq [OF rnd(1)] by blast
  have "unat (c div 64) < bm_bits ?a"
    using in_word_asserts(4) [OF rnd(1)] assms(1) by (simp add: linked_def unat_div)
  note isset = bitmap_isset_eq [OF this]
  show ?thesis
  proof (cases b)
    case True
    have "v \<noteq> 0" using extract_all_clear [OF v(2)] assms(4-6) True by blast
    then show ?thesis
      using r True v(1) unfolding chunk_def
      by (subst update_range_loop.simps) (simp add: Let_def)
  next
    case False
    have "v \<noteq> mask (unat ?w)" using extract_all_set [OF v(2) w64] assms(4-6) False by blast
    then show ?thesis
      using r False v(1) isset unfolding chunk_def
      by (subst update_range_loop.simps) (simp add: Let_def util_mask_safe_eq)
  qed
qed

lemma update_range_loop_0: "update_range_loop s b node c 0 = Done (node, c)"
  by (subst update_range_loop.simps) simp

lemma update_range_loop_ok:
  assumes "linked node" "unat c + unat r \<le> bm_bits (nd_free_pages node)"
    "unat r = 0 \<or> c = s \<or> c mod 64 = 0"
    "\<And>n. unat c \<le> n \<Longrightarrow> n < unat c + unat r \<Longrightarrow> page_free node n = (\<not> b)"
  shows "\<exists>node'. update_range_loop s b node c r = Done (node', c + r) \<and>
    flipped b (unat c) (unat c + unat r) node node'"
  using assms
proof (induction "unat r" arbitrary: node c r rule: less_induct)
  case less
  show ?case
  proof (cases "unat r = 0")
    case True
    then have "r = 0" by (simp add: unat_eq_0)
    then show ?thesis
      using less.prems(1) by (simp add: update_range_loop_0 flipped_refl)
  next
    case False
    have small: "bm_bits (nd_free_pages node) < 2 ^ 32"
      using less.prems(1) by (simp add: linked_def)
    note rnd = chunk_round [OF _ less.prems(2) small]
    let ?c = "c + chunk c r" and ?r = "r - chunk c r"
    have w: "unat ?c = unat c + unat (chunk c r)" "unat ?r = unat r - unat (chunk c r)"
      "unat (chunk c r) \<le> unat r" "0 < unat (chunk c r)"
      using rnd False by simp_all
    obtain node1 where node1: "update_range_loop s b node c r = update_range_loop s b node1 ?c ?r"
      "flipped b (unat c) (unat ?c) node node1"
      using update_range_round [OF less.prems(1) _ less.prems(2), of s b] False less.prems(3,4) w
      by auto
    have "\<exists>node'. update_range_loop s b node1 ?c ?r = Done (node', ?c + ?r) \<and>
        flipped b (unat ?c) (unat ?c + unat ?r) node1 node'"
      using less.prems w rnd(6) False node1(2)
      by (intro less.hyps) (auto simp: flipped_def bm_bits_def)
    then show ?thesis
      using node1 flipped_trans [OF node1(2)] w by auto
  qed
qed

lemma update_range_loop_fault:
  assumes "linked node" "unat c + unat r \<le> bm_bits (nd_free_pages node)"
    "unat r = 0 \<or> c = s \<or> c mod 64 = 0"
    "unat c \<le> n" "n < unat c + unat r" "page_free node n = b"
  shows "update_range_loop s b node c r = Fault AssertionFailed"
  using assms
proof (induction "unat r" arbitrary: node c r rule: less_induct)
  case less
  have pos: "0 < unat r" using less.prems(4,5) by simp
  have small: "bm_bits (nd_free_pages node) < 2 ^ 32"
    using less.prems(1) by (simp add: linked_def)
  note rnd = chunk_round [OF pos less.prems(2) small]
  let ?c = "c + chunk c r" and ?r = "r - chunk c r"
  show ?case
  proof (cases "\<exists>m. unat c \<le> m \<and> m < unat c + unat (chunk c r) \<and> page_free node m = b")
    case True
    then show ?thesis using update_range_bad_chunk [OF less.prems(1) pos less.prems(2)] by blast
  next
    case False
    then have ok: "page_free node m = (\<not> b)"
      if "unat c \<le> m" "m < unat c + unat (chunk c r)" for m using that by blast
    obtain node1 where node1: "update_range_loop s b node c r = update_range_loop s b node1 ?c ?r"
      "flipped b (unat c) (unat ?c) node node1"
      using update_range_round [OF less.prems(1) pos less.prems(2), of s b] less.prems(3) pos ok rnd(2)
      by auto
    have "\<not> n < unat ?c" using ok less.prems(4,6) rnd(2) by auto
    then have "update_range_loop s b node1 ?c ?r = Fault AssertionFailed"
      using less.prems rnd node1(2)
      by (intro less.hyps) (auto simp: flipped_def bm_bits_def)
    with node1(1) show ?thesis by simp
  qed
qed

lemma update_mmap_range_ok:
  assumes "linked node" "unat s + unat num \<le> bm_bits (nd_free_pages node)"
    "\<And>n. unat s \<le> n \<Longrightarrow> n < unat s + unat num \<Longrightarrow> page_free node n = (\<not> b)"
  obtains node' where "update_mmap_range node s num b = Done node'"
    "flipped b (unat s) (unat s + unat num) node node'"
  using update_range_loop_ok [OF assms(1,2), of s b] assms(3)
  by (auto simp: update_mmap_range_def)

lemma update_mmap_range_fault:
  assumes "linked node" "unat s + unat num \<le> bm_bits (nd_free_pages node)"
    "unat s \<le> n" "n < unat s + unat num" "page_free node n = b"
  shows "update_mmap_range node s num b = Fault AssertionFailed"
  using update_range_loop_fault [OF assms(1,2) _ assms(3-5), of s]
  by (simp add: update_mmap_range_def)

section \<open>mmap\_range\_is\_free\<close>

text \<open>
  The verdict is right, and where it is negative the search may go on after an allocated
  page \<open>a\<close> of the range: no range that starts at or before \<open>a\<close> can be free.
\<close>

definition scan_result :: "mmap_node \<Rightarrow> nat \<Rightarrow> nat \<Rightarrow> bool \<Rightarrow> index_t \<Rightarrow> bool" where
  "scan_result node lo hi ok nb \<longleftrightarrow>
     (ok \<longleftrightarrow> (\<forall>n. lo \<le> n \<and> n < hi \<longrightarrow> page_free node n)) \<and>
     (\<not> ok \<longrightarrow> (\<exists>a. lo \<le> a \<and> a < hi \<and> \<not> page_free node a \<and> unat nb = Suc a))"

lemma scan_result_extend:
  assumes "scan_result node mid hi ok nb" "lo \<le> mid"
    "\<And>n. lo \<le> n \<Longrightarrow> n < mid \<Longrightarrow> page_free node n"
  shows "scan_result node lo hi ok nb"
proof -
  have "(\<forall>n. lo \<le> n \<and> n < hi \<longrightarrow> page_free node n) \<longleftrightarrow>
      (\<forall>n. mid \<le> n \<and> n < hi \<longrightarrow> page_free node n)"
    using assms(2,3) by (meson le_trans not_le_imp_less)
  with assms(1,2) show ?thesis
    unfolding scan_result_def by (metis le_trans)
qed

text \<open>A round over a chunk: it goes on when all pages are free, and else names a page in use.\<close>

lemma range_is_free_chunk:
  assumes "linked node" "0 < unat r" "unat c + unat r \<le> bm_bits (nd_free_pages node)" "c = s \<or> c mod 64 = 0"
  obtains (all) "\<And>nb. range_is_free_loop s node nb c r = range_is_free_loop s node nb (c + chunk c r) (r - chunk c r)"
      "\<And>n. unat c \<le> n \<Longrightarrow> n < unat c + unat (chunk c r) \<Longrightarrow> page_free node n"
    | (hit) m where "\<And>nb. range_is_free_loop s node nb c r = Done (False, c + of_nat m + 1)"
      "m < unat (chunk c r)" "m < 64" "\<not> page_free node (unat c + m)"
proof -
  let ?f = "nd_free_pages node" and ?w = "chunk c r"
  have r: "0 < r" using assms(2) by (simp add: word_less_nat_alt)
  have small: "bm_bits ?f < 2 ^ 32" using assms(1) by (simp add: linked_def)
  note rnd = chunk_round [OF assms(2,3) small]
  have w64: "unat ?w \<le> 64" by (simp add: unat_chunk)
  obtain v where v: "bitmap_extract ?f c ?w = Done v"
    "\<And>k. bit v k \<longleftrightarrow> k < unat ?w \<and> bm_test ?f (unat c + k)"
    using bitmap_extract_eq [OF rnd(1)] by blast
  show thesis
  proof (cases "v = mask (unat ?w)")
    case True
    show thesis
    proof (rule all)
      show "range_is_free_loop s node nb c r = range_is_free_loop s node nb (c + ?w) (r - ?w)" for nb
        using v(1) r assms(2,4) True unfolding chunk_def
        by (subst range_is_free_loop.simps) (auto simp: Let_def util_mask_safe_eq)
    qed (use extract_all_set [OF v(2) w64] True in simp)
  next
    case False
    let ?x = "NOT v AND mask (unat ?w)"
    have bits: "bit ?x k \<longleftrightarrow> k < unat ?w \<and> \<not> page_free node (unat c + k)" for k
      using v(2) [of k] w64 by (simp add: bit_simps) auto
    have "?x \<noteq> 0"
    proof
      assume "?x = 0"
      then have "\<And>k. bit v k \<longleftrightarrow> k < unat ?w" using bits v(2) by (metis bit_0_eq bot_apply bot_bool_def)
      then have "v = mask (unat ?w)" using w64 by (simp add: bit_eq_iff bit_simps)
      with False show False by simp
    qed
    then obtain m where m: "compiler_msb ?x = Done (of_nat m)" "bit ?x m" "m < 64"
      using compiler_msb_eq by blast
    have "range_is_free_loop s node nb c r = Done (False, c + of_nat m + 1)" for nb
      using v(1) r assms(2,4) False m(1) \<open>?x \<noteq> 0\<close> unfolding chunk_def
      by (subst range_is_free_loop.simps) (auto simp: Let_def util_mask_safe_eq)
    then show thesis using bits m(2,3) by (intro hit) auto
  qed
qed

lemma range_is_free_loop_eq:
  assumes "linked node" "unat c + unat r \<le> bm_bits (nd_free_pages node)"
    "unat r = 0 \<or> c = s \<or> c mod 64 = 0"
  shows "\<exists>ok nb'. range_is_free_loop s node nb c r = Done (ok, nb') \<and>
    scan_result node (unat c) (unat c + unat r) ok nb'"
  using assms(2,3)
proof (induction "unat r" arbitrary: c r rule: less_induct)
  case less
  show ?case
  proof (cases "unat r = 0")
    case True
    then have "r = 0" by (simp add: unat_eq_0)
    then show ?thesis by (subst range_is_free_loop.simps) (auto simp: scan_result_def)
  next
    case False
    then have pos: "0 < unat r" and al: "c = s \<or> c mod 64 = 0" using less.prems(2) by auto
    have small: "bm_bits (nd_free_pages node) < 2 ^ 32" using assms(1) by (simp add: linked_def)
    note rnd = chunk_round [OF pos less.prems(1) small]
    let ?c = "c + chunk c r" and ?r = "r - chunk c r"
    show ?thesis
    proof (rule range_is_free_chunk [OF assms(1) pos less.prems(1) al], goal_cases)
      case all: 1
      have "\<exists>ok nb'. range_is_free_loop s node nb ?c ?r = Done (ok, nb') \<and>
          scan_result node (unat ?c) (unat ?c + unat ?r) ok nb'"
        using rnd(2-6) less.prems(1) by (intro less.hyps) auto
      then obtain ok nb' where rest: "range_is_free_loop s node nb ?c ?r = Done (ok, nb')"
        "scan_result node (unat ?c) (unat ?c + unat ?r) ok nb'"
        by blast
      have "unat ?c + unat ?r = unat c + unat r" using rnd by simp
      moreover have "scan_result node (unat c) (unat ?c + unat ?r) ok nb'"
        by (rule scan_result_extend [OF rest(2)]) (use all(2) rnd(2) in simp_all)
      ultimately have "scan_result node (unat c) (unat c + unat r) ok nb'" by simp
      then show ?thesis using rest(1) all(1) by auto
    next
      case hit: (2 m)
      have "unat c + Suc m < 2 ^ 32" using hit(2) rnd(4) less.prems(1) small by simp
      then have "unat (c + of_nat m + 1) = Suc (unat c + m)" using hit(3) by (simp add: unat_word_ariths)
      moreover have "unat c + m < unat c + unat r" using hit(2) rnd(4) by simp
      ultimately have "scan_result node (unat c) (unat c + unat r) False (c + of_nat m + 1)"
        using hit(4) unfolding scan_result_def by (metis le_add1)
      then show ?thesis using hit(1) by blast
    qed
  qed
qed

lemma mmap_range_is_free_eq:
  assumes "linked node" "unat s + unat num \<le> bm_bits (nd_free_pages node)"
  obtains (free) nb' where "mmap_range_is_free node s num nb = Done (True, nb')"
      "\<forall>n. unat s \<le> n \<and> n < unat s + unat num \<longrightarrow> page_free node n"
  | (used) nb' a where "mmap_range_is_free node s num nb = Done (False, nb')"
      "unat s \<le> a" "a < unat s + unat num" "\<not> page_free node a" "unat nb' = Suc a"
proof -
  obtain ok nb' where eq: "mmap_range_is_free node s num nb = Done (ok, nb')"
    and scan: "scan_result node (unat s) (unat s + unat num) ok nb'"
    using range_is_free_loop_eq [OF assms, of s nb] by (auto simp: mmap_range_is_free_def)
  show thesis
  proof (cases ok)
    case True
    with eq scan show thesis by (intro free) (simp_all add: scan_result_def)
  next
    case False
    with scan obtain a where "unat s \<le> a" "a < unat s + unat num" "\<not> page_free node a" "unat nb' = Suc a"
      by (auto simp: scan_result_def)
    with eq False show thesis by (intro used) simp_all
  qed
qed

section \<open>search\_free\_mmap\_range\<close>

definition node_pages :: "mmap_node \<Rightarrow> nat" where
  "node_pages node = unat (nd_size node) div 4096"

definition run_free :: "mmap_node \<Rightarrow> nat \<Rightarrow> nat \<Rightarrow> bool" where
  "run_free node num s \<longleftrightarrow> (\<forall>n. s \<le> n \<and> n < s + num \<longrightarrow> page_free node n)"

lemma run_free_code [code]:
  "run_free node num s \<longleftrightarrow> list_all (page_free node) [s..<s + num]"
  by (auto simp: run_free_def list_all_iff)

text \<open>The specification of the search: the lowest start of a run of \<open>num\<close> free pages.\<close>

definition first_fit :: "mmap_node \<Rightarrow> nat \<Rightarrow> nat option" where
  "first_fit node num =
     (if num \<le> node_pages node
      then find (run_free node num) [0..<Suc (node_pages node - num)] else None)"

text \<open>The three searches of a round: for a block with free pages, for a free page, for the whole range.\<close>

lemma run_needs_page: "0 < k \<Longrightarrow> \<not> page_free node n \<Longrightarrow> \<not> run_free node k n"
  by (auto simp: run_free_def)

lemma search_block:
  fixes eb blk c :: u32
  assumes "linked node" "0 < k" "unat eb < bm_bits (nd_free_pages node)" "unat blk = unat eb div 64" "unat c \<le> unat eb"
  obtains (none) "bitmap_ffs (nd_avail_blocks node) (c div 64) blk = Done None"
      "find (run_free node k) [unat c..<Suc (unat eb)] = None"
    | (block) nb where "bitmap_ffs (nd_avail_blocks node) (c div 64) blk = Done (Some nb)"
      "unat c \<le> unat (max c (nb * 64))" "unat (max c (nb * 64)) \<le> unat eb"
      "find (run_free node k) [unat c..<Suc (unat eb)] = find (run_free node k) [unat (max c (nb * 64))..<Suc (unat eb)]"
proof -
  let ?f = "nd_free_pages node" and ?a = "nd_avail_blocks node"
  have small: "bm_bits ?a < 2 ^ 32" "length ?f \<le> bm_bits ?a"
    using assms(1) by (simp_all add: linked_def)
  have blk: "unat blk < length ?f" using assms(3,4) by (simp add: bm_bits_iff)
  have no_run: "\<not> run_free node k n" if "\<not> bm_test ?a (n div 64)" "n div 64 \<le> unat blk" for n
    using that blk assms(1) run_needs_page [OF assms(2)] by (auto simp: linked_def)
  have cblk: "unat (c div 64) \<le> unat blk"
    using assms(4,5) by (simp add: unat_div div_le_mono)
  have "unat blk < bm_bits ?a" using blk small(2) by simp
  note ffs = bitmap_ffs_eq [OF cblk this small(1)]
  show thesis
  proof (cases "bm_first ?a (c div 64) blk True")
    case None
    have "\<not> run_free node k n" if "unat c \<le> n" "n < Suc (unat eb)" for n
    proof (rule no_run)
      have "unat (c div 64) \<le> n div 64" using that by (simp add: unat_div div_le_mono)
      moreover show "n div 64 \<le> unat blk" using that assms(4) by (simp add: div_le_mono)
      ultimately show "\<not> bm_test ?a (n div 64)" using bm_first_NoneD [OF None] by auto
    qed
    then show thesis using None ffs by (intro none find_upt_None) simp_all
  next
    case (Some nb)
    note nb = bm_first_SomeD [OF Some]
    have "64 * unat nb \<le> unat eb" using nb(2) assms(4) by simp
    moreover from this have "unat (nb * 64) = 64 * unat nb"
      using unat_lt32 [of eb] by (simp add: unat_word_ariths)
    ultimately have c': "unat (max c (nb * 64)) = max (unat c) (64 * unat nb)" "64 * unat nb \<le> unat eb"
      by (simp_all add: unat_max)
    show thesis
    proof (rule block)
      show "find (run_free node k) [unat c..<Suc (unat eb)] = find (run_free node k) [unat (max c (nb * 64))..<Suc (unat eb)]"
      proof (rule find_upt_skip)
        fix n assume n: "unat c \<le> n" "n < unat (max c (nb * 64))"
        then have "n < unat nb * 64" unfolding c'(1) by simp
        then have "n div 64 < unat nb" by (rule less_mult_imp_div_less)
        moreover have "unat (c div 64) \<le> n div 64" using n(1) by (simp add: unat_div div_le_mono)
        ultimately show "\<not> run_free node k n" using nb(2,4) by (intro no_run) auto
      qed (simp add: c'(1))
    qed (use Some ffs c' assms(5) in \<open>simp_all del: upt_Suc\<close>)
  qed
qed

lemma search_page:
  fixes eb c :: u32
  assumes "linked node" "0 < k" "unat eb < bm_bits (nd_free_pages node)" "unat c \<le> unat eb"
  obtains (none) "bitmap_ffs (nd_free_pages node) c eb = Done None"
      "find (run_free node k) [unat c..<Suc (unat eb)] = None"
    | (page) nx where "bitmap_ffs (nd_free_pages node) c eb = Done (Some nx)" "unat c \<le> unat nx" "unat nx \<le> unat eb"
      "find (run_free node k) [unat c..<Suc (unat eb)] = find (run_free node k) [unat nx..<Suc (unat eb)]"
proof (cases "bm_first (nd_free_pages node) c eb True")
  case None
  have "\<not> run_free node k n" if "unat c \<le> n" "n < Suc (unat eb)" for n
    using that bm_first_NoneD [OF None, of n] by (intro run_needs_page [OF assms(2)]) simp
  then show thesis using None bitmap_ffs_eq [OF assms(4,3)] assms(1)
    by (intro none find_upt_None) (simp_all add: linked_def)
next
  case (Some nx)
  note nx = bm_first_SomeD [OF Some]
  have "find (run_free node k) [unat c..<Suc (unat eb)] = find (run_free node k) [unat nx..<Suc (unat eb)]"
    using nx(1,4) run_needs_page [OF assms(2)] by (intro find_upt_skip) auto
  then show thesis using Some bitmap_ffs_eq [OF assms(4,3)] assms(1) nx(1,2)
    by (intro page) (simp_all add: linked_def del: upt_Suc)
qed

lemma search_range:
  fixes eb num nx c :: u32
  assumes "linked node" "unat eb + unat num \<le> bm_bits (nd_free_pages node)" "unat nx \<le> unat eb"
  obtains (free) nb where "mmap_range_is_free node nx num c = Done (True, nb)"
      "find (run_free node (unat num)) [unat nx..<Suc (unat eb)] = Some (unat nx)"
    | (used) nb where "mmap_range_is_free node nx num c = Done (False, nb)" "unat nx < unat nb"
      "find (run_free node (unat num)) [unat nx..<Suc (unat eb)] = find (run_free node (unat num)) [unat nb..<Suc (unat eb)]"
proof -
  have "unat nx + unat num \<le> bm_bits (nd_free_pages node)" using assms(2,3) by simp
  then show thesis
  proof (rule mmap_range_is_free_eq [OF assms(1), of nx num c], goal_cases)
    case (1 nb)
    then show thesis using assms(3) by (intro free find_upt_Some) (simp_all add: run_free_def)
  next
    case (2 nb a)
    have "\<not> run_free node (unat num) n" if "unat nx \<le> n" "n < Suc a" for n
    proof -
      have "n \<le> a" "a < n + unat num" using that 2(3) by simp_all
      with 2(4) show ?thesis unfolding run_free_def by blast
    qed
    then show thesis using 2 by (intro used [of nb] find_upt_skip) (simp_all del: upt_Suc)
  qed
qed

lemma search_loop_eq:
  assumes "linked node" "0 < unat num" "unat eb + unat num \<le> bm_bits (nd_free_pages node)"
    "unat blk = unat eb div 64"
  shows "unat c \<le> unat eb \<Longrightarrow> unat eb - unat c < fuel \<Longrightarrow>
    search_loop fuel node num eb blk c =
      Done (map_option of_nat (find (run_free node (unat num)) [unat c..<Suc (unat eb)]))"
proof (induction fuel arbitrary: c)
  case (Suc fuel)
  have eb: "unat eb < bm_bits (nd_free_pages node)" using assms(2,3) by simp
  show ?case
  proof (rule search_block [OF assms(1,2) eb assms(4) Suc.prems(1)], goal_cases)
    case none: 1
    then show ?thesis by (simp add: Let_def del: upt_Suc)
  next
    case block: (2 nb)
    show ?thesis
    proof (rule search_page [OF assms(1,2) eb block(3)], goal_cases)
      case none: 1
      then show ?thesis using block by (simp add: Let_def del: upt_Suc)
    next
      case page: (2 nx)
      show ?thesis
      proof (rule search_range [OF assms(1,3) page(3), of "max c (nb * 64)"], goal_cases)
        case free: (1 nb')
        then show ?thesis using block(1,4) page(1,4) by (simp add: Let_def del: upt_Suc)
      next
        case used: (2 nb')
        have "unat c < unat nb'" using used(2) block(2) page(2) by simp
        then have "search_loop fuel node num eb blk nb' =
            Done (map_option of_nat (find (run_free node (unat num)) [unat nb'..<Suc (unat eb)]))"
          if "unat nb' \<le> unat eb" using that Suc.prems by (intro Suc.IH) simp_all
        then show ?thesis using block(1,4) page(1,4) used(1,3)
          by (simp add: Let_def word_le_nat_alt del: upt_Suc)
      qed
    qed
  qed
qed simp

lemma search_free_mmap_range_eq:
  assumes "linked node" "0 < unat num" "node_pages node \<le> bm_bits (nd_free_pages node)"
  shows "search_free_mmap_range node num =
    Done (map_option of_nat (first_fit node (unat num)))"
proof -
  let ?nb = "ucast (nd_size node div PAGE_SIZE) :: count_t"
  have "node_pages node < 2 ^ 32" using assms(1,3) by (simp add: linked_def)
  then have nb: "unat ?nb = node_pages node"
    by (simp add: unat_ucast_64_32 unat_div PAGE_SIZE_def node_pages_def)
  show ?thesis
  proof (cases "unat num \<le> node_pages node")
    case True
    then have "unat (?nb - num) = node_pages node - unat num"
      by (simp add: unat_sub_fits nb)
    then show ?thesis
      using True assms nb search_loop_eq [OF assms(1,2), of "?nb - num" "(?nb - num) div 64" 0
          "Suc (unat (?nb - num))"]
      by (simp add: search_free_mmap_range_def first_fit_def Let_def word_less_nat_alt unat_div
          del: upt_Suc search_loop.simps)
  next
    case False
    then show ?thesis
      by (simp add: search_free_mmap_range_def first_fit_def Let_def word_less_nat_alt nb)
  qed
qed

end
