(* ===== verification/MmapInv.thy ===== *)
theory MmapInv
  imports MmapRange
begin

text \<open>
  The contract of the allocator of \<^verbatim>\<open>src/mmap.c\<close>. Its abstract state is the set of pages
  that are mapped (\<open>mapped_pages\<close>): \<open>sys_mmap\<close> adds a run of pages that were not mapped,
  \<open>sys_munmap\<close> removes the pages it is given, and no other call changes the set. The
  invariant \<open>mmap_inv\<close> is kept by every call.
\<close>

unbundle bit_operations_syntax

section \<open>Geometry of a node\<close>

definition base_page :: "mmap_node \<Rightarrow> nat" where
  "base_page node = unat (nd_base node) div 4096"

definition end_page :: "mmap_node \<Rightarrow> nat" where
  "end_page node = base_page node + node_pages node"

text \<open>
  The first page that \<open>sys_mmap\<close> may hand out: pages below it hold the metadata or, in
  the node of the program break, belong to the break.
\<close>

definition lo_page :: "uintptr_t \<Rightarrow> uintptr_t \<Rightarrow> mmap_node \<Rightarrow> nat" where
  "lo_page bn bt node =
     (if nd_base node = bn then unat bt div 4096
      else base_page node + unat (nd_meta_size node) div 4096)"

definition node_shape :: "mmap_node \<Rightarrow> bool" where
  "node_shape node \<longleftrightarrow>
     nd_base node \<noteq> 0 \<and> unat (nd_base node) mod 4096 = 0 \<and> unat (nd_size node) mod 4096 = 0 \<and>
     unat (nd_meta_size node) mod 4096 = 0 \<and> 0 < nd_meta_size node \<and>
     nd_meta_size node < nd_size node \<and>
     unat (nd_base node) + unat (nd_size node) < 2 ^ 64 \<and> unat (nd_size node) < 2 ^ 43 \<and>
     node_pages node \<le> bm_bits (nd_free_pages node)"

definition node_ok :: "uintptr_t \<Rightarrow> uintptr_t \<Rightarrow> mmap_node \<Rightarrow> bool" where
  "node_ok bn bt node \<longleftrightarrow> node_shape node \<and> linked node \<and>
     (\<forall>n. page_free node n \<longrightarrow> lo_page bn bt node \<le> base_page node + n \<and> n < node_pages node)"

definition node_disjoint :: "mmap_node \<Rightarrow> mmap_node \<Rightarrow> bool" where
  "node_disjoint a b \<longleftrightarrow> end_page a \<le> base_page b \<or> end_page b \<le> base_page a"

definition node_mapped :: "uintptr_t \<Rightarrow> uintptr_t \<Rightarrow> mmap_node \<Rightarrow> nat \<Rightarrow> bool" where
  "node_mapped bn bt node p \<longleftrightarrow>
     lo_page bn bt node \<le> p \<and> p < end_page node \<and> \<not> page_free node (p - base_page node)"

section \<open>The invariant and the abstract state\<close>

definition heap_bytes :: "mmap_node list \<Rightarrow> nat" where
  "heap_bytes nodes = (\<Sum>n\<leftarrow>nodes. unat (nd_size n))"

definition brk_ok :: "mmap_state \<Rightarrow> bool" where
  "brk_ok st \<longleftrightarrow>
     brk_base st \<le> cur_brk st \<and> cur_brk st \<le> brk_top st \<and>
     unat (brk_base st) mod 4096 = 0 \<and> unat (cur_brk st) mod 4096 = 0 \<and>
     unat (brk_top st) mod 4096 = 0 \<and>
     (if mmap_brk_node st = 0 then brk_top st = 0
      else \<exists>node \<in> set (mmap_node_list st). nd_base node = mmap_brk_node st \<and>
        brk_base st = nd_base node + nd_meta_size node \<and>
        unat (brk_top st) \<le> unat (nd_base node) + unat (nd_size node))"

definition mapped_pages :: "mmap_state \<Rightarrow> nat set" where
  "mapped_pages st =
     {p. \<exists>node \<in> set (mmap_node_list st). node_mapped (mmap_brk_node st) (brk_top st) node p}"

definition mmap_inv :: "mmap_state \<Rightarrow> bool" where
  "mmap_inv st \<longleftrightarrow>
     (\<forall>node \<in> set (mmap_node_list st). node_ok (mmap_brk_node st) (brk_top st) node) \<and>
     sorted_wrt node_disjoint (mmap_node_list st) \<and> brk_ok st \<and>
     heap_bytes (mmap_node_list st) < 2 ^ 43 \<and>
     unat (mmap_total_size st) = heap_bytes (mmap_node_list st) \<and>
     unat (mmap_alloc_size st) = 4096 * card (mapped_pages st)"

lemma mmap_inv_initial: "mmap_inv (mmap_initial m)"
  by (simp add: mmap_inv_def mmap_initial_def brk_ok_def heap_bytes_def mapped_pages_def)

lemma node_shapeD:
  assumes "node_shape node"
  shows "unat (nd_base node) = 4096 * base_page node"
    "unat (nd_size node) = 4096 * node_pages node"
    "end_page node < 2 ^ 52" "node_pages node < 2 ^ 31" "0 < node_pages node"
proof -
  show *: "unat (nd_base node) = 4096 * base_page node"
    "unat (nd_size node) = 4096 * node_pages node"
    using assms by (auto simp: node_shape_def base_page_def node_pages_def)
  show "end_page node < 2 ^ 52" "node_pages node < 2 ^ 31"
    using assms * by (simp_all add: node_shape_def end_page_def)
  show "0 < node_pages node"
    using assms * by (auto simp: node_shape_def word_less_nat_alt)
qed

lemma flipped_geometry:
  assumes "flipped b lo hi node node'"
  shows "base_page node' = base_page node" "node_pages node' = node_pages node"
    "end_page node' = end_page node" "lo_page bn bt node' = lo_page bn bt node"
    "node_shape node' = node_shape node" "nd_base node' = nd_base node"
    "nd_size node' = nd_size node" "nd_meta_size node' = nd_meta_size node"
  using assms
  by (simp_all add: flipped_def base_page_def node_pages_def end_page_def lo_page_def
      node_shape_def bm_bits_def)

lemma flipped_disjoint:
  assumes "flipped b lo hi node node'"
  shows "node_disjoint node' x = node_disjoint node x" "node_disjoint x node' = node_disjoint x node"
  by (simp_all add: node_disjoint_def flipped_geometry [OF assms])

lemma flipped_node_ok:
  assumes "flipped b lo hi node node'" "node_ok bn bt node"
    "b \<Longrightarrow> lo_page bn bt node \<le> base_page node + lo \<and> hi \<le> node_pages node"
  shows "node_ok bn bt node'"
  using assms(2,3)
  unfolding node_ok_def flipped_geometry [OF assms(1)]
  using assms(1) by (auto simp: flipped_def)

lemma flipped_mapped:
  assumes "flipped b lo hi node node'" "base_page node \<le> lo_page bn bt node"
    "lo_page bn bt node \<le> base_page node + lo" "hi \<le> node_pages node"
  shows "node_mapped bn bt node' p \<longleftrightarrow>
    (if base_page node + lo \<le> p \<and> p < base_page node + hi then \<not> b else node_mapped bn bt node p)"
proof -
  have "page_free node' (p - base_page node) \<longleftrightarrow>
      (if lo \<le> p - base_page node \<and> p - base_page node < hi then b
       else page_free node (p - base_page node))"
    using assms(1) by (simp add: flipped_def)
  then show ?thesis
    using assms(2-4) by (auto simp: node_mapped_def flipped_geometry [OF assms(1)] end_page_def)
qed

section \<open>The nodes of a state\<close>

lemma mapped_pages_split:
  assumes "mmap_node_list st = xs @ node # ys"
  shows "mapped_pages st =
    {p. node_mapped (mmap_brk_node st) (brk_top st) node p} \<union>
    {p. \<exists>x \<in> set (xs @ ys). node_mapped (mmap_brk_node st) (brk_top st) x p}"
  using assms by (auto simp: mapped_pages_def)

lemma base_le_lo_page:
  assumes "mmap_inv st" "node \<in> set (mmap_node_list st)"
  shows "base_page node + unat (nd_meta_size node) div 4096
    \<le> lo_page (mmap_brk_node st) (brk_top st) node"
proof (cases "nd_base node = mmap_brk_node st")
  case True
  have shape: "node_shape node"
    using assms by (auto simp: mmap_inv_def node_ok_def)
  obtain k where k: "k \<in> set (mmap_node_list st)" "nd_base k = mmap_brk_node st"
    "brk_base st = nd_base k + nd_meta_size k"
    using assms True shape by (auto simp: mmap_inv_def brk_ok_def node_shape_def)
  have "k = node"
  proof (rule ccontr)
    assume "k \<noteq> node"
    then have "node_disjoint k node \<or> node_disjoint node k"
      using assms k(1) by (auto simp: mmap_inv_def in_set_conv_decomp sorted_wrt_append
          append_eq_append_conv2 append_eq_Cons_conv Cons_eq_append_conv)
    moreover have "base_page k = base_page node" using k(2) True by (simp add: base_page_def)
    moreover have "0 < node_pages k" "0 < node_pages node"
      using assms k(1) shape node_shapeD(5) by (auto simp: mmap_inv_def node_ok_def)
    ultimately show False by (auto simp: node_disjoint_def end_page_def)
  qed
  then have "unat (brk_base st) = unat (nd_base node) + unat (nd_meta_size node)"
    using k(3) shape by (simp add: unat_add_fits node_shape_def word_less_nat_alt)
  moreover have "unat (brk_base st) \<le> unat (brk_top st)"
    using assms(1) by (auto simp: mmap_inv_def brk_ok_def word_le_nat_alt)
  ultimately show ?thesis
    using True node_shapeD(1) [OF shape] by (simp add: lo_page_def)
qed (simp add: lo_page_def)

lemma finite_mapped_pages:
  assumes "mmap_inv st"
  shows "finite (mapped_pages st)" "card (mapped_pages st) < 2 ^ 52"
proof -
  have sub: "mapped_pages st \<subseteq> {..<2 ^ 52 - 1}"
  proof
    fix p assume "p \<in> mapped_pages st"
    then obtain node where "node \<in> set (mmap_node_list st)" "p < end_page node"
      by (auto simp: mapped_pages_def node_mapped_def)
    moreover from this assms have "end_page node < 2 ^ 52"
      by (intro node_shapeD(3)) (auto simp: mmap_inv_def node_ok_def)
    ultimately show "p \<in> {..<2 ^ 52 - 1}" by simp
  qed
  then show "finite (mapped_pages st)" by (rule finite_subset) simp
  show "card (mapped_pages st) < 2 ^ 52"
    using card_mono [OF _ sub] by simp
qed

section \<open>Allocation\<close>

lemma first_fit_SomeD:
  assumes "first_fit node num = Some s"
  shows "s + num \<le> node_pages node" "run_free node num s" "t < s \<Longrightarrow> \<not> run_free node num t"
proof -
  have le: "num \<le> node_pages node" and
    f: "find (run_free node num) [0..<Suc (node_pages node - num)] = Some s"
    using assms by (simp_all add: first_fit_def split: if_splits)
  show "s + num \<le> node_pages node" using find_upt_SomeD(2) [OF f] le by simp
  show "run_free node num s" using find_upt_SomeD(3) [OF f] .
  show "t < s \<Longrightarrow> \<not> run_free node num t" using find_upt_SomeD(4) [OF f, of t] by simp
qed

lemma first_fit_NoneD:
  "first_fit node num = None \<Longrightarrow> s + num \<le> node_pages node \<Longrightarrow> \<not> run_free node num s"
  using find_upt_NoneD [of "run_free node num" 0 "Suc (node_pages node - num)" s]
  by (auto simp: first_fit_def split: if_splits)

definition sound :: "mmap_node \<Rightarrow> bool" where
  "sound node \<longleftrightarrow> node_shape node \<and> linked node"

lemma node_ok_sound: "node_ok bn bt node \<Longrightarrow> sound node"
  by (simp add: node_ok_def sound_def)

lemma alloc_in_node:
  assumes "sound node" "0 < unat num" "first_fit node (unat num) = Some s"
  obtains node' where "update_mmap_range node (of_nat s) num False = Done node'"
    "flipped False s (s + unat num) node node'"
proof -
  note fit = first_fit_SomeD [OF assms(3)]
  have "node_pages node < 2 ^ 31" using assms(1) node_shapeD(4) by (simp add: sound_def)
  then have s: "unat (of_nat s :: index_t) = s" using fit(1) by simp
  have "unat (of_nat s :: index_t) + unat num \<le> bm_bits (nd_free_pages node)"
    using assms(1) fit(1) by (simp add: s sound_def node_shape_def)
  moreover have "page_free node n = (\<not> False)"
    if "unat (of_nat s :: index_t) \<le> n" "n < unat (of_nat s :: index_t) + unat num" for n
    using that fit(2) by (simp add: s run_free_def)
  ultimately obtain node' where "update_mmap_range node (of_nat s) num False = Done node'"
    "flipped False (unat (of_nat s :: index_t)) (unat (of_nat s :: index_t) + unat num) node node'"
    using update_mmap_range_ok [of node "of_nat s" num False] assms(1) by (auto simp: sound_def)
  then show thesis unfolding s by (rule that)
qed

lemma alloc_from_nodes_eq:
  assumes "\<forall>node \<in> set nodes. sound node" "0 < unat num"
  shows "(alloc_from_nodes num nodes = Done (nodes, None) \<and>
      (\<forall>node \<in> set nodes. first_fit node (unat num) = None)) \<or>
    (\<exists>xs node ys s node'. nodes = xs @ node # ys \<and>
      (\<forall>x \<in> set xs. first_fit x (unat num) = None) \<and> first_fit node (unat num) = Some s \<and>
      alloc_from_nodes num nodes = Done (xs @ node' # ys, Some (node', of_nat s)) \<and>
      flipped False s (s + unat num) node node')"
  using assms(1)
proof (induction nodes)
  case (Cons node nodes)
  have search: "search_free_mmap_range node num =
      Done (map_option of_nat (first_fit node (unat num)))"
    using Cons.prems assms(2)
    by (intro search_free_mmap_range_eq) (simp_all add: sound_def node_shape_def)
  show ?case
  proof (cases "first_fit node (unat num)")
    case (Some s)
    then obtain node' where "update_mmap_range node (of_nat s) num False = Done node'"
      "flipped False s (s + unat num) node node'"
      using alloc_in_node [OF _ assms(2)] Cons.prems by (metis list.set_intros(1))
    then have "node # nodes = [] @ node # nodes \<and> (\<forall>x \<in> set []. first_fit x (unat num) = None) \<and>
        first_fit node (unat num) = Some s \<and>
        alloc_from_nodes num (node # nodes) = Done ([] @ node' # nodes, Some (node', of_nat s)) \<and>
        flipped False s (s + unat num) node node'"
      using Some search by simp
    then show ?thesis by blast
  next
    case None
    from Cons have "(alloc_from_nodes num nodes = Done (nodes, None) \<and>
        (\<forall>node \<in> set nodes. first_fit node (unat num) = None)) \<or>
      (\<exists>xs k ys s node'. nodes = xs @ k # ys \<and>
        (\<forall>x \<in> set xs. first_fit x (unat num) = None) \<and> first_fit k (unat num) = Some s \<and>
        alloc_from_nodes num nodes = Done (xs @ node' # ys, Some (node', of_nat s)) \<and>
        flipped False s (s + unat num) k node')" (is "?none \<or> ?some")
      by simp
    then show ?thesis
    proof
      assume ?none
      then show ?thesis using None search by simp
    next
      assume ?some
      then obtain xs k ys s node' where *: "nodes = xs @ k # ys"
        "\<forall>x \<in> set xs. first_fit x (unat num) = None" "first_fit k (unat num) = Some s"
        "alloc_from_nodes num nodes = Done (xs @ node' # ys, Some (node', of_nat s))"
        "flipped False s (s + unat num) k node'"
        by blast
      then have "node # nodes = (node # xs) @ k # ys \<and>
          (\<forall>x \<in> set (node # xs). first_fit x (unat num) = None) \<and>
          first_fit k (unat num) = Some s \<and>
          alloc_from_nodes num (node # nodes) =
            Done ((node # xs) @ node' # ys, Some (node', of_nat s)) \<and>
          flipped False s (s + unat num) k node'"
        using None search by simp
      then show ?thesis by blast
    qed
  qed
qed simp

text \<open>The end of \<open>alloc_mmap\<close>: no assertion fails, and the range has the expected address.\<close>

lemma finish_alloc_eq:
  assumes "node_shape node" "unat len = 4096 * n" "s + n \<le> node_pages node"
  shows "finish_alloc len node (of_nat s) st =
      Done (nd_base node + of_nat s * 4096,
        st\<lparr>mmap_alloc_size := mmap_alloc_size st + len,
           mm_mem := mem_fill (nd_base node + of_nat s * 4096) 0 len (mm_mem st)\<rparr>)"
    "unat (nd_base node + of_nat s * 4096 :: u64) = 4096 * (base_page node + s)"
proof -
  note shape = node_shapeD [OF assms(1)]
  have s: "unat (of_nat s :: index_t) = s" "unat (of_nat s :: u64) = s" "s < 2 ^ 31"
    using shape(4) assms(3) by simp_all
  have "ucast (of_nat s :: index_t) = (of_nat s :: u64)"
    by (rule word_unat_eq_iff [THEN iffD2]) (simp only: unat_ucast_32_64 s)
  moreover have mult: "unat (of_nat s * 4096 :: u64) = 4096 * s"
    using s by (subst unat_mult_fits) simp_all
  moreover have "unat (nd_base node) + 4096 * s < 2 ^ 64"
    using shape(1,3) assms(3) by (simp add: end_page_def)
  then show addr: "unat (nd_base node + of_nat s * 4096 :: u64) = 4096 * (base_page node + s)"
    using mult shape(1) by (subst unat_add_fits) simp_all
  moreover have "4096 * (base_page node + s) + unat len \<le> 4096 * end_page node"
    using assms(2,3) by (simp add: end_page_def)
  then have "unat (nd_base node + of_nat s * 4096 + len) = 4096 * (base_page node + s) + unat len"
    using addr shape(3) by (subst unat_add_fits) simp_all
  moreover have "unat (nd_base node + nd_size node) = 4096 * end_page node"
    using assms(1) shape(1,2) by (subst unat_add_fits) (simp_all add: node_shape_def end_page_def)
  ultimately show "finish_alloc len node (of_nat s) st =
      Done (nd_base node + of_nat s * 4096,
        st\<lparr>mmap_alloc_size := mmap_alloc_size st + len,
           mm_mem := mem_fill (nd_base node + of_nat s * 4096) 0 len (mm_mem st)\<rparr>)"
    using shape(1) assms(2,3)
    by (simp add: finish_alloc_def Let_def util_is_baligned_page [unfolded PAGE_SIZE_def]
        PAGE_SIZE_def word_le_nat_alt end_page_def)
qed

section \<open>Flipping the pages of one node\<close>

text \<open>\<open>same_brk st st'\<close>: the two states agree on the program break and the size of the heaps.\<close>

definition same_brk :: "mmap_state \<Rightarrow> mmap_state \<Rightarrow> bool" where
  "same_brk st st' \<longleftrightarrow>
     mmap_brk_node st' = mmap_brk_node st \<and> brk_base st' = brk_base st \<and>
     brk_top st' = brk_top st \<and> cur_brk st' = cur_brk st \<and>
     mmap_total_size st' = mmap_total_size st"

lemma mmap_inv_node:
  assumes "mmap_inv st" "node \<in> set (mmap_node_list st)"
  shows "node_ok (mmap_brk_node st) (brk_top st) node" "node_shape node" "linked node" "sound node"
    "base_page node \<le> lo_page (mmap_brk_node st) (brk_top st) node"
  using assms base_le_lo_page [OF assms] by (auto simp: mmap_inv_def node_ok_def sound_def)

lemma other_node_pages:
  assumes "mmap_inv st" "mmap_node_list st = xs @ node # ys" "x \<in> set (xs @ ys)"
    "base_page x \<le> p" "p < end_page x"
  shows "p < base_page node \<or> end_page node \<le> p"
proof -
  have "node_disjoint x node \<or> node_disjoint node x"
    using assms(1-3) by (auto simp: mmap_inv_def sorted_wrt_append)
  with assms(4,5) show ?thesis by (auto simp: node_disjoint_def)
qed

lemma flip_member:
  "p' = (m' \<or> x) \<Longrightarrow> q = (m \<or> x) \<Longrightarrow> m' = (if r then \<not> b else m) \<Longrightarrow> (r \<Longrightarrow> \<not> x) \<Longrightarrow>
    p' = (if b then q \<and> \<not> r else q \<or> r)"
  by auto

lemma flip_mapped_pages:
  assumes "mmap_inv st" "mmap_node_list st = xs @ node # ys" "flipped b lo hi node node'"
    "lo_page (mmap_brk_node st) (brk_top st) node \<le> base_page node + lo" "hi \<le> node_pages node"
    "mmap_node_list st' = xs @ node' # ys" "same_brk st st'"
  shows "mapped_pages st' =
    (if b then mapped_pages st - {base_page node + lo..<base_page node + hi}
     else mapped_pages st \<union> {base_page node + lo..<base_page node + hi})"
proof -
  let ?M = "node_mapped (mmap_brk_node st) (brk_top st)"
  have node: "node \<in> set (mmap_node_list st)" using assms(2) by simp
  let ?O = "\<lambda>p. \<exists>x \<in> set (xs @ ys). ?M x p"
  let ?R = "\<lambda>p. base_page node + lo \<le> p \<and> p < base_page node + hi"
  have after: "p \<in> mapped_pages st' \<longleftrightarrow> ?M node' p \<or> ?O p" for p
    using mapped_pages_split [OF assms(6)] assms(7) by (auto simp: same_brk_def)
  have before: "p \<in> mapped_pages st \<longleftrightarrow> ?M node p \<or> ?O p" for p
    using mapped_pages_split [OF assms(2)] by auto
  have flip: "?M node' p \<longleftrightarrow> (if ?R p then \<not> b else ?M node p)" for p
    by (rule flipped_mapped [OF assms(3) mmap_inv_node(5) [OF assms(1) node] assms(4,5)])
  have others: "\<not> ?O p" if "?R p" for p
  proof
    assume "?O p"
    then obtain x where x: "x \<in> set (xs @ ys)" "?M x p" by blast
    then have "x \<in> set (mmap_node_list st)" using assms(2) by auto
    from mmap_inv_node(5) [OF assms(1) this] x(2)
    have "base_page x \<le> p" "p < end_page x" by (auto simp: node_mapped_def)
    from other_node_pages [OF assms(1,2) x(1) this] that assms(5)
    show False by (auto simp: end_page_def)
  qed
  have "p \<in> mapped_pages st' \<longleftrightarrow>
      (if b then p \<in> mapped_pages st \<and> \<not> ?R p else p \<in> mapped_pages st \<or> ?R p)" for p
    by (rule flip_member [OF after before flip others])
  then show ?thesis by (cases b) (simp_all add: set_eq_iff atLeastLessThan_iff)
qed

lemma flip_keeps_inv:
  assumes "mmap_inv st" "mmap_node_list st = xs @ node # ys" "flipped b lo hi node node'"
    "b \<Longrightarrow> lo_page (mmap_brk_node st) (brk_top st) node \<le> base_page node + lo \<and>
      hi \<le> node_pages node"
    "mmap_node_list st' = xs @ node' # ys" "same_brk st st'"
    "unat (mmap_alloc_size st') = 4096 * card (mapped_pages st')"
  shows "mmap_inv st'"
proof -
  have node: "node \<in> set (mmap_node_list st)" using assms(2) by simp
  have "node_ok (mmap_brk_node st) (brk_top st) node'"
    using flipped_node_ok [OF assms(3) mmap_inv_node(1) [OF assms(1) node] assms(4)] by blast
  then have "\<forall>n \<in> set (mmap_node_list st'). node_ok (mmap_brk_node st') (brk_top st') n"
    using assms(1,2,5,6) by (auto simp: mmap_inv_def same_brk_def)
  moreover have "sorted_wrt node_disjoint (mmap_node_list st')"
    using assms(1,2,5)
    by (auto simp: mmap_inv_def sorted_wrt_append flipped_disjoint [OF assms(3)])
  moreover have "brk_ok st'"
    using assms(1,2,5,6) flipped_geometry [OF assms(3)]
    by (auto simp: mmap_inv_def brk_ok_def same_brk_def)
  moreover have "heap_bytes (mmap_node_list st') = heap_bytes (mmap_node_list st)"
    using assms(2,5) flipped_geometry [OF assms(3)] by (simp add: heap_bytes_def)
  ultimately show ?thesis
    using assms(1,6,7) by (simp add: mmap_inv_def same_brk_def)
qed

lemma card_atLeastLessThan_shift: "card {p + s..<p + (s + n)} = (n :: nat)"
  by simp

section \<open>The contract of an allocation\<close>

definition heap_pages :: "mmap_state \<Rightarrow> nat set" where
  "heap_pages st = {p. \<exists>node \<in> set (mmap_node_list st).
     base_page node + unat (nd_meta_size node) div 4096 \<le> p \<and> p < end_page node}"

definition brk_pages :: "mmap_state \<Rightarrow> nat set" where
  "brk_pages st = {unat (brk_base st) div 4096..<unat (cur_brk st) div 4096}"

definition holds_pages :: "nat \<Rightarrow> nat \<Rightarrow> mmap_node \<Rightarrow> bool" where
  "holds_pages p n node \<longleftrightarrow> base_page node \<le> p \<and> p + n \<le> end_page node"

text \<open>
  \<open>takes_pages p n st st'\<close>: the step from \<open>st\<close> to \<open>st'\<close> maps the \<open>n\<close> pages from page \<open>p\<close>. They
  were not mapped, they lie in one heap outside its metadata and outside the program break, they
  read as zero, and nothing else has changed in the memory.
\<close>

definition takes_pages :: "nat \<Rightarrow> nat \<Rightarrow> mmap_state \<Rightarrow> mmap_state \<Rightarrow> bool" where
  "takes_pages p n st st' \<longleftrightarrow>
     {p..<p + n} \<inter> mapped_pages st = {} \<and> {p..<p + n} \<subseteq> heap_pages st \<and>
     {p..<p + n} \<inter> brk_pages st = {} \<and>
     (\<exists>node \<in> set (mmap_node_list st'). holds_pages p n node) \<and> 0 < p \<and> p + n < 2 ^ 52 \<and>
     mapped_pages st' = mapped_pages st \<union> {p..<p + n} \<and>
     (\<forall>a. mm_mem st' a = (if unat a div 4096 \<in> {p..<p + n} then 0 else mm_mem st a)) \<and>
     cur_brk st' = cur_brk st \<and> brk_base st' = brk_base st \<and> mm_logs st' = mm_logs st"

lemma mem_fill_pages:
  assumes "unat addr = 4096 * p" "unat len = 4096 * n" "unat addr + unat len < 2 ^ 64"
  shows "mem_fill addr c len m a = (if unat a div 4096 \<in> {p..<p + n} then c else m a)"
proof -
  have "unat (a - addr) < unat len \<longleftrightarrow> unat addr \<le> unat a \<and> unat a < unat addr + unat len"
  proof (cases "addr \<le> a")
    case True
    then show ?thesis by (auto simp: unat_sub word_le_nat_alt)
  next
    case False
    then have "unat a < unat addr" by (simp add: word_le_nat_alt)
    then have "unat (a - addr) = 2 ^ 64 + unat a - unat addr"
      using unat_lt64 [of addr] by (simp add: unat_sub_if_size size_word.rep_eq)
    then show ?thesis using False assms(3) by (simp add: word_le_nat_alt)
  qed
  moreover have "4096 * p \<le> unat a \<longleftrightarrow> p \<le> unat a div 4096"
    "unat a < 4096 * p + 4096 * n \<longleftrightarrow> unat a div 4096 < p + n"
    by (auto simp: less_eq_div_iff_mult_less_eq div_less_iff_less_mult algebra_simps)
  ultimately show ?thesis using assms by (simp add: mem_fill_def)
qed

lemma same_base_unique:
  assumes "mmap_inv st" "k \<in> set (mmap_node_list st)" "node \<in> set (mmap_node_list st)"
    "nd_base k = nd_base node"
  shows "k = node"
proof (rule ccontr)
  assume "k \<noteq> node"
  then have "node_disjoint k node \<or> node_disjoint node k"
    using assms(1-3) by (auto simp: mmap_inv_def in_set_conv_decomp sorted_wrt_append
        append_eq_append_conv2 append_eq_Cons_conv Cons_eq_append_conv)
  moreover have "base_page k = base_page node" using assms(4) by (simp add: base_page_def)
  moreover have "0 < node_pages k" "0 < node_pages node"
    using node_shapeD(5) mmap_inv_node(2) [OF assms(1)] assms(2,3) by blast+
  ultimately show False by (auto simp: node_disjoint_def end_page_def)
qed

lemma brk_node_props:
  assumes "mmap_inv st" "brk_top st \<noteq> 0"
  obtains node xs ys where "node_at (mmap_brk_node st) (mmap_node_list st) = Some node"
    "mmap_node_list st = xs @ node # ys" "nd_base node = mmap_brk_node st"
    "unat (brk_base st) = unat (nd_base node) + unat (nd_meta_size node)"
    "unat (brk_top st) \<le> 4096 * end_page node" "brk_base st = nd_base node + nd_meta_size node"
proof -
  obtain node where node: "node \<in> set (mmap_node_list st)" "nd_base node = mmap_brk_node st"
    "brk_base st = nd_base node + nd_meta_size node"
    "unat (brk_top st) \<le> unat (nd_base node) + unat (nd_size node)"
    using assms by (auto simp: mmap_inv_def brk_ok_def split: if_splits)
  note shape = mmap_inv_node(2) [OF assms(1) node(1)]
  obtain k where k: "node_at (mmap_brk_node st) (mmap_node_list st) = Some k"
    using node(1,2) by (cases "node_at (mmap_brk_node st) (mmap_node_list st)")
      (auto simp: node_at_def find_None_iff)
  then have "k \<in> set (mmap_node_list st)" "nd_base k = mmap_brk_node st"
    by (auto simp: node_at_def find_Some_iff)
  with same_base_unique [OF assms(1) this(1) node(1)] node(2) k
  have at: "node_at (mmap_brk_node st) (mmap_node_list st) = Some node" by simp
  obtain xs ys where "mmap_node_list st = xs @ node # ys"
    using node(1) by (auto simp: in_set_conv_decomp)
  moreover have "unat (brk_base st) = unat (nd_base node) + unat (nd_meta_size node)"
    using node(3) shape by (simp add: unat_add_fits node_shape_def word_less_nat_alt)
  moreover have "unat (brk_top st) \<le> 4096 * end_page node"
    using node(4) node_shapeD(1,2) [OF shape] by (simp add: end_page_def)
  ultimately show thesis using that at node(2,3) by blast
qed

text \<open>The specification of the search over the nodes and the program break.\<close>

fun first_fit_nodes :: "nat \<Rightarrow> mmap_node list \<Rightarrow> nat option" where
  "first_fit_nodes n [] = None"
| "first_fit_nodes n (node # nodes) =
     (case first_fit node n of
        Some s \<Rightarrow> Some (base_page node + s)
      | None \<Rightarrow> first_fit_nodes n nodes)"

definition alloc_page :: "mmap_state \<Rightarrow> nat \<Rightarrow> nat option" where
  "alloc_page st n =
     (case first_fit_nodes n (mmap_node_list st) of
        Some p \<Rightarrow> Some p
      | None \<Rightarrow> if 4096 * n \<le> unat (brk_top st) - unat (cur_brk st)
                then Some (unat (brk_top st) div 4096 - n) else None)"

lemma first_fit_nodes_append:
  "\<forall>x \<in> set xs. first_fit x n = None \<Longrightarrow> first_fit_nodes n (xs @ ys) = first_fit_nodes n ys"
  by (induction xs) simp_all

lemma first_fit_nodes_None:
  "\<forall>x \<in> set xs. first_fit x n = None \<Longrightarrow> first_fit_nodes n xs = None"
  by (induction xs) simp_all

lemma first_fit_nodes_SomeD:
  "first_fit_nodes n nodes = Some p \<Longrightarrow> \<exists>node \<in> set nodes. n \<le> node_pages node"
  by (induction nodes) (auto split: option.splits dest: first_fit_SomeD(1))

lemma node_size_le_heap: "node \<in> set nodes \<Longrightarrow> unat (nd_size node) \<le> heap_bytes nodes"
  by (auto simp: heap_bytes_def in_set_conv_decomp)

lemma alloc_page_fits:
  assumes "mmap_inv st" "alloc_page st n = Some p" "0 < n"
  shows "4096 * n \<le> unat (mmap_total_size st)"
proof -
  have tot: "unat (mmap_total_size st) = heap_bytes (mmap_node_list st)"
    using assms(1) by (simp add: mmap_inv_def)
  show ?thesis
  proof (cases "first_fit_nodes n (mmap_node_list st)")
    case (Some q)
    then obtain node where node: "node \<in> set (mmap_node_list st)" "n \<le> node_pages node"
      using first_fit_nodes_SomeD by blast
    then have "4096 * n \<le> unat (nd_size node)"
      using node_shapeD(2) mmap_inv_node(2) [OF assms(1)] by simp
    with node_size_le_heap [OF node(1)] tot show ?thesis by simp
  next
    case None
    then have gap: "4096 * n \<le> unat (brk_top st) - unat (cur_brk st)"
      using assms(2) by (simp add: alloc_page_def split: if_splits)
    then have "brk_top st \<noteq> 0" using assms(3) by auto
    then obtain node xs ys where node: "mmap_node_list st = xs @ node # ys"
      "nd_base node = mmap_brk_node st"
      "unat (brk_base st) = unat (nd_base node) + unat (nd_meta_size node)"
      "unat (brk_top st) \<le> 4096 * end_page node"
      using brk_node_props [OF assms(1)] by metis
    have "node \<in> set (mmap_node_list st)" using node(1) by simp
    note shape = node_shapeD [OF mmap_inv_node(2) [OF assms(1) this]] node_size_le_heap [OF this]
    have "unat (brk_base st) \<le> unat (cur_brk st)"
      using assms(1) by (simp add: mmap_inv_def brk_ok_def word_le_nat_alt)
    then show ?thesis using gap node(3,4) shape tot by (simp add: end_page_def)
  qed
qed

lemma alloc_size_grows:
  assumes "mmap_inv st" "mapped_pages st' = mapped_pages st \<union> {p..<p + n}"
    "{p..<p + n} \<inter> mapped_pages st = {}" "p + n < 2 ^ 52" "unat len = 4096 * n"
    "mmap_alloc_size st' = mmap_alloc_size st + len"
    "\<forall>q \<in> mapped_pages st. q < 2 ^ 52 - 1"
  shows "unat (mmap_alloc_size st') = 4096 * card (mapped_pages st')"
proof -
  note fin = finite_mapped_pages [OF assms(1)]
  have card: "card (mapped_pages st') = card (mapped_pages st) + n"
    using assms(2,3) fin(1) by (simp add: card_Un_disjoint Int_commute)
  have "mapped_pages st' \<subseteq> {..<2 ^ 52 - 1}"
    using assms(2,4,7) by auto
  then have "card (mapped_pages st') \<le> 2 ^ 52 - 1"
    using card_mono [of "{..<2 ^ 52 - 1 :: nat}"] by fastforce
  moreover have "unat (mmap_alloc_size st) = 4096 * card (mapped_pages st)"
    using assms(1) by (simp add: mmap_inv_def)
  ultimately show ?thesis
    using card assms(5,6) by (simp add: unat_add_fits)
qed

lemma mapped_page_node:
  assumes "mmap_inv st" "q \<in> mapped_pages st"
  obtains node where "node \<in> set (mmap_node_list st)"
    "base_page node + unat (nd_meta_size node) div 4096 \<le> q" "q < end_page node"
    "node_mapped (mmap_brk_node st) (brk_top st) node q" "q < 2 ^ 52 - 1"
proof -
  obtain node where node: "node \<in> set (mmap_node_list st)"
    "node_mapped (mmap_brk_node st) (brk_top st) node q"
    using assms(2) by (auto simp: mapped_pages_def)
  with base_le_lo_page [OF assms(1) node(1)] node_shapeD(3) [OF mmap_inv_node(2) [OF assms(1) node(1)]]
  show thesis using that [OF node(1)] by (auto simp: node_mapped_def)
qed

lemma mapped_bound: "mmap_inv st \<Longrightarrow> \<forall>q \<in> mapped_pages st. q < 2 ^ 52 - 1"
  using mapped_page_node by blast

lemma brk_pages_in_node:
  assumes "mmap_inv st" "q \<in> brk_pages st"
  obtains node where "node \<in> set (mmap_node_list st)" "nd_base node = mmap_brk_node st"
    "base_page node \<le> q" "q < end_page node" "4096 * (q + 1) \<le> unat (cur_brk st)"
    "q + 1 \<le> unat (brk_top st) div 4096"
proof -
  have brk: "brk_base st \<le> cur_brk st" "cur_brk st \<le> brk_top st"
    using assms(1) by (simp_all add: mmap_inv_def brk_ok_def)
  have q: "unat (brk_base st) div 4096 \<le> q" "q < unat (cur_brk st) div 4096"
    using assms(2) by (simp_all add: brk_pages_def)
  from q(2) have "q + 1 \<le> unat (cur_brk st) div 4096" by simp
  then have cb: "4096 * (q + 1) \<le> unat (cur_brk st)"
    by (simp only: less_eq_div_iff_mult_less_eq [of 4096] mult.commute)
  then have "4096 * (q + 1) \<le> unat (brk_top st)"
    using brk(2) by (simp add: word_le_nat_alt)
  then have top: "q + 1 \<le> unat (brk_top st) div 4096" "brk_top st \<noteq> 0" by auto
  obtain node xs ys where node: "mmap_node_list st = xs @ node # ys"
    "nd_base node = mmap_brk_node st"
    "unat (brk_base st) = unat (nd_base node) + unat (nd_meta_size node)"
    "unat (brk_top st) \<le> 4096 * end_page node"
    using brk_node_props [OF assms(1) top(2)] by metis
  have "base_page node \<le> unat (brk_base st) div 4096"
    unfolding node(3) base_page_def by (simp add: div_le_mono)
  then have "base_page node \<le> q" using q(1) by simp
  moreover have "q < end_page node" using top(1) node(4) by linarith
  ultimately show thesis using that [of node] node(1,2) cb top(1) by simp
qed

lemma brk_pages_bound:
  assumes "mmap_inv st" "q \<in> brk_pages st"
  shows "q < 2 ^ 52 - 1"
proof -
  obtain k where k: "k \<in> set (mmap_node_list st)" "q < end_page k"
    by (rule brk_pages_in_node [OF assms])
  with node_shapeD(3) [OF mmap_inv_node(2) [OF assms(1) k(1)]] show ?thesis by simp
qed

lemma brk_pages_card:
  assumes "mmap_inv st"
  shows "4096 * card (brk_pages st) = unat (cur_brk st) - unat (brk_base st)"
proof -
  obtain a b where "unat (cur_brk st) = 4096 * a" "unat (brk_base st) = 4096 * b"
    using assms by (auto simp: mmap_inv_def brk_ok_def elim!: dvdE)
  then show ?thesis by (simp add: brk_pages_def diff_mult_distrib2)
qed

text \<open>A range found free in a node becomes mapped.\<close>

lemma base_page_pos: "node_shape node \<Longrightarrow> 0 < base_page node"
proof -
  assume shape: "node_shape node"
  then have "0 < unat (nd_base node)" by (simp add: node_shape_def unat_gt_0)
  then show ?thesis using node_shapeD(1) [OF shape] by simp
qed

lemma run_freeD: "run_free node n s \<Longrightarrow> b + s \<le> q \<Longrightarrow> q < b + s + n \<Longrightarrow> page_free node (q - b)"
  unfolding run_free_def by (drule spec [of _ "q - b"]) linarith

lemma run_not_mapped:
  assumes inv: "mmap_inv st" and list: "mmap_node_list st = xs @ node # ys"
    and free: "run_free node n s" "s + n \<le> node_pages node"
  shows "{base_page node + s..<base_page node + s + n} \<inter> mapped_pages st = {}"
proof -
  let ?p = "base_page node + s"
  have "q \<notin> mapped_pages st" if q: "?p \<le> q" "q < ?p + n" for q
  proof
    assume "q \<in> mapped_pages st"
    then consider "node_mapped (mmap_brk_node st) (brk_top st) node q"
      | x where "x \<in> set (xs @ ys)" "node_mapped (mmap_brk_node st) (brk_top st) x q"
      using mapped_pages_split [OF list] by blast
    then show False
    proof cases
      case 1
      with run_freeD [OF free(1) q] show False by (simp add: node_mapped_def)
    next
      case (2 x)
      then have "x \<in> set (mmap_node_list st)" using list by auto
      from mmap_inv_node(5) [OF inv this] 2(2)
      have "base_page x \<le> q" "q < end_page x" by (auto simp: node_mapped_def)
      from other_node_pages [OF inv list 2(1) this] q free(2) show False by (simp add: end_page_def)
    qed
  qed
  then show ?thesis by auto
qed

lemma run_not_brk:
  assumes inv: "mmap_inv st" and list: "mmap_node_list st = xs @ node # ys"
    and free: "run_free node n s" "s + n \<le> node_pages node"
  shows "{base_page node + s..<base_page node + s + n} \<inter> brk_pages st = {}"
proof -
  have False if q: "base_page node + s \<le> q" "q < base_page node + s + n" "q \<in> brk_pages st" for q
  proof -
    obtain k where k: "k \<in> set (mmap_node_list st)" "nd_base k = mmap_brk_node st"
      "base_page k \<le> q" "q < end_page k" "q + 1 \<le> unat (brk_top st) div 4096"
      using brk_pages_in_node [OF inv q(3)] by metis
    show False
    proof (cases "k = node")
      case True
      have "page_free node (q - base_page node)" by (rule run_freeD [OF free(1) q(1,2)])
      then have "lo_page (mmap_brk_node st) (brk_top st) node \<le> base_page node + (q - base_page node)"
        using mmap_inv_node(1) [OF inv] list unfolding node_ok_def by auto
      moreover have "lo_page (mmap_brk_node st) (brk_top st) node = unat (brk_top st) div 4096"
        using True k(2) by (simp add: lo_page_def)
      ultimately show False using k(5) q(1) by simp
    next
      case False
      then have "k \<in> set (xs @ ys)" using k(1) list by auto
      from other_node_pages [OF inv list this k(3,4)] q(1,2) free(2) show False by (simp add: end_page_def)
    qed
  qed
  then show ?thesis by auto
qed

lemma take_from_node:
  assumes inv: "mmap_inv st" and list: "mmap_node_list st = xs @ node # ys"
    and free: "run_free node n s" "s + n \<le> node_pages node" "0 < n"
    and flip: "flipped False s (s + n) node node'"
    and st': "mmap_node_list st' = xs @ node' # ys" "same_brk st st'" "mm_logs st' = mm_logs st"
    and len: "unat len = 4096 * n" "mmap_alloc_size st' = mmap_alloc_size st + len"
    and mem: "mm_mem st' = mem_fill addr 0 len (mm_mem st)" "unat addr = 4096 * (base_page node + s)"
  shows "takes_pages (base_page node + s) n st st' \<and> mmap_inv st'"
proof -
  let ?p = "base_page node + s" and ?lo = "lo_page (mmap_brk_node st) (brk_top st) node"
  have node: "node \<in> set (mmap_node_list st)" using list by simp
  note ok = mmap_inv_node [OF inv node]
  note shape = node_shapeD [OF ok(2)]
  have top: "?p + n \<le> end_page node" using free(2) by (simp add: end_page_def)
  have lo: "?lo \<le> ?p"
    using free(1,3) ok(1) by (auto simp: run_free_def node_ok_def)
  have mapped: "mapped_pages st' = mapped_pages st \<union> {?p..<?p + n}"
    using flip_mapped_pages [OF inv list flip lo free(2) st'(1,2)] by (simp add: add.assoc)
  note fresh = run_not_mapped [OF inv list free(1,2)]
  have "{?p..<?p + n} \<inter> brk_pages st = {}" by (rule run_not_brk [OF inv list free(1,2)])
  moreover have "{?p..<?p + n} \<subseteq> heap_pages st"
    using node lo top base_le_lo_page [OF inv node] by (auto simp: heap_pages_def intro!: bexI [of _ node])
  moreover have "mm_mem st' a = (if unat a div 4096 \<in> {?p..<?p + n} then 0 else mm_mem st a)" for a
    unfolding mem(1) using mem(2) len(1) top shape(3) by (intro mem_fill_pages) simp_all
  moreover have "holds_pages ?p n node'"
    using top by (simp add: holds_pages_def flipped_geometry [OF flip])
  moreover have "0 < ?p" using base_page_pos [OF ok(2)] by simp
  ultimately have "takes_pages ?p n st st'"
    using mapped fresh st' top shape(3) by (simp add: takes_pages_def same_brk_def)
  moreover have "unat (mmap_alloc_size st') = 4096 * card (mapped_pages st')"
    using alloc_size_grows [OF inv mapped fresh _ len mapped_bound [OF inv]] top shape(3) by simp
  then have "mmap_inv st'"
    by (intro flip_keeps_inv [OF inv list flip _ st'(1,2)]) simp_all
  ultimately show ?thesis ..
qed

text \<open>Only one node ends in the program break.\<close>

lemma other_node_not_brk:
  assumes inv: "mmap_inv st" and list: "mmap_node_list st = xs @ node # ys" "nd_base node = mmap_brk_node st"
    and x: "x \<in> set (xs @ ys)"
  shows "nd_base x \<noteq> mmap_brk_node st"
proof
  assume eq: "nd_base x = mmap_brk_node st"
  then have "base_page x = base_page node" using list(2) by (simp add: base_page_def)
  moreover have "x \<in> set (mmap_node_list st)" "node \<in> set (mmap_node_list st)" using x list(1) by auto
  then have "0 < node_pages x" "0 < node_pages node" using node_shapeD(5) mmap_inv_node(2) [OF inv] by blast+
  ultimately show False
    using other_node_pages [OF inv list(1) x, of "base_page x"] by (simp add: end_page_def)
qed

text \<open>The pages below the top of the program break are not mapped, whatever the node says.\<close>

lemma below_brk_not_mapped:
  assumes inv: "mmap_inv st" and list: "mmap_node_list st = xs @ node # ys" "nd_base node = mmap_brk_node st"
    and p: "base_page node \<le> p" "p < unat (brk_top st) div 4096" "p < end_page node"
  shows "p \<notin> mapped_pages st"
proof
  assume "p \<in> mapped_pages st"
  then consider "node_mapped (mmap_brk_node st) (brk_top st) node p"
    | x where "x \<in> set (xs @ ys)" "node_mapped (mmap_brk_node st) (brk_top st) x p"
    using mapped_pages_split [OF list(1)] by blast
  then show False
  proof cases
    case 1
    then show False using p(2) list(2) by (simp add: node_mapped_def lo_page_def)
  next
    case (2 x)
    then have "x \<in> set (mmap_node_list st)" using list(1) by auto
    from mmap_inv_node(5) [OF inv this] 2(2)
    have "base_page x \<le> p" "p < end_page x" by (auto simp: node_mapped_def)
    from other_node_pages [OF inv list(1) 2(1) this] p show False by simp
  qed
qed

text \<open>Lowering the top of the program break from page \<open>q\<close> by \<open>n\<close> pages maps them.\<close>

lemma lowered_top:
  assumes inv: "mmap_inv st" and list: "mmap_node_list st = xs @ node # ys" "nd_base node = mmap_brk_node st"
    and st': "mmap_node_list st' = mmap_node_list st" "mmap_brk_node st' = mmap_brk_node st"
    and top: "unat (brk_top st) div 4096 = q" "unat (brk_top st') = 4096 * (q - n)" "n \<le> q" "q \<le> end_page node"
    and base: "base_page node \<le> q - n"
  shows "mapped_pages st' = mapped_pages st \<union> {q - n..<q - n + n}"
    "x \<in> set (mmap_node_list st) \<Longrightarrow> node_ok (mmap_brk_node st) (brk_top st') x"
proof -
  let ?M = "node_mapped (mmap_brk_node st)"
  have in_list: "node \<in> set (mmap_node_list st)" using list(1) by simp
  note ok = mmap_inv_node [OF inv]
  have same_lo: "lo_page (mmap_brk_node st) (brk_top st') x = lo_page (mmap_brk_node st) (brk_top st) x"
    if "x \<in> set (xs @ ys)" for x
    using other_node_not_brk [OF inv list that] by (simp add: lo_page_def)
  have lo: "lo_page (mmap_brk_node st) (brk_top st) node = q"
    "lo_page (mmap_brk_node st) (brk_top st') node = q - n"
    using list(2) top(1,2) by (simp_all add: lo_page_def)
  have not_free: "\<not> page_free node (p - base_page node)" if "p < q" "base_page node \<le> p" for p
    using ok(1) [OF in_list] lo(1) that by (auto simp: node_ok_def)
  have "?M (brk_top st') node p \<longleftrightarrow> ?M (brk_top st) node p \<or> q - n \<le> p \<and> p < q" for p
    using not_free [of p] base top(4) by (auto simp: node_mapped_def lo)
  moreover have "?M (brk_top st') x p = ?M (brk_top st) x p" if "x \<in> set (xs @ ys)" for x p
    using same_lo [OF that] by (simp add: node_mapped_def)
  moreover have "mmap_node_list st' = xs @ node # ys" using st'(1) list(1) by simp
  ultimately show "mapped_pages st' = mapped_pages st \<union> {q - n..<q - n + n}"
    using top(3) unfolding mapped_pages_split [OF list(1)]
    by (subst mapped_pages_split [of st' xs node ys]) (auto simp: st'(2))
  show "node_ok (mmap_brk_node st) (brk_top st') x" if x: "x \<in> set (mmap_node_list st)"
  proof (cases "x = node")
    case True
    then show ?thesis using ok(1) [OF in_list] lo by (fastforce simp: node_ok_def)
  next
    case False
    then have "x \<in> set (xs @ ys)" using x list(1) by auto
    from same_lo [OF this] ok(1) [OF x] show ?thesis by (simp add: node_ok_def)
  qed
qed

text \<open>A range taken from the top of the program break becomes mapped.\<close>

text \<open>A lower top of the break area keeps it in order.\<close>

lemma lowered_brk_ok:
  assumes "mmap_inv st" "node \<in> set (mmap_node_list st)" "nd_base node = mmap_brk_node st"
    "brk_base st = nd_base node + nd_meta_size node" "node_shape node"
    and same: "mmap_node_list st' = mmap_node_list st" "mmap_brk_node st' = mmap_brk_node st"
      "brk_base st' = brk_base st" "cur_brk st' = cur_brk st"
    and top: "unat (brk_top st') = 4096 * k" "unat (cur_brk st) div 4096 \<le> k" "k \<le> end_page node"
  shows "brk_ok st'"
proof -
  note shape = node_shapeD [OF assms(5)]
  have brk: "unat (brk_base st) \<le> unat (cur_brk st)" "unat (cur_brk st) mod 4096 = 0" "unat (brk_base st) mod 4096 = 0"
    using assms(1) by (simp_all add: mmap_inv_def brk_ok_def word_le_nat_alt)
  have "unat (cur_brk st) \<le> 4096 * k" using top(2) brk(2) by auto
  moreover have "unat (brk_top st') \<le> unat (nd_base node) + unat (nd_size node)"
    using top(1,3) shape(1,2) by (simp add: end_page_def)
  moreover have "mmap_brk_node st' \<noteq> 0"
    using assms(3,5) same(2) by (simp add: node_shape_def)
  ultimately show ?thesis
    using assms(2-4) same top(1) brk unfolding brk_ok_def word_le_nat_alt by auto
qed

lemma take_from_brk:
  assumes inv: "mmap_inv st" and gap: "4096 * n \<le> unat (brk_top st) - unat (cur_brk st)" "0 < n"
    and len: "unat len = 4096 * n" "mmap_alloc_size st' = mmap_alloc_size st + len"
    and st': "mmap_node_list st' = mmap_node_list st" "mmap_brk_node st' = mmap_brk_node st"
      "brk_base st' = brk_base st" "cur_brk st' = cur_brk st" "brk_top st' = brk_top st - len"
      "mmap_total_size st' = mmap_total_size st" "mm_logs st' = mm_logs st"
    and mem: "mm_mem st' = mem_fill addr 0 len (mm_mem st)" "unat addr = unat (brk_top st')"
  shows "takes_pages (unat (brk_top st) div 4096 - n) n st st' \<and> mmap_inv st'"
proof -
  let ?q = "unat (brk_top st) div 4096"
  have brk: "unat (brk_base st) \<le> unat (cur_brk st)" "unat (cur_brk st) \<le> unat (brk_top st)"
    "unat (brk_top st) mod 4096 = 0" "unat (cur_brk st) mod 4096 = 0" "unat (brk_base st) mod 4096 = 0"
    using inv by (simp_all add: mmap_inv_def brk_ok_def word_le_nat_alt)
  then have q: "unat (brk_top st) = 4096 * ?q" by auto
  have "brk_top st \<noteq> 0" using gap by auto
  then obtain node xs ys where node: "mmap_node_list st = xs @ node # ys"
    "nd_base node = mmap_brk_node st"
    "unat (brk_base st) = unat (nd_base node) + unat (nd_meta_size node)"
    "unat (brk_top st) \<le> 4096 * end_page node" "brk_base st = nd_base node + nd_meta_size node"
    using brk_node_props [OF inv] by metis
  have in_list: "node \<in> set (mmap_node_list st)" using node(1) by simp
  note ok = mmap_inv_node [OF inv in_list]
  note shape = node_shapeD [OF ok(2)]
  have top': "unat (brk_top st') = 4096 * (?q - n)"
    using gap len(1) st'(5) q by (simp add: unat_sub_fits)
  have n: "n \<le> ?q" "unat (cur_brk st) div 4096 \<le> ?q - n" "?q \<le> end_page node"
    using gap brk q node(4) by auto
  have base: "base_page node \<le> ?q - n"
  proof -
    have "base_page node \<le> unat (brk_base st) div 4096"
      unfolding node(3) base_page_def by (simp add: div_le_mono)
    also have "\<dots> \<le> unat (cur_brk st) div 4096" using brk(1) by (rule div_le_mono)
    finally show ?thesis using n(2) by simp
  qed
  note low = lowered_top [OF inv node(1,2) st'(1,2) refl top' n(1,3) base]
  note mapped = low(1)
  have fresh: "{?q - n..<?q - n + n} \<inter> mapped_pages st = {}"
    using below_brk_not_mapped [OF inv node(1,2)] base n(1,3) by fastforce
  have alloc: "unat (mmap_alloc_size st') = 4096 * card (mapped_pages st')"
    using alloc_size_grows [OF inv mapped fresh _ len mapped_bound [OF inv]] n shape(3) by simp
  have "mm_mem st' a = (if unat a div 4096 \<in> {?q - n..<?q - n + n} then 0 else mm_mem st a)" for a
    unfolding mem(1)
  proof (rule mem_fill_pages)
    have "unat addr + unat len = 4096 * (?q - n + n)" using mem(2) top' len(1) by (simp add: algebra_simps)
    then have "unat addr + unat len = unat (brk_top st)" using q n(1) by simp
    then show "unat addr + unat len < 2 ^ 64" using unat_lt64 [of "brk_top st"] by simp
  qed (use mem(2) top' len(1) in simp_all)
  moreover have "unat (brk_base st) div 4096 = base_page node + unat (nd_meta_size node) div 4096"
    unfolding node(3) shape(1) by simp
  then have "{?q - n..<?q - n + n} \<subseteq> heap_pages st"
    using in_list n div_le_mono [OF brk(1), of 4096]
    by (auto simp: heap_pages_def intro!: bexI [of _ node])
  moreover have "{?q - n..<?q - n + n} \<inter> brk_pages st = {}"
    using n by (auto simp: brk_pages_def)
  moreover have "\<exists>k \<in> set (mmap_node_list st'). holds_pages (?q - n) n k"
    using base n in_list st'(1) by (auto simp: holds_pages_def)
  moreover have "0 < ?q - n" "?q - n + n < 2 ^ 52"
    using base base_page_pos [OF ok(2)] n shape(3) by linarith+
  ultimately have takes: "takes_pages (?q - n) n st st'"
    using mapped fresh st' by (simp add: takes_pages_def)
  have "brk_ok st'"
    by (rule lowered_brk_ok [OF inv in_list node(2,5) ok(2) st'(1-4) top' n(2)]) (use n(1,3) in simp)
  then have "mmap_inv st'"
    using inv alloc st'(1,2,6) low(2) by (simp add: mmap_inv_def)
  with takes show ?thesis ..
qed

section \<open>sys\_mmap\<close>

lemma num_pages:
  assumes "unat len = 4096 * n" "n < 2 ^ 32"
  shows "unat (ucast (len div PAGE_SIZE) :: count_t) = n" "util_is_baligned len PAGE_SIZE"
  using assms by (simp_all add: unat_ucast_64_32 unat_div PAGE_SIZE_def
      util_is_baligned_page [unfolded PAGE_SIZE_def])

lemma brk_order: "mmap_inv st \<Longrightarrow> cur_brk st \<le> brk_top st"
  by (simp add: mmap_inv_def brk_ok_def)

lemma alloc_mmap_brk:
  assumes inv: "mmap_inv st" and len: "unat len = 4096 * n" "0 < n"
    and gap: "4096 * n \<le> unat (brk_top st) - unat (cur_brk st)"
    and none: "alloc_from_nodes (ucast (len div PAGE_SIZE)) (mmap_node_list st) =
      Done (mmap_node_list st, None)"
    and tot: "len \<le> mmap_total_size st" and al: "util_is_baligned len PAGE_SIZE"
  shows "\<exists>addr st'. alloc_mmap len st = Done (addr, st') \<and>
    unat addr = 4096 * (unat (brk_top st) div 4096 - n) \<and>
    takes_pages (unat (brk_top st) div 4096 - n) n st st' \<and> mmap_inv st'"
proof -
  let ?q = "unat (brk_top st) div 4096"
  have brk: "cur_brk st \<le> brk_top st" "unat (brk_top st) mod 4096 = 0"
    "unat (brk_base st) \<le> unat (cur_brk st)"
    using inv by (simp_all add: mmap_inv_def brk_ok_def word_le_nat_alt)
  have "brk_top st \<noteq> 0" using gap len(2) by auto
  then obtain node xs ys where at: "node_at (mmap_brk_node st) (mmap_node_list st) = Some node"
    and node: "mmap_node_list st = xs @ node # ys"
    "unat (brk_base st) = unat (nd_base node) + unat (nd_meta_size node)"
    "unat (brk_top st) \<le> 4096 * end_page node"
    using brk_node_props [OF inv] by metis
  have "node \<in> set (mmap_node_list st)" using node(1) by simp
  note ok = mmap_inv_node [OF inv this]
  note shape = node_shapeD [OF ok(2)]
  define s where "s = ?q - n - base_page node"
  have le: "n + base_page node \<le> ?q"
  proof -
    have "4096 * n + 4096 * base_page node \<le> unat (brk_top st)"
      using gap brk(1,3) node(2) shape(1) by (simp add: word_le_nat_alt)
    then show ?thesis by simp
  qed
  have s: "base_page node + s = ?q - n" "s + n \<le> node_pages node"
    using le node(3) by (auto simp: s_def end_page_def)
  have top: "unat (brk_top st - len) = 4096 * (?q - n)"
    using gap len(1) brk(2) by (subst unat_sub_fits) auto
  have "unat (brk_top st - len - nd_base node) = 4096 * s"
    using top s(1) shape(1) by (subst unat_sub_fits) auto
  then have start: "ucast ((brk_top st - len - nd_base node) div PAGE_SIZE) = (of_nat s :: index_t)"
    using s(2) shape(4)
    by (intro word_unat_eq_iff [THEN iffD2])
      (simp add: unat_ucast_64_32 unat_div PAGE_SIZE_def)
  let ?st = "st\<lparr>brk_top := brk_top st - len\<rparr>"
  let ?a = "nd_base node + of_nat s * 4096"
  let ?st' = "?st\<lparr>mmap_alloc_size := mmap_alloc_size ?st + len,
      mm_mem := mem_fill ?a 0 len (mm_mem ?st)\<rparr>"
  note fin = finish_alloc_eq [OF ok(2) len(1) s(2)]
  have fits: "len \<le> brk_top st - cur_brk st"
    using gap len(1) brk(1) by (simp add: word_le_nat_alt unat_sub_fits)
  have "alloc_mmap len st = Done (?a, ?st')"
    using al brk(1) leD [OF tot] none fits at start fin(1) [of ?st]
    by (simp add: alloc_mmap_def Let_def)
  moreover have "takes_pages (?q - n) n st ?st' \<and> mmap_inv ?st'"
    by (rule take_from_brk [OF inv gap len(2,1), where addr = ?a])
      (use top s(1) fin(2) in simp_all)
  ultimately show ?thesis using fin(2) s(1) by auto
qed

text \<open>A node of the list has room.\<close>

lemma alloc_mmap_found:
  assumes inv: "mmap_inv st" and len: "unat len = 4096 * n" "0 < n"
    and found: "mmap_node_list st = xs @ node # ys" "\<forall>x \<in> set xs. first_fit x n = None" "first_fit node n = Some s"
      "alloc_from_nodes (ucast (len div PAGE_SIZE)) (mmap_node_list st) = Done (xs @ node' # ys, Some (node', of_nat s))"
      "flipped False s (s + n) node node'"
    and total: "len \<le> mmap_total_size st" and al: "util_is_baligned len PAGE_SIZE"
  shows "\<exists>addr st'. alloc_mmap len st = Done (addr, st') \<and> unat addr = 4096 * (base_page node + s) \<and>
    takes_pages (base_page node + s) n st st' \<and> mmap_inv st'"
proof -
  have node: "node \<in> set (mmap_node_list st)" using found(1) by simp
  note ok = mmap_inv_node [OF inv node]
  have shape': "node_shape node'" using flipped_geometry(5) [OF found(5)] ok(2) by simp
  note fit = first_fit_SomeD [OF found(3)]
  have "s + n \<le> node_pages node'" using fit(1) flipped_geometry(2) [OF found(5)] by simp
  note fin = finish_alloc_eq [OF shape' len(1) this]
  let ?st = "st\<lparr>mmap_node_list := xs @ node' # ys\<rparr>"
  let ?a = "nd_base node' + of_nat s * 4096"
  let ?st' = "?st\<lparr>mmap_alloc_size := mmap_alloc_size ?st + len,
      mm_mem := mem_fill ?a 0 len (mm_mem ?st)\<rparr>"
  have eq: "alloc_mmap len st = Done (?a, ?st')"
    using al brk_order [OF inv] leD [OF total] found(4) fin(1) [of ?st] by (simp add: alloc_mmap_def Let_def)
  have a: "unat ?a = 4096 * (base_page node + s)"
    using fin(2) flipped_geometry(1) [OF found(5)] by simp
  have "takes_pages (base_page node + s) n st ?st' \<and> mmap_inv ?st'"
    by (rule take_from_node [OF inv found(1) fit(2,1) len(2) found(5) _ _ _ len(1) _ _ a])
      (simp_all add: same_brk_def)
  then show ?thesis using eq a by blast
qed

lemma alloc_mmap_contract:
  assumes inv: "mmap_inv st" and len: "unat len = 4096 * n" "0 < n"
  shows "case alloc_page st n of
      None \<Rightarrow> \<exists>logs. alloc_mmap len st =
        Done (- of_int ENOMEM, st\<lparr>mm_logs := mm_logs st @ logs\<rparr>)
    | Some p \<Rightarrow> \<exists>addr st'. alloc_mmap len st = Done (addr, st') \<and> unat addr = 4096 * p \<and>
        takes_pages p n st st' \<and> mmap_inv st'"
proof (cases "len \<le> mmap_total_size st")
  case False
  then have "alloc_page st n = None"
    using alloc_page_fits [OF inv _ len(2)] len(1)
    by (cases "alloc_page st n") (auto simp: word_le_nat_alt)
  moreover have "alloc_mmap len st = Done (- of_int ENOMEM, st\<lparr>mm_logs := mm_logs st @ []\<rparr>)"
    using False len(1) brk_order [OF inv]
    by (simp add: alloc_mmap_def util_is_baligned_page not_le)
  ultimately show ?thesis by (simp only: option.case) blast
next
  case True
  have tot: "heap_bytes (mmap_node_list st) < 2 ^ 43"
    "unat (mmap_total_size st) = heap_bytes (mmap_node_list st)"
    using inv by (simp_all add: mmap_inv_def)
  then have small: "n < 2 ^ 32" using True len(1) by (simp add: word_le_nat_alt)
  let ?num = "ucast (len div PAGE_SIZE) :: count_t"
  have num: "unat ?num = n" and al: "util_is_baligned len PAGE_SIZE"
    using num_pages [OF len(1) small] by blast+
  note brk = brk_order [OF inv]
  have snd: "\<forall>node \<in> set (mmap_node_list st). sound node"
    using mmap_inv_node(4) [OF inv] by blast
  consider (none) "alloc_from_nodes ?num (mmap_node_list st) = Done (mmap_node_list st, None)"
      "\<forall>node \<in> set (mmap_node_list st). first_fit node n = None"
    | (found) xs node ys s node' where "mmap_node_list st = xs @ node # ys"
      "\<forall>x \<in> set xs. first_fit x n = None" "first_fit node n = Some s"
      "alloc_from_nodes ?num (mmap_node_list st) = Done (xs @ node' # ys, Some (node', of_nat s))"
      "flipped False s (s + n) node node'"
    using alloc_from_nodes_eq [OF snd, of ?num] len(2) unfolding num by blast
  then show ?thesis
  proof cases
    case found
    from alloc_mmap_found [OF inv len found True al] show ?thesis
      using found(1-3) by (auto simp: alloc_page_def first_fit_nodes_append)
  next
    case none
    have nf: "first_fit_nodes n (mmap_node_list st) = None"
      using none(2) by (rule first_fit_nodes_None)
    show ?thesis
    proof (cases "4096 * n \<le> unat (brk_top st) - unat (cur_brk st)")
      case gap: True
      then have "alloc_page st n = Some (unat (brk_top st) div 4096 - n)"
        using nf by (simp add: alloc_page_def)
      with alloc_mmap_brk [OF inv len gap none(1) True al] show ?thesis by simp
    next
      case False
      then have "\<not> len \<le> brk_top st - cur_brk st"
        using brk len(1) by (simp add: word_le_nat_alt unat_sub_fits)
      then have "alloc_mmap len st = Done (- of_int ENOMEM, st\<lparr>mm_logs := mm_logs st @
          [(''sys_mmap: out of memory {:#x} {:#x} {:#x}\<newline>'',
            [LogNum len, LogNum (mmap_total_size st), LogNum (mmap_alloc_size st)])]\<rparr>)"
        using al brk leD [OF True] none(1) by (simp add: alloc_mmap_def Let_def mm_log_def)
      moreover have "alloc_page st n = None" using nf False by (simp add: alloc_page_def)
      ultimately show ?thesis by (simp only: option.case) blast
    qed
  qed
qed

lemma mmap_inv_logs [simp]: "mmap_inv (st\<lparr>mm_logs := l\<rparr>) = mmap_inv st"
  by (simp add: mmap_inv_def brk_ok_def mapped_pages_def)

lemma mapped_pages_logs [simp]: "mapped_pages (st\<lparr>mm_logs := l\<rparr>) = mapped_pages st"
  by (simp add: mapped_pages_def)

section \<open>sys\_munmap\<close>

definition free_pages :: "mmap_state \<Rightarrow> nat set" where
  "free_pages st = {p. \<exists>node \<in> set (mmap_node_list st).
     base_page node \<le> p \<and> p < end_page node \<and> page_free node (p - base_page node)}"

lemma node_holds_iff:
  assumes "node_shape node" "unat addr = 4096 * p" "unat len = 4096 * n" "p + n < 2 ^ 52"
  shows "node_holds addr len node \<longleftrightarrow> holds_pages p n node"
proof -
  note shape = node_shapeD [OF assms(1)]
  have "unat (addr + len) = 4096 * (p + n)"
    using assms(2-4) by (subst unat_add_fits) simp_all
  moreover have "unat (nd_base node + nd_size node) = 4096 * end_page node"
    using assms(1) shape(1,2) by (subst unat_add_fits) (simp_all add: node_shape_def end_page_def)
  ultimately show ?thesis
    using assms(2) shape(1)
    by (simp add: node_holds_def holds_pages_def word_le_nat_alt) linarith
qed

lemma range_pages:
  assumes "node_shape node" "unat addr = 4096 * p" "unat len = 4096 * n" "holds_pages p n node"
  shows "unat (ucast ((addr - nd_base node) div PAGE_SIZE) :: index_t) = p - base_page node"
    "unat (ucast (len div PAGE_SIZE) :: count_t) = n"
    "p - base_page node + n \<le> bm_bits (nd_free_pages node)"
proof -
  note shape = node_shapeD [OF assms(1)]
  have h: "base_page node \<le> p" "p - base_page node + n \<le> node_pages node"
    using assms(4) by (auto simp: holds_pages_def end_page_def)
  have "unat (addr - nd_base node) = 4096 * (p - base_page node)"
    using assms(2) shape(1) h(1) by (subst unat_sub_fits) (simp_all add: diff_mult_distrib2)
  then show "unat (ucast ((addr - nd_base node) div PAGE_SIZE) :: index_t) = p - base_page node"
    using h(2) shape(4) by (simp add: unat_ucast_64_32 unat_div PAGE_SIZE_def)
  show "unat (ucast (len div PAGE_SIZE) :: count_t) = n"
    using assms(3) h(2) shape(4) by (simp add: unat_ucast_64_32 unat_div PAGE_SIZE_def)
  show "p - base_page node + n \<le> bm_bits (nd_free_pages node)"
    using h(2) assms(1) by (simp add: node_shape_def)
qed

lemma free_in_nodes_none:
  assumes "\<forall>node \<in> set nodes. \<not> node_holds addr len node"
  shows "free_in_nodes addr len nodes = Done None"
  using assms by (induction nodes) simp_all

lemma free_in_nodes_at:
  assumes "\<forall>x \<in> set xs. \<not> node_holds addr len x" "node_holds addr len node"
  shows "free_in_nodes addr len (xs @ node # ys) =
    bindc (update_mmap_range node (ucast ((addr - nd_base node) div PAGE_SIZE))
             (ucast (len div PAGE_SIZE)) True) (\<lambda>node'. Done (Some (xs @ node' # ys)))"
  using assms
  by (induction xs) (auto simp: bindc_assoc)

lemma munmap_guard:
  assumes "unat addr = 4096 * p" "unat len = 4096 * n" "0 < p" "0 < n" "p + n < 2 ^ 52"
  shows "sys_munmap addr len st =
    bindc (free_in_nodes addr len (mmap_node_list st)) (\<lambda>r.
           case r of
             None \<Rightarrow> Done (- EINVAL, st)
           | Some nodes \<Rightarrow>
               Done (0, st\<lparr>mmap_node_list := nodes,
                           mmap_alloc_size := mmap_alloc_size st - len\<rparr>))"
proof -
  have "addr \<noteq> 0" "len \<noteq> 0" using assms(1-4) by auto
  then show ?thesis
    using assms by (simp add: sys_munmap_def free_mmap_def util_add_overflows_iff
        util_is_baligned_page)
qed

lemma holder_unique:
  assumes "mmap_inv st" "mmap_node_list st = xs @ node # ys" "holds_pages p n node" "0 < n"
    "x \<in> set (xs @ ys)"
  shows "\<not> holds_pages p n x"
  using other_node_pages [OF assms(1,2,5), of p] assms(3,4) by (auto simp: holds_pages_def)

text \<open>
  The three outcomes of \<open>sys_munmap\<close> on a page-aligned range: no heap holds it, a page of it
  is free already, or all its pages are mapped.
\<close>

lemma munmap_foreign:
  assumes inv: "mmap_inv st"
    and range: "unat addr = 4096 * p" "unat len = 4096 * n" "0 < p" "0 < n" "p + n < 2 ^ 52"
    and none: "\<forall>node \<in> set (mmap_node_list st). \<not> holds_pages p n node"
  shows "sys_munmap addr len st = Done (- EINVAL, st)"
proof -
  have "\<forall>node \<in> set (mmap_node_list st). \<not> node_holds addr len node"
    using none node_holds_iff [OF _ range(1,2,5)] mmap_inv_node(2) [OF inv] by blast
  then show ?thesis by (simp add: munmap_guard [OF range] free_in_nodes_none)
qed

lemma munmap_at:
  assumes inv: "mmap_inv st"
    and range: "unat addr = 4096 * p" "unat len = 4096 * n" "0 < p" "0 < n" "p + n < 2 ^ 52"
    and node: "node \<in> set (mmap_node_list st)" "holds_pages p n node"
  obtains xs ys where "mmap_node_list st = xs @ node # ys"
    "sys_munmap addr len st =
      bindc (update_mmap_range node (ucast ((addr - nd_base node) div PAGE_SIZE))
             (ucast (len div PAGE_SIZE)) True) (\<lambda>node'.
        Done (0, st\<lparr>mmap_node_list := xs @ node' # ys,
                    mmap_alloc_size := mmap_alloc_size st - len\<rparr>))"
proof -
  obtain xs ys where list: "mmap_node_list st = xs @ node # ys"
    using node(1) by (auto simp: in_set_conv_decomp)
  have "\<not> node_holds addr len x" if "x \<in> set xs" for x
  proof -
    have "\<not> holds_pages p n x" using holder_unique [OF inv list node(2) range(4)] that by simp
    moreover have "x \<in> set (mmap_node_list st)" using that list by simp
    ultimately show ?thesis
      using node_holds_iff [OF mmap_inv_node(2) [OF inv] range(1,2,5)] by blast
  qed
  moreover have "node_holds addr len node"
    using node_holds_iff [OF mmap_inv_node(2) [OF inv node(1)] range(1,2,5)] node(2) by simp
  ultimately show thesis
    using that [OF list] list
    by (simp add: munmap_guard [OF range] free_in_nodes_at bindc_assoc)
qed

lemma munmap_free_page:
  assumes inv: "mmap_inv st"
    and range: "unat addr = 4096 * p" "unat len = 4096 * n" "0 < p" "0 < n" "p + n < 2 ^ 52"
    and node: "node \<in> set (mmap_node_list st)" "holds_pages p n node"
    and free: "p \<le> q" "q < p + n" "q \<in> free_pages st"
  shows "sys_munmap addr len st = Fault AssertionFailed"
proof -
  note ok = mmap_inv_node [OF inv node(1)]
  obtain xs ys where list: "mmap_node_list st = xs @ node # ys"
    and eq: "sys_munmap addr len st =
      bindc (update_mmap_range node (ucast ((addr - nd_base node) div PAGE_SIZE))
             (ucast (len div PAGE_SIZE)) True) (\<lambda>node'.
        Done (0, st\<lparr>mmap_node_list := xs @ node' # ys,
                    mmap_alloc_size := mmap_alloc_size st - len\<rparr>))"
    by (rule munmap_at [OF inv range node])
  note r = range_pages [OF ok(2) range(1,2) node(2)]
  obtain x where x: "x \<in> set (mmap_node_list st)" "base_page x \<le> q" "q < end_page x"
    "page_free x (q - base_page x)"
    using free(3) by (auto simp: free_pages_def)
  have "x = node"
  proof (rule ccontr)
    assume "x \<noteq> node"
    then have "x \<in> set (xs @ ys)" using x(1) list by auto
    from other_node_pages [OF inv list this x(2,3)] node(2) free(1,2)
    show False by (simp add: holds_pages_def)
  qed
  then have "page_free node (q - base_page node)" using x(4) by simp
  moreover have "base_page node \<le> p" using node(2) by (simp add: holds_pages_def)
  ultimately have "update_mmap_range node (ucast ((addr - nd_base node) div PAGE_SIZE))
      (ucast (len div PAGE_SIZE)) True = Fault AssertionFailed"
    using update_mmap_range_fault [OF ok(3), of _ _ "q - base_page node" True] r free(1,2) by simp
  then show ?thesis using eq by simp
qed

text \<open>\<open>gives_pages p n st st'\<close>: the step unmaps exactly the \<open>n\<close> pages from page \<open>p\<close>.\<close>

definition gives_pages :: "nat \<Rightarrow> nat \<Rightarrow> mmap_state \<Rightarrow> mmap_state \<Rightarrow> bool" where
  "gives_pages p n st st' \<longleftrightarrow>
     {p..<p + n} \<subseteq> mapped_pages st \<and> mapped_pages st' = mapped_pages st - {p..<p + n} \<and>
     {p..<p + n} \<subseteq> free_pages st' \<and>
     mm_mem st' = mm_mem st \<and> cur_brk st' = cur_brk st \<and> brk_base st' = brk_base st \<and>
     mm_logs st' = mm_logs st"

text \<open>Pages that a node holds are mapped in that node, if at all.\<close>

lemma range_mapped_here:
  assumes inv: "mmap_inv st" and list: "mmap_node_list st = xs @ node # ys"
    and holds: "holds_pages p n node" and mapped: "{p..<p + n} \<subseteq> mapped_pages st" and q: "p \<le> q" "q < p + n"
  shows "node_mapped (mmap_brk_node st) (brk_top st) node q"
proof -
  have "q \<in> mapped_pages st" using mapped q by auto
  then obtain x where x: "x \<in> set (mmap_node_list st)"
    "base_page x + unat (nd_meta_size x) div 4096 \<le> q" "q < end_page x"
    "node_mapped (mmap_brk_node st) (brk_top st) x q"
    by (rule mapped_page_node [OF inv])
  have "x = node"
  proof (rule ccontr)
    assume "x \<noteq> node"
    then have "x \<in> set (xs @ ys)" using x(1) list by auto
    from other_node_pages [OF inv list this _ x(3)] x(2) q holds show False by (simp add: holds_pages_def)
  qed
  with x(4) show ?thesis by simp
qed

lemma munmap_mapped:
  assumes inv: "mmap_inv st"
    and range: "unat addr = 4096 * p" "unat len = 4096 * n" "0 < p" "0 < n" "p + n < 2 ^ 52"
    and node: "node \<in> set (mmap_node_list st)" "holds_pages p n node"
    and mapped: "{p..<p + n} \<subseteq> mapped_pages st"
  obtains st' where "sys_munmap addr len st = Done (0, st')" "gives_pages p n st st'" "mmap_inv st'"
proof -
  note ok = mmap_inv_node [OF inv node(1)]
  obtain xs ys where list: "mmap_node_list st = xs @ node # ys"
    and eq: "sys_munmap addr len st =
      bindc (update_mmap_range node (ucast ((addr - nd_base node) div PAGE_SIZE))
             (ucast (len div PAGE_SIZE)) True) (\<lambda>node'.
        Done (0, st\<lparr>mmap_node_list := xs @ node' # ys,
                    mmap_alloc_size := mmap_alloc_size st - len\<rparr>))"
    by (rule munmap_at [OF inv range node])
  note r = range_pages [OF ok(2) range(1,2) node(2)]
  let ?b = "base_page node" and ?lo = "lo_page (mmap_brk_node st) (brk_top st) node"
  have b: "?b \<le> p" "p + n \<le> end_page node" using node(2) by (simp_all add: holds_pages_def)
  note here = range_mapped_here [OF inv list node(2) mapped]
  have used: "\<not> page_free node m" if "p - ?b \<le> m" "m < p - ?b + n" for m
    using here [of "?b + m"] that b by (simp add: node_mapped_def)
  obtain node' where node': "update_mmap_range node (ucast ((addr - nd_base node) div PAGE_SIZE))
      (ucast (len div PAGE_SIZE)) True = Done node'"
    "flipped True (p - ?b) (p - ?b + n) node node'"
    using update_mmap_range_ok [OF ok(3), of "ucast ((addr - nd_base node) div PAGE_SIZE)"
        "ucast (len div PAGE_SIZE)" True] r used by auto
  let ?st' = "st\<lparr>mmap_node_list := xs @ node' # ys, mmap_alloc_size := mmap_alloc_size st - len\<rparr>"
  have lo: "?lo \<le> ?b + (p - ?b)" using here [of p] range(4) b by (simp add: node_mapped_def)
  have hi: "p - ?b + n \<le> node_pages node" using b by (simp add: end_page_def)
  have m: "mapped_pages ?st' = mapped_pages st - {p..<p + n}"
    using flip_mapped_pages [OF inv list node'(2) lo hi, of ?st'] b by (simp add: same_brk_def)
  have card: "card (mapped_pages ?st') = card (mapped_pages st) - n" "n \<le> card (mapped_pages st)"
    using m mapped card_mono [OF finite_mapped_pages(1) [OF inv] mapped]
    by (simp_all add: card_Diff_subset)
  have "unat (mmap_alloc_size ?st') = 4096 * card (mapped_pages ?st')"
    using inv card range(2) by (simp add: mmap_inv_def unat_sub_fits diff_mult_distrib2)
  then have "mmap_inv ?st'"
    using lo hi by (intro flip_keeps_inv [OF inv list node'(2)]) (simp_all add: same_brk_def)
  moreover have "{p..<p + n} \<subseteq> free_pages ?st'"
  proof
    fix q assume "q \<in> {p..<p + n}"
    then have q: "p - ?b \<le> q - ?b" "q - ?b < p - ?b + n" "?b \<le> q" "q < end_page node"
      using b by auto
    then have "page_free node' (q - ?b)" using node'(2) by (simp add: flipped_def)
    then show "q \<in> free_pages ?st'"
      using q flipped_geometry [OF node'(2)] by (auto simp: free_pages_def)
  qed
  ultimately show thesis
    using that [of ?st'] eq node'(1) m mapped by (simp add: gives_pages_def)
qed

end
