(* ===== verification/MmapStats.thy ===== *)
theory MmapStats
  imports MmapCalls
begin

text \<open>
  \<open>mmap_heap_get_stats\<close> of \<^verbatim>\<open>src/mmap.c\<close>: the loop over the free ranges of a node finds the
  longest run of free pages, within the fuel the model gives it.
\<close>

section \<open>The longest run of free pages\<close>

definition bm_run :: "bitmap \<Rightarrow> nat \<Rightarrow> nat \<Rightarrow> bool" where
  "bm_run bm s n \<longleftrightarrow> (\<forall>k. s \<le> k \<and> k < s + n \<longrightarrow> bm_test bm k)"

text \<open>\<open>longest_run bm lo hi m\<close>: \<open>m\<close> is the length of a longest run of set bits in \<open>[lo, hi)\<close>.\<close>

definition longest_run :: "bitmap \<Rightarrow> nat \<Rightarrow> nat \<Rightarrow> nat \<Rightarrow> bool" where
  "longest_run bm lo hi m \<longleftrightarrow>
     (\<exists>s. lo \<le> s \<and> s + m \<le> hi \<and> bm_run bm s m) \<and>
     (\<forall>s n. lo \<le> s \<and> s + n \<le> hi \<and> bm_run bm s n \<longrightarrow> n \<le> m)"

lemma longest_run_none:
  assumes "\<And>k. lo \<le> k \<Longrightarrow> k < hi \<Longrightarrow> \<not> bm_test bm k" "lo \<le> hi"
  shows "longest_run bm lo hi 0"
proof -
  have "n = 0" if "lo \<le> s" "s + n \<le> hi" "bm_run bm s n" for s n
  proof (rule ccontr)
    assume "n \<noteq> 0"
    then have "bm_test bm s" using that(3) by (simp add: bm_run_def)
    then show False using assms(1) [of s] that \<open>n \<noteq> 0\<close> by simp
  qed
  moreover have "bm_run bm lo 0" by (auto simp: bm_run_def)
  ultimately show ?thesis using assms(2) unfolding longest_run_def by fastforce
qed

lemma longest_run_skip:
  assumes "\<And>k. lo \<le> k \<Longrightarrow> k < mid \<Longrightarrow> \<not> bm_test bm k" "lo \<le> mid" "longest_run bm mid hi m"
  shows "longest_run bm lo hi m"
proof -
  have "n \<le> m" if "lo \<le> s" "s + n \<le> hi" "bm_run bm s n" for s n
  proof (cases "n = 0 \<or> mid \<le> s")
    case True
    with assms(3) that show ?thesis by (auto simp: longest_run_def)
  next
    case False
    then have "bm_test bm s" using that(3) by (simp add: bm_run_def)
    with assms(1) [of s] that False show ?thesis by simp
  qed
  then show ?thesis using assms(2,3) unfolding longest_run_def by (meson le_trans)
qed

lemma longest_run_cons:
  assumes "bm_run bm lo (mid - lo)" "lo \<le> mid" "mid \<le> hi" "mid < hi \<Longrightarrow> \<not> bm_test bm mid"
    "longest_run bm mid hi m"
  shows "longest_run bm lo hi (max (mid - lo) m)"
proof -
  have bound: "n \<le> max (mid - lo) m" if n: "lo \<le> s" "s + n \<le> hi" "bm_run bm s n" for s n
  proof (cases "mid \<le> s")
    case True
    with assms(5) n have "n \<le> m" by (auto simp: longest_run_def)
    then show ?thesis by simp
  next
    case False
    have "s + n \<le> mid"
    proof (rule ccontr)
      assume "\<not> s + n \<le> mid"
      then have "bm_test bm mid" using n(3) False by (simp add: bm_run_def)
      with assms(4) n(2) \<open>\<not> s + n \<le> mid\<close> show False by simp
    qed
    then show ?thesis using n(1) by simp
  qed
  obtain s where s: "mid \<le> s" "s + m \<le> hi" "bm_run bm s m"
    using assms(5) by (auto simp: longest_run_def)
  have "\<exists>s. lo \<le> s \<and> s + max (mid - lo) m \<le> hi \<and> bm_run bm s (max (mid - lo) m)"
  proof (cases "m \<le> mid - lo")
    case True
    then have "max (mid - lo) m = mid - lo" by simp
    then show ?thesis using assms(1-3) by (intro exI [of _ lo]) simp
  next
    case False
    then have "max (mid - lo) m = m" by simp
    then show ?thesis using s assms(2) by (intro exI [of _ s]) simp
  qed
  with bound show ?thesis unfolding longest_run_def by blast
qed

text \<open>Where the run of free pages that starts at \<open>nx\<close> ends.\<close>

lemma run_end:
  fixes eb nx :: index_t
  assumes "unat eb < bm_bits bm" "unat eb < 2 ^ 31" "unat nx \<le> unat eb" "bm_test bm (unat nx) = True"
  defines "mid \<equiv> (case bm_first bm nx eb False of None \<Rightarrow> eb + 1 | Some b \<Rightarrow> b)"
  shows "unat nx < unat mid" "unat mid \<le> Suc (unat eb)" "bm_run bm (unat nx) (unat mid - unat nx)"
    "unat mid < Suc (unat eb) \<Longrightarrow> \<not> bm_test bm (unat mid)"
proof -
  have "unat nx < unat mid \<and> unat mid \<le> Suc (unat eb) \<and>
      (\<forall>k. unat nx \<le> k \<and> k < unat mid \<longrightarrow> bm_test bm k) \<and>
      (unat mid < Suc (unat eb) \<longrightarrow> \<not> bm_test bm (unat mid))"
  proof (cases "bm_first bm nx eb False")
    case None
    have "unat (eb + 1) = Suc (unat eb)" using assms(2) by (subst unat_add_fits) simp_all
    then show ?thesis using None assms(3) bm_first_NoneD [OF None] by (auto simp: mid_def)
  next
    case (Some b)
    note b = bm_first_SomeD [OF Some]
    have "unat nx \<noteq> unat b" using assms(4) b(3) by auto
    with b Some show ?thesis by (auto simp: mid_def)
  qed
  then show "unat nx < unat mid" "unat mid \<le> Suc (unat eb)" "bm_run bm (unat nx) (unat mid - unat nx)"
    "unat mid < Suc (unat eb) \<Longrightarrow> \<not> bm_test bm (unat mid)"
    by (auto simp: bm_run_def)
qed

lemma free_runs_loop_eq:
  assumes "unat eb < bm_bits bm" "bm_bits bm < 2 ^ 32" "unat eb < 2 ^ 31"
  shows "unat c \<le> Suc (unat eb) \<Longrightarrow> Suc (unat eb) - unat c < fuel \<Longrightarrow>
    \<exists>m. longest_run bm (unat c) (Suc (unat eb)) m \<and>
      free_runs_loop fuel bm eb c fb = Done (max fb (of_nat m))"
proof (induction fuel arbitrary: c fb)
  case (Suc fuel)
  show ?case
  proof (cases "c \<le> eb")
    case False
    then have "longest_run bm (unat c) (Suc (unat eb)) 0"
      using Suc.prems(1) by (intro longest_run_none) (auto simp: word_le_nat_alt)
    with False show ?thesis by (intro exI [of _ 0]) simp
  next
    case True
    then have le: "unat c \<le> unat eb" by (simp add: word_le_nat_alt)
    note ffs = bitmap_ffs_eq [OF le assms(1,2)]
    show ?thesis
    proof (cases "bm_first bm c eb True")
      case None
      have "longest_run bm (unat c) (Suc (unat eb)) 0"
        using bm_first_NoneD [OF None] le by (intro longest_run_none) auto
      with True None ffs show ?thesis by (intro exI [of _ 0]) simp
    next
      case (Some nx)
      note nx = bm_first_SomeD [OF Some]
      note ffc = bitmap_ffc_eq [OF nx(2) assms(1,2)]
      define mid where "mid = (case bm_first bm nx eb False of None \<Rightarrow> eb + 1 | Some b \<Rightarrow> b)"
      note mid = run_end [OF assms(1,3) nx(2,3), folded mid_def]
      have "Suc (unat eb) - unat mid < fuel" using Suc.prems(2) mid(1,2) nx(1) by simp
      from Suc.IH [OF mid(2) this, of "max (mid - nx) fb"] obtain m where
        m: "longest_run bm (unat mid) (Suc (unat eb)) m"
        "free_runs_loop fuel bm eb mid (max (mid - nx) fb) = Done (max (max (mid - nx) fb) (of_nat m))"
        by blast
      let ?m = "max (unat mid - unat nx) m"
      have "longest_run bm (unat nx) (Suc (unat eb)) ?m"
        using mid m(1) by (intro longest_run_cons) simp_all
      then have long: "longest_run bm (unat c) (Suc (unat eb)) ?m"
        using nx(1,4) by (intro longest_run_skip [of "unat c" "unat nx"]) auto
      have sub: "unat (mid - nx) = unat mid - unat nx" using mid(1) by (simp add: unat_sub_fits)
      have "m < 2 ^ 32" using m(1) assms(3) by (auto simp: longest_run_def)
      moreover have "unat mid < 2 ^ 32" using mid(2) assms(3) by simp
      ultimately have "max (of_nat (unat mid - unat nx)) (of_nat m) = (of_nat ?m :: index_t)"
        by (intro max_of_nat32) simp_all
      moreover have "mid - nx = of_nat (unat mid - unat nx)"
        by (simp flip: sub)
      ultimately have "max (max (mid - nx) fb) (of_nat m) = max fb (of_nat ?m)"
        by (simp only: max.assoc max.left_commute [of _ fb])
      moreover have "free_runs_loop (Suc fuel) bm eb c fb = free_runs_loop fuel bm eb mid (max (mid - nx) fb)"
        using True Some ffs ffc mid(1)
        by (simp add: Let_def mid_def [symmetric] word_less_nat_alt)
      ultimately show ?thesis using m(2) long by auto
    qed
  qed
qed simp

section \<open>mmap\_heap\_get\_stats\<close>

definition longest_free :: "mmap_node \<Rightarrow> nat \<Rightarrow> bool" where
  "longest_free node m \<longleftrightarrow> longest_run (nd_free_pages node) 0 (node_pages node) m"

text \<open>\<open>largest_of\<close>: the length of a longest free run over all nodes.\<close>

definition largest_of :: "mmap_node list \<Rightarrow> nat \<Rightarrow> bool" where
  "largest_of nodes m \<longleftrightarrow>
     (\<forall>node \<in> set nodes. \<forall>s n. s + n \<le> node_pages node \<and> run_free node n s \<longrightarrow> n \<le> m) \<and>
     (m = 0 \<or> (\<exists>node \<in> set nodes. \<exists>s. s + m \<le> node_pages node \<and> run_free node m s))"

lemma largest_of_Cons:
  assumes a: "longest_run (nd_free_pages node) 0 (node_pages node) a" and m: "largest_of nodes m"
  shows "largest_of (node # nodes) (max a m)"
proof -
  have "n \<le> max a m" if "x \<in> set (node # nodes)" "s + n \<le> node_pages x" "run_free x n s" for x s n
  proof (cases "x = node")
    case True
    then have "n \<le> a" using a that(2,3) by (auto simp: longest_run_def bm_run_def run_free_def)
    then show ?thesis by simp
  next
    case False
    then have "n \<le> m" using m that unfolding largest_of_def by auto
    then show ?thesis by simp
  qed
  moreover have "max a m = 0 \<or> (\<exists>x \<in> set (node # nodes). \<exists>s. s + max a m \<le> node_pages x \<and> run_free x (max a m) s)"
  proof (cases "m \<le> a")
    case True
    obtain s where "s + a \<le> node_pages node" "bm_run (nd_free_pages node) s a"
      using a by (auto simp: longest_run_def)
    with True show ?thesis by (auto simp: max_def bm_run_def run_free_def)
  next
    case False
    then obtain x s where "x \<in> set nodes" "s + m \<le> node_pages x" "run_free x m s"
      using m by (auto simp: largest_of_def)
    with False show ?thesis by (auto simp: max_def)
  qed
  ultimately show ?thesis unfolding largest_of_def by blast
qed

lemma stats_nodes_eq:
  assumes "\<forall>node \<in> set nodes. sound node"
  shows "\<exists>m. largest_of nodes m \<and> m < 2 ^ 32 \<and>
    stats_nodes nodes rs fb = Done (rs + (\<Sum>n\<leftarrow>nodes. nd_meta_size n), max fb (of_nat m))"
  using assms
proof (induction nodes arbitrary: rs fb)
  case Nil
  show ?case by (intro exI [of _ 0]) (simp add: largest_of_def)
next
  case (Cons node nodes)
  have snd: "node_shape node" "linked node" using Cons.prems by (simp_all add: sound_def)
  note shape = node_shapeD [OF snd(1)]
  let ?e = "ucast (nd_size node div PAGE_SIZE) - 1 :: index_t"
  have np: "unat (ucast (nd_size node div PAGE_SIZE) :: index_t) = node_pages node"
    using shape(2,4) by (simp add: unat_ucast_64_32 unat_div PAGE_SIZE_def)
  have e: "unat ?e = node_pages node - 1" using np shape(5) by (subst unat_sub_fits) simp_all
  then have Se: "Suc (unat ?e) = node_pages node" using shape(5) by simp
  have bits: "unat ?e < bm_bits (nd_free_pages node)" "bm_bits (nd_free_pages node) < 2 ^ 32"
    "unat ?e < 2 ^ 31"
    using snd e shape(4,5) by (auto simp: node_shape_def linked_def)
  obtain a where a: "longest_run (nd_free_pages node) 0 (node_pages node) a"
    "free_runs_loop (Suc (Suc (unat ?e))) (nd_free_pages node) ?e 0 fb = Done (max fb (of_nat a))"
    using free_runs_loop_eq [OF bits, of 0 "Suc (Suc (unat ?e))" fb] unfolding Se by auto
  obtain m where m: "largest_of nodes m" "m < 2 ^ 32"
    "stats_nodes nodes (rs + nd_meta_size node) (max fb (of_nat a)) =
      Done (rs + nd_meta_size node + (\<Sum>n\<leftarrow>nodes. nd_meta_size n), max (max fb (of_nat a)) (of_nat m))"
    using Cons.IH [of "rs + nd_meta_size node" "max fb (of_nat a)"] Cons.prems by auto
  have a32: "a < 2 ^ 32" using a(1) shape(4) by (auto simp: longest_run_def)
  have "largest_of (node # nodes) (max a m)" by (rule largest_of_Cons [OF a(1) m(1)])
  moreover have "max (max fb (of_nat a)) (of_nat m) = max fb (of_nat (max a m) :: count_t)"
    using max_of_nat32 [OF a32 m(2)] by (simp only: max.assoc)
  ultimately show ?case
    using a a32 m by (intro exI [of _ "max a m"]) (simp add: Let_def del: free_runs_loop.simps)
qed

lemma mmap_heap_get_stats_eq:
  assumes inv: "mmap_inv st"
  obtains m where "largest_of (mmap_node_list st) m"
    "mmap_heap_get_stats st = Done
      \<lparr>as_info = 1, as_total = mmap_total_size st,
       as_allocated = mmap_alloc_size st + (cur_brk st - brk_base st),
       as_reserved = (\<Sum>n\<leftarrow>mmap_node_list st. nd_meta_size n),
       as_largest_free = of_nat (4096 * m)\<rparr>"
proof -
  have "\<forall>node \<in> set (mmap_node_list st). sound node" using mmap_inv_node(4) [OF inv] by blast
  then obtain m where m: "largest_of (mmap_node_list st) m" "m < 2 ^ 32"
    "stats_nodes (mmap_node_list st) 0 0 = Done (\<Sum>n\<leftarrow>mmap_node_list st. nd_meta_size n, of_nat m)"
    using stats_nodes_eq [of "mmap_node_list st" 0 0] by (auto simp: max_def)
  have "(ucast (of_nat m :: count_t) :: u64) = of_nat m"
    using m(2) by (intro word_unat_eq_iff [THEN iffD2]) simp
  then show thesis
    using that m(1,3) by (simp add: mmap_heap_get_stats_def PAGE_SIZE_def mult.commute)
qed

end
