(* ===== verification/MmapSpec.thy ===== *)
theory MmapSpec
  imports MmapStats
begin

text \<open>
  The allocator of \<^verbatim>\<open>src/mmap.c\<close> as a state machine, and its properties. A run of the
  machine is any sequence of calls whose callers respect what the C functions expect of them:
  the heaps they add are disjoint pieces of memory, and what they unmap is mapped. Every call
  then keeps the invariant \<open>mmap_inv\<close>.
\<close>

section \<open>The state machine\<close>

definition page_range :: "uintptr_t \<Rightarrow> size_t \<Rightarrow> nat set" where
  "page_range addr len = {unat addr div 4096..<unat addr div 4096 + unat len div 4096}"

inductive mmap_step :: "mmap_state \<Rightarrow> mmap_state \<Rightarrow> bool" where
  step_brk: "mmap_step st (snd (sys_brk brk st))"
| step_mmap: "sys_mmap addr len prot flags fd off st = Done (r, st') \<Longrightarrow> mmap_step st st'"
| step_munmap: "sys_munmap addr len st = Done (e, st') \<Longrightarrow>
    (e = 0 \<Longrightarrow> page_range addr len \<subseteq> mapped_pages st) \<Longrightarrow> mmap_step st st'"
| step_add_heap: "mmap_add_heap base sz is_brk st = Done (e, st') \<Longrightarrow> new_heap base sz st \<Longrightarrow>
    mmap_step st st'"
| step_remove_heap: "mmap_remove_heap base sz st = Done (e, st') \<Longrightarrow> mmap_step st st'"

inductive_cases mmap_stepE: "mmap_step st st'"

inductive mmap_reachable :: "mmap_state \<Rightarrow> bool" where
  reach_initial: "mmap_reachable (mmap_initial m)"
| reach_step: "mmap_reachable st \<Longrightarrow> mmap_step st st' \<Longrightarrow> mmap_reachable st'"

section \<open>Each call keeps the invariant\<close>

definition mmap_args_ok :: "uintptr_t \<Rightarrow> size_t \<Rightarrow> u32 \<Rightarrow> u32 \<Rightarrow> int \<Rightarrow> size_t \<Rightarrow> bool" where
  "mmap_args_ok addr len prot flags fd off \<longleftrightarrow>
     addr = 0 \<and> len \<noteq> 0 \<and> unat len mod 4096 = 0 \<and> flags = MMAP_ANON_PRIVATE \<and> prot = MMAP_RW \<and>
     fd = - 1 \<and> off = 0"

lemma sys_mmap_cases:
  "mmap_args_ok addr len prot flags fd off \<Longrightarrow>
     sys_mmap addr len prot flags fd off st = alloc_mmap len st"
  "\<not> mmap_args_ok addr len prot flags fd off \<Longrightarrow>
     \<exists>logs. sys_mmap addr len prot flags fd off st =
       Done (- of_int EINVAL, st\<lparr>mm_logs := mm_logs st @ logs\<rparr>)"
  by (auto simp: sys_mmap_def mmap_args_ok_def util_is_baligned_page mm_log_def)

lemma page_count: "len \<noteq> 0 \<Longrightarrow> unat len mod 4096 = 0 \<Longrightarrow>
    unat len = 4096 * (unat len div 4096) \<and> 0 < unat len div 4096"
  for len :: size_t
  using unat_gt_0 [of len] by (auto elim!: dvdE)

lemma sys_mmap_inv:
  assumes "mmap_inv st" "sys_mmap addr len prot flags fd off st = Done (r, st')"
  shows "mmap_inv st'"
proof (cases "mmap_args_ok addr len prot flags fd off")
  case True
  then have "unat len = 4096 * (unat len div 4096)" "0 < unat len div 4096"
    using page_count [of len] by (auto simp: mmap_args_ok_def)
  from alloc_mmap_contract [OF assms(1) this] assms(2) sys_mmap_cases(1) [OF True, of st]
  show ?thesis using assms(1) by (auto split: option.splits)
next
  case False
  with sys_mmap_cases(2) [OF False, of st] assms show ?thesis by auto
qed

lemma sys_munmap_error: "sys_munmap addr len st = Done (e, st') \<Longrightarrow> e \<noteq> 0 \<Longrightarrow> st' = st"
  by (auto simp: sys_munmap_def free_mmap_def outcome_Done split: if_splits option.splits)

lemma sys_munmap_done:
  assumes "mmap_inv st" "sys_munmap addr len st = Done (0, st')"
  shows "0 < unat addr div 4096" "0 < unat len div 4096"
    "unat addr = 4096 * (unat addr div 4096)" "unat len = 4096 * (unat len div 4096)"
    "unat addr div 4096 + unat len div 4096 < 2 ^ 52"
    "\<exists>node \<in> set (mmap_node_list st). holds_pages (unat addr div 4096) (unat len div 4096) node"
proof -
  have g: "addr \<noteq> 0" "len \<noteq> 0" "unat addr mod 4096 = 0" "unat len mod 4096 = 0"
    "unat addr + unat len < 2 ^ 64"
    using assms(2) by (auto simp: sys_munmap_def util_is_baligned_page util_add_overflows_iff split: if_splits)
  show a: "0 < unat addr div 4096" "0 < unat len div 4096"
    "unat addr = 4096 * (unat addr div 4096)" "unat len = 4096 * (unat len div 4096)"
    using page_count [of addr] page_count [of len] g by simp_all
  have "4096 * (unat addr div 4096 + unat len div 4096) < 4096 * 2 ^ 52"
    using g(3-5) by (simp add: distrib_left)
  then show r: "unat addr div 4096 + unat len div 4096 < 2 ^ 52" by simp
  show "\<exists>node \<in> set (mmap_node_list st). holds_pages (unat addr div 4096) (unat len div 4096) node"
  proof (rule ccontr)
    assume "\<not> ?thesis"
    then have "sys_munmap addr len st = Done (- EINVAL, st)"
      using munmap_foreign [OF assms(1) a(3,4,1,2) r] by blast
    with assms(2) show False by simp
  qed
qed

lemma sys_munmap_inv:
  assumes "mmap_inv st" "sys_munmap addr len st = Done (e, st')"
    "e = 0 \<Longrightarrow> page_range addr len \<subseteq> mapped_pages st"
  shows "mmap_inv st'"
proof (cases "e = 0")
  case True
  note d = sys_munmap_done [OF assms(1) assms(2) [unfolded True]]
  then obtain node where node: "node \<in> set (mmap_node_list st)"
    "holds_pages (unat addr div 4096) (unat len div 4096) node" by blast
  obtain st2 where "sys_munmap addr len st = Done (0, st2)" "mmap_inv st2"
    using munmap_mapped [OF assms(1) d(3,4,1,2,5) node] assms(3) [OF True]
    by (auto simp: page_range_def)
  with assms(2) show ?thesis by simp
next
  case False
  with sys_munmap_error assms(1,2) show ?thesis by blast
qed

lemma new_heap_not_brk:
  assumes "mmap_inv st" "new_heap base sz st"
  shows "base \<noteq> mmap_brk_node st"
proof
  assume eq: "base = mmap_brk_node st"
  then have "mmap_brk_node st \<noteq> 0" using assms(2) by (simp add: new_heap_def)
  then obtain x where x: "x \<in> set (mmap_node_list st)" "nd_base x = base"
    using assms(1) eq by (auto simp: mmap_inv_def brk_ok_def)
  then have "unat base + unat (nd_size x) \<le> unat base \<or> unat base + unat sz \<le> unat base"
    using assms(2) by (auto simp: new_heap_def)
  moreover have "0 < unat sz" using assms(2) by (simp add: new_heap_def unat_gt_0)
  moreover have "0 < unat (nd_size x)"
    using node_shapeD(2,5) [OF mmap_inv_node(2) [OF assms(1) x(1)]] by simp
  ultimately show False by simp
qed

lemma add_heap_inv:
  assumes "mmap_inv st" "mmap_add_heap base sz is_brk st = Done (e, st')" "new_heap base sz st"
  shows "mmap_inv st'" "mapped_pages st' = mapped_pages st"
proof -
  have "mmap_inv st' \<and> mapped_pages st' = mapped_pages st"
  proof (cases "aligned_meta sz < sz")
    case False
    then have "sz \<le> aligned_meta sz" by simp
    from add_heap_small [OF assms(3) this, of is_brk] assms(1,2) show ?thesis by simp
  next
    case small: True
    show ?thesis
    proof (cases is_brk)
      case True
      then have "mmap_brk_node st = 0"
        using add_heap_brk_twice [OF assms(3) small] assms(2) by fastforce
      from add_heap_brk [OF assms(1,3) small this] assms(2) True show ?thesis by auto
    next
      case plain: False
      have "base \<noteq> mmap_brk_node st" by (rule new_heap_not_brk [OF assms(1,3)])
      from add_heap_plain [OF assms(1,3) small this] assms(2) plain show ?thesis by auto
    qed
  qed
  then show "mmap_inv st'" "mapped_pages st' = mapped_pages st" by simp_all
qed

lemma remove_heap_inv:
  assumes "mmap_inv st" "mmap_remove_heap base sz st = Done (e, st')"
  shows "mmap_inv st'" "mapped_pages st' = mapped_pages st"
proof -
  have "mmap_inv st' \<and> mapped_pages st' = mapped_pages st"
  proof (cases "\<exists>node \<in> set (mmap_node_list st).
      nd_base node = base \<and> nd_size node = sz \<and> nd_base node \<noteq> mmap_brk_node st")
    case True
    then obtain node where node: "node \<in> set (mmap_node_list st)" "nd_base node = base"
      "nd_size node = sz" "nd_base node \<noteq> mmap_brk_node st" by blast
    then show ?thesis
      using remove_heap_busy [OF assms(1) node(1,4)] remove_heap_free [OF assms(1) node(1,4)] assms
      by (cases "node_pages_mapped st node = {}") auto
  next
    case False
    have "sz \<noteq> 0" "unat base mod 4096 = 0" "unat sz mod 4096 = 0" "unat base + unat sz < 2 ^ 64"
      using assms(2) by (auto simp: mmap_remove_heap_def is_mmap_node_free_def outcome_Done
          util_is_baligned_page util_add_overflows_iff)
    from remove_heap_unknown [OF this] False assms show ?thesis by auto
  qed
  then show "mmap_inv st'" "mapped_pages st' = mapped_pages st" by simp_all
qed

lemma mmap_step_inv: "mmap_step st st' \<Longrightarrow> mmap_inv st \<Longrightarrow> mmap_inv st'"
  by (elim mmap_stepE)
    (auto intro: sys_brk_inv sys_mmap_inv sys_munmap_inv add_heap_inv remove_heap_inv)

lemma mmap_reachable_inv: "mmap_reachable st \<Longrightarrow> mmap_inv st"
  by (induction rule: mmap_reachable.induct) (auto intro: mmap_inv_initial mmap_step_inv)

section \<open>A concrete heap\<close>

text \<open>
  A heap of 16 pages at \<open>0x100000\<close> that holds the program break, and a second one of 8 pages
  at \<open>0x200000\<close>: the states used to instantiate the properties below.
\<close>

definition state_of :: "(int \<times> mmap_state) outcome \<Rightarrow> mmap_state" where
  "state_of r = (case r of Done (e, st) \<Rightarrow> st | Fault f \<Rightarrow> mmap_initial (\<lambda>_. 0))"

definition brk_heap :: mmap_state where
  "brk_heap = state_of (mmap_add_heap 0x100000 0x10000 True (mmap_initial (\<lambda>_. 0xff)))"

definition two_heaps :: mmap_state where
  "two_heaps = state_of (mmap_add_heap 0x200000 0x8000 False brk_heap)"

lemma aligned_meta_examples: "aligned_meta 0x10000 = 0x1000" "aligned_meta 0x8000 = 0x1000"
  by code_simp+

lemma brk_heap_new: "new_heap 0x100000 0x10000 (mmap_initial m)"
  by (simp add: new_heap_def mmap_initial_def heap_bytes_def)

lemma brk_heap_add:
  "mmap_add_heap 0x100000 0x10000 True (mmap_initial (\<lambda>_. 0xff)) = Done (0, brk_heap)"
  "mmap_inv brk_heap" "mapped_pages brk_heap = {}" "brk_base brk_heap = 0x101000"
  "cur_brk brk_heap = 0x101000" "brk_top brk_heap = 0x110000"
  using add_heap_brk [OF mmap_inv_initial brk_heap_new [of "\<lambda>_. 0xff"]]
  by (auto simp: brk_heap_def state_of_def aligned_meta_examples mmap_initial_def mapped_pages_def)

lemma brk_heap_nodes: "mmap_node_list brk_heap = [fresh_node 0x100000 0x10000 16 0x1000]"
  by code_simp

lemma two_heaps_new: "new_heap 0x200000 0x8000 brk_heap"
  by (simp add: new_heap_def brk_heap_nodes fresh_node_def heap_bytes_def)

lemma two_heaps_nodes: "mmap_node_list two_heaps =
    [fresh_node 0x100000 0x10000 16 0x1000,
     (fresh_node 0x200000 0x8000 8 0x1000)\<lparr>nd_avail_blocks := [1], nd_free_pages := [0xfe]\<rparr>]"
  by code_simp

lemma brk_heap_brk_node: "mmap_brk_node brk_heap = 0x100000"
  by code_simp

lemma two_heaps_add: "mmap_add_heap 0x200000 0x8000 False brk_heap = Done (0, two_heaps)"
  "mmap_inv two_heaps" "mapped_pages two_heaps = {}"
  using add_heap_plain [OF brk_heap_add(2) two_heaps_new]
  by (auto simp: two_heaps_def state_of_def aligned_meta_examples brk_heap_brk_node brk_heap_add)

lemma two_heaps_break: "brk_base two_heaps = 0x101000" "cur_brk two_heaps = 0x101000"
  "brk_top two_heaps = 0x110000" "mmap_brk_node two_heaps = 0x100000"
  by code_simp+

lemma second_heap_pages:
  "bm_test [0xfe] 0 = False" "bm_test [0xfe] (Suc 0) = True" "bm_test [0xfe] 2 = True" "bm_test [0xfe] (Suc (Suc 0)) = True"
  by code_simp+

lemma two_heaps_alloc_page: "alloc_page two_heaps 2 = Some 0x201"
proof -
  have first: "first_fit (fresh_node 0x100000 0x10000 16 0x1000) 2 = None"
    by (auto simp: first_fit_def find_None_iff run_free_def fresh_node_def)
  have second: "first_fit ((fresh_node 0x200000 0x8000 8 0x1000)
      \<lparr>nd_avail_blocks := [1], nd_free_pages := [0xfe]\<rparr>) 2 = Some 1"
    by (simp add: first_fit_def node_pages_def fresh_node_def run_free_code upt_rec second_heap_pages)
  show ?thesis
    by (simp add: alloc_page_def two_heaps_nodes first second)
      (simp add: base_page_def fresh_node_def)
qed

section \<open>Properties of the allocator\<close>

text \<open>C1: \<open>sys_mmap\<close> with the arguments it supports is a first-fit allocator. It returns the page
  that the specification \<open>alloc_page\<close> names: the lowest run of free pages in the first heap of
  the list that has one, else the top of the program break. The pages returned were not
  mapped, lie in one heap outside its metadata and outside the program break, and read as
  zero; no other byte of memory changes. Where the specification has no page, the call returns
  \<open>-ENOMEM\<close> and changes nothing but the log. No assertion fails in either case.\<close>

theorem sys_mmap_spec:
  assumes "mmap_inv st" "len \<noteq> 0" "unat len mod 4096 = 0"
  shows "case alloc_page st (unat len div 4096) of
      None \<Rightarrow> \<exists>logs. sys_mmap 0 len MMAP_RW MMAP_ANON_PRIVATE (- 1) 0 st =
        Done (- of_int ENOMEM, st\<lparr>mm_logs := mm_logs st @ logs\<rparr>)
    | Some p \<Rightarrow> \<exists>addr st'. sys_mmap 0 len MMAP_RW MMAP_ANON_PRIVATE (- 1) 0 st = Done (addr, st') \<and>
        unat addr = 4096 * p \<and> takes_pages p (unat len div 4096) st st' \<and> mmap_inv st'"
proof -
  have eq: "sys_mmap 0 len MMAP_RW MMAP_ANON_PRIVATE (- 1) 0 st = alloc_mmap len st"
    using assms(2,3) by (intro sys_mmap_cases(1)) (simp add: mmap_args_ok_def)
  have "unat len = 4096 * (unat len div 4096)" "0 < unat len div 4096"
    using page_count [OF assms(2,3)] by blast+
  from alloc_mmap_contract [OF assms(1) this] show ?thesis unfolding eq .
qed

theorem sys_mmap_spec_witness:
  "\<exists>addr st'. sys_mmap 0 0x2000 MMAP_RW MMAP_ANON_PRIVATE (- 1) 0 two_heaps = Done (addr, st') \<and>
     unat addr = 4096 * 0x201 \<and> takes_pages 0x201 2 two_heaps st' \<and> mmap_inv st'"
  using sys_mmap_spec [OF two_heaps_add(2), of "0x2000"] by (simp add: two_heaps_alloc_page)

lemma mapping_unmaps:
  assumes inv: "mmap_inv st" and len: "len \<noteq> 0" "unat len mod 4096 = 0"
    and room: "alloc_page st (unat len div 4096) = Some p"
  obtains addr st1 st2 where
    "sys_mmap 0 len MMAP_RW MMAP_ANON_PRIVATE (- 1) 0 st = Done (addr, st1)"
    "sys_munmap addr len st1 = Done (0, st2)" "mmap_inv st2"
    "mapped_pages st2 = mapped_pages st" "mmap_alloc_size st2 = mmap_alloc_size st"
    "\<And>a. mm_mem st2 a = (if unat a div 4096 \<in> page_range addr len then 0 else mm_mem st a)"
proof -
  let ?n = "unat len div 4096"
  have n: "unat len = 4096 * ?n" "0 < ?n" using page_count [OF len] by simp_all
  have eq: "sys_mmap 0 len MMAP_RW MMAP_ANON_PRIVATE (- 1) 0 st = alloc_mmap len st"
    using len by (intro sys_mmap_cases(1)) (simp add: mmap_args_ok_def)
  obtain addr st1 where a: "alloc_mmap len st = Done (addr, st1)" "unat addr = 4096 * p"
    "takes_pages p ?n st st1" "mmap_inv st1"
    using alloc_mmap_contract [OF inv n] room by auto
  then obtain node where node: "node \<in> set (mmap_node_list st1)" "holds_pages p ?n node"
    and p: "0 < p" "p + ?n < 2 ^ 52" and sub: "{p..<p + ?n} \<subseteq> mapped_pages st1"
    by (auto simp: takes_pages_def)
  obtain st2 where st2: "sys_munmap addr len st1 = Done (0, st2)" "gives_pages p ?n st1 st2" "mmap_inv st2"
    using munmap_mapped [OF a(4,2) n(1) p(1) n(2) p(2) node sub] by blast
  then have m: "mapped_pages st2 = mapped_pages st"
    using a(3) unfolding gives_pages_def takes_pages_def by blast
  then have "mmap_alloc_size st2 = mmap_alloc_size st"
    using inv st2(3) by (intro word_unat_eq_iff [THEN iffD2]) (simp add: mmap_inv_def)
  moreover have "mm_mem st2 b = (if unat b div 4096 \<in> page_range addr len then 0 else mm_mem st b)" for b
    using a(2,3) st2(2) by (simp add: takes_pages_def gives_pages_def page_range_def)
  ultimately show thesis
    by (intro that [OF _ st2(1,3) m]) (simp_all only: eq a(1))
qed

text \<open>C3: unmapping what \<open>sys_mmap\<close> returned succeeds and undoes the mapping: the set of mapped
  pages and the allocation counter are those of the state before the two calls, and only the
  bytes of the range have changed.\<close>

theorem mmap_munmap_roundtrip:
  assumes "mmap_inv st" "len \<noteq> 0" "unat len mod 4096 = 0"
    "alloc_page st (unat len div 4096) \<noteq> None"
  shows "\<exists>addr st1 st2. sys_mmap 0 len MMAP_RW MMAP_ANON_PRIVATE (- 1) 0 st = Done (addr, st1) \<and>
    sys_munmap addr len st1 = Done (0, st2) \<and> mmap_inv st2 \<and>
    mapped_pages st2 = mapped_pages st \<and> mmap_alloc_size st2 = mmap_alloc_size st \<and>
    (\<forall>a. mm_mem st2 a = (if unat a div 4096 \<in> page_range addr len then 0 else mm_mem st a))"
proof -
  obtain p where "alloc_page st (unat len div 4096) = Some p" using assms(4) by blast
  from mapping_unmaps [OF assms(1-3) this] show ?thesis by metis
qed

theorem mmap_munmap_roundtrip_witness:
  "\<exists>addr st1 st2. sys_mmap 0 0x2000 MMAP_RW MMAP_ANON_PRIVATE (- 1) 0 two_heaps = Done (addr, st1) \<and>
    sys_munmap addr 0x2000 st1 = Done (0, st2) \<and> mapped_pages st2 = {}"
  using mmap_munmap_roundtrip [OF two_heaps_add(2), of "0x2000"]
  by (fastforce simp: two_heaps_alloc_page two_heaps_add(3))

text \<open>C2: the outcome of \<open>sys_munmap\<close> on a page-aligned range is decided by the state of its pages.
  A range that no single heap holds is refused with \<open>-EINVAL\<close>; a range with a free page in it
  stops in a failed assertion (a double free is caught); a range of mapped pages is
  unmapped, exactly those pages and no others, and its pages are free afterwards.\<close>

theorem sys_munmap_spec:
  assumes "mmap_inv st" "unat addr = 4096 * p" "unat len = 4096 * n" "0 < p" "0 < n" "p + n < 2 ^ 52"
  shows "((\<forall>node \<in> set (mmap_node_list st). \<not> holds_pages p n node) \<longrightarrow>
      sys_munmap addr len st = Done (- EINVAL, st)) \<and>
    ((\<exists>node \<in> set (mmap_node_list st). holds_pages p n node) \<and> {p..<p + n} \<inter> free_pages st \<noteq> {} \<longrightarrow>
      sys_munmap addr len st = Fault AssertionFailed) \<and>
    ((\<exists>node \<in> set (mmap_node_list st). holds_pages p n node) \<and> {p..<p + n} \<subseteq> mapped_pages st \<longrightarrow>
      (\<exists>st'. sys_munmap addr len st = Done (0, st') \<and> gives_pages p n st st' \<and> mmap_inv st'))"
proof (intro conjI impI; (elim conjE bexE)?)
  show "sys_munmap addr len st = Done (- EINVAL, st)"
    if "\<forall>node \<in> set (mmap_node_list st). \<not> holds_pages p n node"
    using munmap_foreign [OF assms that] .
  show "sys_munmap addr len st = Fault AssertionFailed"
    if "{p..<p + n} \<inter> free_pages st \<noteq> {}" "node \<in> set (mmap_node_list st)" "holds_pages p n node" for node
    using munmap_free_page [OF assms that(2,3)] that(1) by fastforce
  show "\<exists>st'. sys_munmap addr len st = Done (0, st') \<and> gives_pages p n st st' \<and> mmap_inv st'"
    if "{p..<p + n} \<subseteq> mapped_pages st" "node \<in> set (mmap_node_list st)" "holds_pages p n node" for node
    using munmap_mapped [OF assms that(2,3,1)] by blast
qed

theorem sys_munmap_spec_witness:
  "sys_munmap 0x300000 0x1000 two_heaps = Done (- EINVAL, two_heaps) \<and>
   sys_munmap 0x202000 0x1000 two_heaps = Fault AssertionFailed"
proof -
  have "\<forall>node \<in> set (mmap_node_list two_heaps). \<not> holds_pages 0x300 1 node"
    by (simp add: two_heaps_nodes holds_pages_def fresh_node_def base_page_def end_page_def node_pages_def)
  then have 1: "sys_munmap 0x300000 0x1000 two_heaps = Done (- EINVAL, two_heaps)"
    using sys_munmap_spec [OF two_heaps_add(2), of "0x300000" "0x300" "0x1000" 1] by simp
  have "\<exists>node \<in> set (mmap_node_list two_heaps). holds_pages 0x202 1 node"
    by (simp add: two_heaps_nodes holds_pages_def fresh_node_def base_page_def end_page_def node_pages_def)
  moreover have "0x202 \<in> free_pages two_heaps"
    by (simp add: free_pages_def two_heaps_nodes fresh_node_def base_page_def end_page_def
        node_pages_def second_heap_pages)
  moreover have "(0x202 :: nat) \<in> {0x202..<0x203}" by simp
  ultimately have "{0x202..<0x203} \<inter> free_pages two_heaps \<noteq> {}"
    "\<exists>node \<in> set (mmap_node_list two_heaps). holds_pages 0x202 1 node" by blast+
  then have "sys_munmap 0x202000 0x1000 two_heaps = Fault AssertionFailed"
    using sys_munmap_spec [OF two_heaps_add(2), of "0x202000" "0x202" "0x1000" 1,
        THEN conjunct2, THEN conjunct1] by simp
  with 1 show ?thesis ..
qed


lemma two_heaps_reachable: "mmap_reachable two_heaps"
  using reach_step [OF reach_step [OF reach_initial step_add_heap [OF brk_heap_add(1) brk_heap_new]]
      step_add_heap [OF two_heaps_add(1) two_heaps_new]] .


text \<open>C38: \<open>sys_brk\<close> moves the break to the requested address rounded up to a page exactly when
  that lies between the bounds of the break, returns the break in force, keeps it page aligned
  and inside the bounds, and leaves the break alone otherwise; mapped pages are not
  affected.\<close>

theorem sys_brk_spec:
  assumes "mmap_inv st" "sys_brk brk st = (r, st')"
  shows "r = cur_brk st' \<and> brk_base st \<le> r \<and> r \<le> brk_top st \<and> unat r mod 4096 = 0 \<and>
    (brk_base st \<le> brk \<and> brk \<le> brk_top st \<longrightarrow> unat r = 4096 * ((unat brk + 4095) div 4096)) \<and>
    (\<not> brk_accepts st brk \<longrightarrow> r = cur_brk st) \<and>
    mapped_pages st' = mapped_pages st \<and> mmap_inv st'"
proof -
  have brk: "brk_base st \<le> cur_brk st" "cur_brk st \<le> brk_top st" "unat (cur_brk st) mod 4096 = 0"
    "unat (brk_top st) mod 4096 = 0" "unat (brk_base st) mod 4096 = 0"
    using assms(1) by (simp_all add: mmap_inv_def brk_ok_def)
  have within: "brk_accepts st brk \<and> unat (util_balign_up brk PAGE_SIZE) = 4096 * ((unat brk + 4095) div 4096)"
    if "brk_base st \<le> brk" "brk \<le> brk_top st"
  proof -
    obtain k where k: "unat (brk_top st) = 4096 * k" using brk(4) by auto
    then have "k < 2 ^ 52" using unat_lt64 [of "brk_top st"] by simp
    moreover have le: "unat brk \<le> 4096 * k" using that(2) k by (simp add: word_le_nat_alt)
    ultimately have up: "unat (util_balign_up brk PAGE_SIZE) = 4096 * ((unat brk + 4095) div 4096)"
      by (intro unat_balign_up_page) simp
    moreover have "(unat brk + 4095) div 4096 \<le> k" using le by simp
    moreover have "unat brk \<le> 4096 * ((unat brk + 4095) div 4096)"
      using dividend_less_times_div [of 4096 "unat brk + 4095"] by simp
    ultimately show ?thesis
      using that(1) k by (auto simp: brk_accepts_def word_le_nat_alt)
  qed
  have inv': "mmap_inv st'" "mapped_pages st' = mapped_pages st"
    using sys_brk_inv [OF assms(1), of brk] assms(2) by simp_all
  show ?thesis
  proof (cases "brk_accepts st brk")
    case True
    then have "r = util_balign_up brk PAGE_SIZE" "st' = st\<lparr>cur_brk := r\<rparr>"
      using assms(2) by (auto simp: sys_brk_eq)
    with True within inv' balign_up_aligned [of brk] show ?thesis by (simp add: brk_accepts_def)
  next
    case False
    then have "r = cur_brk st" "cur_brk st' = cur_brk st"
      using assms(2) by (auto simp: sys_brk_eq mm_log_def split: if_splits)
    with False within inv' brk show ?thesis by auto
  qed
qed

theorem sys_brk_spec_witness:
  "fst (sys_brk 0x104001 two_heaps) = 0x105000 \<and> fst (sys_brk 0x120000 two_heaps) = 0x101000"
proof -
  obtain r st' where eq: "sys_brk 0x104001 two_heaps = (r, st')" by fastforce
  have "unat (fst (sys_brk 0x104001 two_heaps)) = unat (0x105000 :: u64)"
    using sys_brk_spec [OF two_heaps_add(2) eq] unfolding eq two_heaps_break by auto
  then have 1: "fst (sys_brk 0x104001 two_heaps) = 0x105000" by (simp only: word_unat_eq_iff)
  have "\<not> brk_accepts two_heaps 0x120000"
    unfolding brk_accepts_def two_heaps_break by code_simp
  then have "fst (sys_brk 0x120000 two_heaps) = 0x101000"
    using sys_brk_spec [OF two_heaps_add(2) prod.collapse [symmetric]] two_heaps_break(2) by metis
  with 1 show ?thesis ..
qed

text \<open>\<open>mmap_remove_heap\<close> removes a heap exactly when none of its pages is mapped, and otherwise
  answers \<open>-EBUSY\<close> and changes nothing. A removal takes that heap out of the list, keeps the
  others in order and keeps the allocator well formed.\<close>

theorem mmap_remove_heap_spec:
  assumes "mmap_inv st" "node \<in> set (mmap_node_list st)" "nd_base node \<noteq> mmap_brk_node st"
  shows "if node_pages_mapped st node = {}
    then \<exists>st'. mmap_remove_heap (nd_base node) (nd_size node) st = Done (0, st') \<and> mmap_inv st' \<and>
      mapped_pages st' = mapped_pages st \<and>
      mmap_node_list st' = remove1 node (mmap_node_list st) \<and> node \<notin> set (mmap_node_list st')
    else mmap_remove_heap (nd_base node) (nd_size node) st = Done (- EBUSY, st)"
  using remove_heap_free [OF assms] remove_heap_busy [OF assms] by simp

theorem mmap_remove_heap_spec_witness:
  "\<exists>st'. mmap_remove_heap 0x200000 0x8000 two_heaps = Done (0, st') \<and> mmap_inv st'"
proof -
  let ?node = "(fresh_node 0x200000 0x8000 8 0x1000)\<lparr>nd_avail_blocks := [1], nd_free_pages := [0xfe]\<rparr>"
  have n: "?node \<in> set (mmap_node_list two_heaps)" by (simp add: two_heaps_nodes)
  moreover have b: "nd_base ?node \<noteq> mmap_brk_node two_heaps"
    by (simp add: fresh_node_def two_heaps_break)
  moreover have "node_pages_mapped two_heaps ?node = {}"
    using node_pages_mapped_subset [OF n] two_heaps_add(3) by simp
  moreover have "nd_base ?node = 0x200000" "nd_size ?node = 0x8000" by (simp_all add: fresh_node_def)
  ultimately show ?thesis
    using mmap_remove_heap_spec [OF two_heaps_add(2) n b] by auto
qed

text \<open>The program break and the mapped pages do not overlap, and together they fit the address space.\<close>

lemma mapped_brk_disjoint:
  assumes "mmap_inv st"
  shows "mapped_pages st \<inter> brk_pages st = {}"
proof -
  have False if q: "q \<in> mapped_pages st" "q \<in> brk_pages st" for q
  proof -
    obtain x where x: "x \<in> set (mmap_node_list st)"
      "base_page x + unat (nd_meta_size x) div 4096 \<le> q" "q < end_page x"
      "node_mapped (mmap_brk_node st) (brk_top st) x q"
      by (rule mapped_page_node [OF assms q(1)])
    obtain k where k: "k \<in> set (mmap_node_list st)" "nd_base k = mmap_brk_node st"
      "base_page k \<le> q" "q < end_page k" "q + 1 \<le> unat (brk_top st) div 4096"
      by (rule brk_pages_in_node [OF assms q(2)])
    show False
    proof (cases "nd_base x = mmap_brk_node st")
      case True
      then show False using x(4) k(5) by (simp add: node_mapped_def lo_page_def)
    next
      case False
      obtain xs ys where list: "mmap_node_list st = xs @ x # ys"
        using x(1) by (auto simp: in_set_conv_decomp)
      have "k \<in> set (xs @ ys)" using k(1,2) False list by auto
      from other_node_pages [OF assms list this k(3,4)] x(2,3) show False by simp
    qed
  qed
  then show ?thesis by blast
qed

lemma allocated_bytes_fit:
  assumes "mmap_inv st"
  shows "4096 * card (mapped_pages st) + (unat (cur_brk st) - unat (brk_base st)) < 2 ^ 64"
proof -
  have sub: "mapped_pages st \<union> brk_pages st \<subseteq> {..<2 ^ 52 - 1}"
    using mapped_bound [OF assms] brk_pages_bound [OF assms] by blast
  have "card (mapped_pages st) + card (brk_pages st) = card (mapped_pages st \<union> brk_pages st)"
    using mapped_brk_disjoint [OF assms] finite_mapped_pages(1) [OF assms] by (simp add: card_Un_disjoint brk_pages_def)
  also have "\<dots> \<le> 2 ^ 52 - 1" using card_mono [OF _ sub] by simp
  finally show ?thesis
    using brk_pages_card [OF assms] by simp
qed

text \<open>C39: \<open>mmap_heap_get_stats\<close> returns (its search loops end, and no assertion in them fails) and
  reports the total size of the heaps, the size of the mapped pages plus the extent of the
  program break, the metadata of all heaps, and the length of the longest run of free pages
  of any heap.\<close>

theorem mmap_heap_get_stats_spec:
  assumes "mmap_inv st"
  shows "\<exists>m stats. mmap_heap_get_stats st = Done stats \<and> largest_of (mmap_node_list st) m \<and>
    unat (as_total stats) = heap_bytes (mmap_node_list st) \<and>
    unat (as_allocated stats) =
      4096 * card (mapped_pages st) + (unat (cur_brk st) - unat (brk_base st)) \<and>
    as_reserved stats = (\<Sum>n\<leftarrow>mmap_node_list st. nd_meta_size n) \<and>
    as_largest_free stats = of_nat (4096 * m)"
proof -
  obtain m where m: "largest_of (mmap_node_list st) m"
    "mmap_heap_get_stats st = Done
      \<lparr>as_info = 1, as_total = mmap_total_size st,
       as_allocated = mmap_alloc_size st + (cur_brk st - brk_base st),
       as_reserved = (\<Sum>n\<leftarrow>mmap_node_list st. nd_meta_size n),
       as_largest_free = of_nat (4096 * m)\<rparr>"
    by (rule mmap_heap_get_stats_eq [OF assms])
  have brk: "unat (brk_base st) \<le> unat (cur_brk st)" and alloc: "unat (mmap_alloc_size st) = 4096 * card (mapped_pages st)"
    and tot: "unat (mmap_total_size st) = heap_bytes (mmap_node_list st)"
    using assms by (simp_all add: mmap_inv_def brk_ok_def word_le_nat_alt)
  have "unat (mmap_alloc_size st + (cur_brk st - brk_base st)) =
      4096 * card (mapped_pages st) + (unat (cur_brk st) - unat (brk_base st))"
    using alloc brk allocated_bytes_fit [OF assms] by (simp add: unat_add_fits unat_sub_fits)
  with m tot show ?thesis by auto
qed

theorem mmap_heap_get_stats_spec_witness:
  "\<exists>stats. mmap_heap_get_stats two_heaps = Done stats \<and> as_reserved stats = 0x2000"
  using mmap_heap_get_stats_spec [OF two_heaps_add(2)]
  by (auto simp: two_heaps_nodes fresh_node_def)

end
