(* ===== verification/StringFmt.thy ===== *)
theory StringFmt
  imports CMachine
begin

text \<open>
  The string formatter of \<^verbatim>\<open>src/string_util.c\<close>: the parser of format descriptors, the
  conversions of integers and strings, and \<open>snprint\<close>. A C string is a \<open>string\<close> without its
  terminating \<open>NUL\<close>; a pointer into the format is an offset. The conversions build the bytes
  they have written from \<open>buf\<close> on as a list, and every store is checked against the number of
  bytes \<open>cap\<close> that the object behind \<open>buf\<close> has, so a store past the end of the buffer is a
  \<open>BadAccess\<close>. An argument of type string is an address; the function \<open>str_at\<close> gives the C
  string stored there.
\<close>

section \<open>Types\<close>

abbreviation (input) "OK \<equiv> (0 :: int)"
abbreviation (input) "ERROR_STRING_TRUNCATED \<equiv> (90 :: int)"
abbreviation (input) "ERROR_STRING_REACHED_END \<equiv> (91 :: int)"
abbreviation (input) "ERROR_STRING_INVALID_FORMAT \<equiv> (92 :: int)"
abbreviation (input) "ERROR_STRING_MISSING_PLACEHOLDER \<equiv> (93 :: int)"
abbreviation (input) "ERROR_STRING_MISSING_ARGUMENT \<equiv> (94 :: int)"

abbreviation (input) "MAX_ARG_CNT \<equiv> (5 :: nat)"

abbreviation (input) "STAGE_START \<equiv> (0 :: nat)"
abbreviation (input) "STAGE_SPECIFIER_START \<equiv> (1 :: nat)"
abbreviation (input) "STAGE_ALIGN \<equiv> (2 :: nat)"
abbreviation (input) "STAGE_SIGN \<equiv> (3 :: nat)"
abbreviation (input) "STAGE_ALTERNATIVE \<equiv> (4 :: nat)"
abbreviation (input) "STAGE_ZERO_PADDING \<equiv> (5 :: nat)"
abbreviation (input) "STAGE_MINWIDTH \<equiv> (6 :: nat)"
abbreviation (input) "STAGE_PRECISE \<equiv> (7 :: nat)"
abbreviation (input) "STAGE_TYPE \<equiv> (8 :: nat)"
abbreviation (input) "STAGE_END \<equiv> (9 :: nat)"

datatype align_t = ALIGN_DEFAULT | ALIGN_LEFT | ALIGN_RIGHT | ALIGN_AFTER_SIGN | ALIGN_CENTER
datatype sign_t = SIGN_NEG | SIGN_BOTH | SIGN_POS_LEADING
datatype var_type_t =
  VAR_TYPE_NONE | VAR_TYPE_BIN | VAR_TYPE_DEC | VAR_TYPE_OCTAL | VAR_TYPE_LOW_HEX | VAR_TYPE_STRING

record fmt_info_t =
  fi_type :: var_type_t
  fill_char :: char
  alternate_form :: bool
  zero_padding :: bool
  alignment :: align_t
  fi_sign :: sign_t
  min_width :: size_t
  precise :: size_t
  minwidth_start :: "nat option"
  precise_start :: "nat option"

definition fmt_info_zero :: fmt_info_t where
  "fmt_info_zero =
     \<lparr>fi_type = VAR_TYPE_NONE, fill_char = NUL, alternate_form = False, zero_padding = False,
      alignment = ALIGN_DEFAULT, fi_sign = SIGN_NEG, min_width = 0, precise = 0,
      minwidth_start = None, precise_start = None\<rparr>"

datatype ret_token_t =
  RET_TOKEN_NEXT_CHAR | RET_TOKEN_NEXT_STAGE | RET_TOKEN_STOP | RET_TOKEN_FOUND | RET_TOKEN_ERROR

section \<open>Characters and digits\<close>

definition contains :: "string \<Rightarrow> char \<Rightarrow> bool" where
  "contains buf c = list_ex (\<lambda>b. b = c) buf"

definition in_range :: "char \<Rightarrow> char \<Rightarrow> char \<Rightarrow> bool" where
  "in_range c lo hi \<longleftrightarrow> (of_char c :: u8) \<ge> of_char lo \<and> (of_char c :: u8) \<le> of_char hi"

definition atodec :: "string \<Rightarrow> u64" where
  "atodec s = fold (\<lambda>c v. v * 10 + (of_char c - of_char (CHR ''0''))) s 0"

section \<open>Stores into the buffer\<close>

definition put :: "nat \<Rightarrow> string \<Rightarrow> char \<Rightarrow> string outcome" where
  "put cap out c = in_object (length out < cap) (Done (out @ [c]))"

text \<open>\<open>padding\<close>: it stores before it looks at \<open>size\<close>, as the code does.\<close>

function padding ::
  "nat \<Rightarrow> string \<Rightarrow> size_t \<Rightarrow> char \<Rightarrow> size_t \<Rightarrow> size_t \<Rightarrow> (string \<times> size_t) outcome" where
  "padding cap out sz fill len ret =
     (if len > 0 then
        bindc (put cap out fill) (\<lambda>out.
          let sz = sz - 1
          in if sz = 0 then Done (out, ret + 1)
             else padding cap out sz fill (len - 1) (ret + 1))
      else Done (out, ret))"
  by pat_completeness auto
termination
  by (relation "measure (\<lambda>(cap, out, sz, fill, len, ret). unat len)")
    (auto simp: word_less_nat_alt unat_pred unat_gt_0)

declare padding.simps [simp del]

definition itoa_insert_sign ::
  "nat \<Rightarrow> fmt_info_t \<Rightarrow> bool \<Rightarrow> size_t \<Rightarrow> string \<Rightarrow> (int \<times> size_t \<times> string) outcome" where
  "itoa_insert_sign cap info positive remaining pos =
     bindc
      (case fi_sign info of
         SIGN_BOTH \<Rightarrow>
           bindc (put cap pos (if positive then CHR ''+'' else CHR ''-'')) (\<lambda>pos.
             Done (remaining - 1, pos))
       | SIGN_POS_LEADING \<Rightarrow>
           bindc (put cap pos (if positive then CHR '' '' else CHR ''-'')) (\<lambda>pos.
             Done (remaining - 1, pos))
       | SIGN_NEG \<Rightarrow>
           if \<not> positive then
             bindc (put cap pos (CHR ''-'')) (\<lambda>pos. Done (remaining - 1, pos))
           else Done (remaining, pos))
      (\<lambda>(remaining, pos).
        Done (if remaining = 0 then ERROR_STRING_TRUNCATED else OK, remaining, pos))"

definition itoa_insert_base ::
  "nat \<Rightarrow> u64 \<Rightarrow> size_t \<Rightarrow> string \<Rightarrow> (int \<times> size_t \<times> string) outcome" where
  "itoa_insert_base cap base remaining pos =
     bindc
      (if base = 2 then
         bindc (put cap pos (CHR ''b'')) (\<lambda>pos. Done (remaining - 1, pos))
       else if base = 8 then
         bindc (put cap pos (CHR ''o'')) (\<lambda>pos. Done (remaining - 1, pos))
       else if base = 16 then
         bindc (put cap pos (CHR ''x'')) (\<lambda>pos. Done (remaining - 1, pos))
       else Done (remaining, pos))
      (\<lambda>(remaining, pos).
        if remaining = 0 then Done (ERROR_STRING_TRUNCATED, remaining, pos)
        else
          bindc
           (if base = 2 \<or> base = 8 \<or> base = 16 then
              bindc (put cap pos (CHR ''0'')) (\<lambda>pos. Done (remaining - 1, pos))
            else Done (remaining, pos))
           (\<lambda>(remaining, pos).
             Done (if remaining = 0 then ERROR_STRING_TRUNCATED else OK, remaining, pos)))"

section \<open>itoa\<close>

definition digit :: string where
  "digit = ''0123456789abcdef''"

text \<open>
  The \<open>do\<close> loop over the digits: whether the space ran out, and the text, the space and the
  digit count at the end.
\<close>

function itoa_digits ::
  "nat \<Rightarrow> u64 \<Rightarrow> u64 \<Rightarrow> string \<Rightarrow> size_t \<Rightarrow> size_t \<Rightarrow> (bool \<times> string \<times> size_t \<times> size_t) outcome" where
  "itoa_digits cap base val pos remaining content_cnt =
     bindc (put cap pos (digit ! unat (val mod base))) (\<lambda>pos.
       let content_cnt = content_cnt + 1; remaining = remaining - 1
       in if remaining = 0 then Done (True, pos, remaining, content_cnt)
          else let val = val div base
               in if val \<noteq> 0 then itoa_digits cap base val pos remaining content_cnt
                  else Done (False, pos, remaining, content_cnt))"
  by pat_completeness auto
termination
proof (relation "measure (\<lambda>(cap, base, val, pos, remaining, cnt). unat (remaining - 1))", goal_cases)
  case (2 cap base val pos remaining cnt pos' cnt' rem' val')
  then have nz: "rem' \<noteq> 0" and eq: "rem' = remaining - 1" by simp_all
  have "0 < unat rem'" using nz by (simp add: unat_gt_0)
  then have "unat (rem' - 1) < unat rem'" using unat_pred [OF nz] by simp
  then show ?case by (simp only: in_measure split eq)
qed simp

declare itoa_digits.simps [simp del]

text \<open>The loop that reverses the text in place.\<close>

function reverse_loop :: "string \<Rightarrow> nat \<Rightarrow> nat \<Rightarrow> string" where
  "reverse_loop s buf pos =
     (if buf < pos then reverse_loop (s[buf := s ! pos, pos := s ! buf]) (buf + 1) (pos - 1) else s)"
  by pat_completeness auto
termination by (relation "measure (\<lambda>(s, buf, pos). pos)") auto

declare reverse_loop.simps [simp del]

text \<open>The label \<open>reverse_out\<close>: the result is the error, the new \<open>*size\<close> and the text.\<close>

definition itoa_reverse_out ::
  "nat \<Rightarrow> string \<Rightarrow> size_t \<Rightarrow> char \<Rightarrow> size_t \<Rightarrow> int \<Rightarrow> (int \<times> size_t \<times> string) outcome" where
  "itoa_reverse_out cap pos remaining padding_char padding_right_cnt ret =
     (let s = reverse_loop pos 0 (length pos - 1)
      in bindc (padding cap s remaining padding_char padding_right_cnt 0) (\<lambda>(s, padding_ret).
           Done (ret, remaining - padding_ret, s)))"

record paddings =
  pad_left :: size_t
  pad_right :: size_t
  pad_after_sign :: size_t
  pad_after_prefix :: size_t

definition itoa_padding_cnt :: "fmt_info_t \<Rightarrow> u64 \<Rightarrow> bool \<Rightarrow> size_t \<Rightarrow> size_t" where
  "itoa_padding_cnt info base positive content_cnt =
     (let cnt = util_max (min_width info) content_cnt - content_cnt;
          cnt = (if cnt > 0 \<and> alternate_form info \<and> base \<noteq> 10 then cnt - 2 else cnt)
      in if cnt > 0 \<and> (fi_sign info = SIGN_BOTH \<or> fi_sign info = SIGN_POS_LEADING \<or>
             fi_sign info = SIGN_NEG \<and> \<not> positive)
         then cnt - 1 else cnt)"

definition itoa_paddings :: "fmt_info_t \<Rightarrow> size_t \<Rightarrow> paddings" where
  "itoa_paddings info cnt =
     (let p = (if zero_padding info
               then \<lparr>pad_left = 0, pad_right = 0, pad_after_sign = 0, pad_after_prefix = cnt\<rparr>
               else \<lparr>pad_left = cnt, pad_right = 0, pad_after_sign = 0, pad_after_prefix = 0\<rparr>)
      in case alignment info of
           ALIGN_AFTER_SIGN \<Rightarrow>
             \<lparr>pad_left = 0, pad_right = 0, pad_after_sign = cnt, pad_after_prefix = 0\<rparr>
         | ALIGN_LEFT \<Rightarrow>
             \<lparr>pad_left = 0, pad_right = cnt, pad_after_sign = 0, pad_after_prefix = 0\<rparr>
         | ALIGN_RIGHT \<Rightarrow>
             \<lparr>pad_left = cnt, pad_right = 0, pad_after_sign = 0, pad_after_prefix = 0\<rparr>
         | ALIGN_CENTER \<Rightarrow>
             \<lparr>pad_left = cnt div 2, pad_right = cnt - cnt div 2, pad_after_sign = 0,
              pad_after_prefix = 0\<rparr>
         | ALIGN_DEFAULT \<Rightarrow> p)"

definition itoa_padding_char :: "fmt_info_t \<Rightarrow> char" where
  "itoa_padding_char info =
     (if alignment info \<noteq> ALIGN_DEFAULT \<and> fill_char info \<noteq> NUL then fill_char info
      else if zero_padding info then CHR ''0'' else CHR '' '')"

text \<open>\<open>itoa\<close>: the error, the space left in the buffer and the text from \<open>buf\<close> on.\<close>

definition itoa ::
  "nat \<Rightarrow> size_t \<Rightarrow> u64 \<Rightarrow> u64 \<Rightarrow> fmt_info_t \<Rightarrow> bool \<Rightarrow> (int \<times> size_t \<times> string) outcome" where
  "itoa cap sz val base info positive =
     ensure (base \<le> 16)
      (if sz = 0 then Done (ERROR_STRING_TRUNCATED, sz, [])
       else
        bindc (itoa_digits cap base val [] sz 0) (\<lambda>(full, pos, remaining, content_cnt).
        if full then itoa_reverse_out cap pos remaining (CHR '' '') 0 ERROR_STRING_TRUNCATED
        else
          let p = itoa_paddings info (itoa_padding_cnt info base positive content_cnt);
              padding_char = itoa_padding_char info;
              reverse_out = (\<lambda>pos remaining ret.
                itoa_reverse_out cap pos remaining padding_char (pad_right p) ret)
          in bindc (padding cap pos remaining padding_char (pad_after_prefix p) 0) (\<lambda>(pos, padding_ret).
          let remaining = remaining - padding_ret
          in if remaining = 0 \<or> padding_ret < pad_after_prefix p
             then reverse_out pos remaining ERROR_STRING_TRUNCATED
             else
          bindc (if alternate_form info then itoa_insert_base cap base remaining pos
                 else Done (OK, remaining, pos)) (\<lambda>(ret, remaining, pos).
          if ret \<noteq> OK then reverse_out pos remaining ret
          else
          bindc (padding cap pos remaining padding_char (pad_after_sign p) 0) (\<lambda>(pos, padding_ret).
          let remaining = remaining - padding_ret
          in if remaining = 0 \<or> padding_ret < pad_after_sign p
             then reverse_out pos remaining ERROR_STRING_TRUNCATED
             else
          bindc (itoa_insert_sign cap info positive remaining pos) (\<lambda>(ret, remaining, pos).
          if ret \<noteq> OK then reverse_out pos remaining ret
          else
          bindc (padding cap pos remaining padding_char (pad_left p) 0) (\<lambda>(pos, padding_ret).
            reverse_out pos (remaining - padding_ret) OK)))))))"

text \<open>The negation of the most negative value overflows in C; the model wraps.\<close>

definition sitoa ::
  "nat \<Rightarrow> size_t \<Rightarrow> u64 \<Rightarrow> u64 \<Rightarrow> fmt_info_t \<Rightarrow> (int \<times> size_t \<times> string) outcome" where
  "sitoa cap sz val base info =
     (if sint val < 0 then itoa cap sz (- val) base info False
      else itoa cap sz val base info True)"

section \<open>stringtoa\<close>

text \<open>\<open>memset\<close> and \<open>memscpy\<close> of \<open>n\<close> bytes at the end of the text.\<close>

definition put_all :: "nat \<Rightarrow> string \<Rightarrow> string \<Rightarrow> string outcome" where
  "put_all cap out s = in_object (length out + length s \<le> cap) (Done (out @ s))"

definition stringtoa ::
  "nat \<Rightarrow> size_t \<Rightarrow> string option \<Rightarrow> fmt_info_t \<Rightarrow> (int \<times> size_t \<times> string) outcome" where
  "stringtoa cap sz val_str info =
     (case val_str of
        None \<Rightarrow> Done (ERROR_STRING_MISSING_ARGUMENT, sz, [])
      | Some str \<Rightarrow>
          let slen = of_nat (length str) :: size_t;
              slen = (if precise info \<noteq> 0 then util_min slen (precise info) else slen);
              padding_cnt = util_max slen (min_width info) - slen;
              padding_char = (if alignment info \<noteq> ALIGN_DEFAULT \<and> fill_char info \<noteq> NUL
                              then fill_char info else CHR '' '');
              (left_cnt, right_cnt) =
                (case alignment info of
                   ALIGN_LEFT \<Rightarrow> (padding_cnt, 0)
                 | ALIGN_RIGHT \<Rightarrow> (0, padding_cnt)
                 | ALIGN_CENTER \<Rightarrow> (padding_cnt div 2, padding_cnt - padding_cnt div 2)
                 | _ \<Rightarrow> (padding_cnt, 0));
              remaining = sz;
              p = util_min left_cnt remaining
          in bindc (put_all cap [] (replicate (unat p) padding_char)) (\<lambda>pos.
             let remaining = remaining - p
             in if remaining = 0 then Done (ERROR_STRING_TRUNCATED, remaining, pos)
                else
                  let p = util_min slen remaining
                  in bindc (put_all cap pos (take (unat p) str)) (\<lambda>pos.
                     let remaining = remaining - p
                     in if remaining = 0 then Done (ERROR_STRING_TRUNCATED, remaining, pos)
                        else
                          let p = util_min right_cnt remaining
                          in bindc (put_all cap pos (replicate (unat p) padding_char)) (\<lambda>pos.
                             let remaining = remaining - p
                             in Done (if remaining = 0 then ERROR_STRING_TRUNCATED else OK,
                                      remaining, pos)))))"

section \<open>The parser of format descriptors\<close>

text \<open>
  The checks look at \<open>fmt[0]\<close>, \<open>fmt[1]\<close> and, for the alignment, \<open>fmt[-1]\<close>: they get the
  whole format \<open>f\<close> and the offset \<open>i\<close> of the character.
\<close>

definition check_start :: "string \<Rightarrow> nat \<Rightarrow> fmt_info_t \<Rightarrow> (ret_token_t \<times> fmt_info_t) outcome" where
  "check_start f i info =
     bindc (char_at f i) (\<lambda>c.
       Done (if contains ''{'' c then RET_TOKEN_FOUND else RET_TOKEN_NEXT_CHAR, info))"

definition check_specifier_start ::
  "string \<Rightarrow> nat \<Rightarrow> fmt_info_t \<Rightarrow> (ret_token_t \<times> fmt_info_t) outcome" where
  "check_specifier_start f i info =
     bindc (char_at f i) (\<lambda>c.
       Done (if contains '' '' c then RET_TOKEN_NEXT_CHAR
             else if contains '':'' c then RET_TOKEN_FOUND
             else RET_TOKEN_NEXT_CHAR, info))"

definition check_align :: "string \<Rightarrow> nat \<Rightarrow> fmt_info_t \<Rightarrow> (ret_token_t \<times> fmt_info_t) outcome" where
  "check_align f i info =
     bindc (char_at f (i + 1)) (\<lambda>c1.
       if contains ''<>=^'' c1 then Done (RET_TOKEN_NEXT_CHAR, info)
       else
         bindc (char_at f i) (\<lambda>c.
           case map_of (zip ''<>=^'' [ALIGN_LEFT, ALIGN_RIGHT, ALIGN_AFTER_SIGN, ALIGN_CENTER]) c of
             Some a \<Rightarrow>
               in_object (i \<ge> 1)
                 (bindc (char_at f (i - 1)) (\<lambda>prev.
                   let info = info\<lparr>alignment := a\<rparr>
                   in Done (RET_TOKEN_FOUND,
                        if prev \<noteq> CHR '':'' then info\<lparr>fill_char := prev\<rparr> else info)))
           | None \<Rightarrow> Done (RET_TOKEN_NEXT_STAGE, info)))"

definition check_sign :: "string \<Rightarrow> nat \<Rightarrow> fmt_info_t \<Rightarrow> (ret_token_t \<times> fmt_info_t) outcome" where
  "check_sign f i info =
     bindc (char_at f i) (\<lambda>c.
       case map_of (zip ''+- '' [SIGN_BOTH, SIGN_NEG, SIGN_POS_LEADING]) c of
         Some s \<Rightarrow> Done (RET_TOKEN_FOUND, info\<lparr>fi_sign := s\<rparr>)
       | None \<Rightarrow> Done (RET_TOKEN_NEXT_STAGE, info))"

definition check_alternative ::
  "string \<Rightarrow> nat \<Rightarrow> fmt_info_t \<Rightarrow> (ret_token_t \<times> fmt_info_t) outcome" where
  "check_alternative f i info =
     bindc (char_at f i) (\<lambda>c.
       Done (if c = CHR ''#'' then (RET_TOKEN_FOUND, info\<lparr>alternate_form := True\<rparr>)
             else (RET_TOKEN_NEXT_STAGE, info)))"

definition check_zeropadding ::
  "string \<Rightarrow> nat \<Rightarrow> fmt_info_t \<Rightarrow> (ret_token_t \<times> fmt_info_t) outcome" where
  "check_zeropadding f i info =
     bindc (char_at f i) (\<lambda>c.
       Done (if c = CHR ''0'' then (RET_TOKEN_FOUND, info\<lparr>zero_padding := True\<rparr>)
             else (RET_TOKEN_NEXT_STAGE, info)))"

definition check_minwidth ::
  "string \<Rightarrow> nat \<Rightarrow> fmt_info_t \<Rightarrow> (ret_token_t \<times> fmt_info_t) outcome" where
  "check_minwidth f i info =
     bindc (char_at f i) (\<lambda>c.
       if in_range c (CHR ''0'') (CHR ''9'') then
         let start = (case minwidth_start info of None \<Rightarrow> i | Some s \<Rightarrow> s)
         in bindc (char_at f (i + 1)) (\<lambda>c1.
            if in_range c1 (CHR ''0'') (CHR ''9'')
            then Done (RET_TOKEN_NEXT_CHAR, info\<lparr>minwidth_start := Some start\<rparr>)
            else Done (RET_TOKEN_FOUND,
                   info\<lparr>min_width := atodec (take (i - start + 1) (drop start f)),
                        minwidth_start := None\<rparr>))
       else Done (RET_TOKEN_NEXT_STAGE, info))"

definition check_precise ::
  "string \<Rightarrow> nat \<Rightarrow> fmt_info_t \<Rightarrow> (ret_token_t \<times> fmt_info_t) outcome" where
  "check_precise f i info =
     bindc (char_at f i) (\<lambda>c.
     bindc (if c = CHR ''.''
            then bindc (char_at f (i + 1)) (\<lambda>c1. Done (in_range c1 (CHR ''0'') (CHR ''9'')))
            else Done False) (\<lambda>dot.
       if dot then Done (RET_TOKEN_NEXT_CHAR, info\<lparr>precise_start := None\<rparr>)
       else if in_range c (CHR ''0'') (CHR ''9'') then
         let start = (case precise_start info of None \<Rightarrow> i | Some s \<Rightarrow> s)
         in bindc (char_at f (i + 1)) (\<lambda>c1.
            if in_range c1 (CHR ''0'') (CHR ''9'')
            then Done (RET_TOKEN_NEXT_CHAR, info\<lparr>precise_start := Some start\<rparr>)
            else Done (RET_TOKEN_FOUND,
                   info\<lparr>precise := atodec (take (i - start + 1) (drop start f)),
                        precise_start := None\<rparr>))
       else Done (RET_TOKEN_NEXT_STAGE, info)))"

definition check_type :: "string \<Rightarrow> nat \<Rightarrow> fmt_info_t \<Rightarrow> (ret_token_t \<times> fmt_info_t) outcome" where
  "check_type f i info =
     bindc (char_at f i) (\<lambda>c.
       case map_of (zip ''bdoxs'' [VAR_TYPE_BIN, VAR_TYPE_DEC, VAR_TYPE_OCTAL, VAR_TYPE_LOW_HEX,
                                   VAR_TYPE_STRING]) c of
         Some t \<Rightarrow> Done (RET_TOKEN_FOUND, info\<lparr>fi_type := t\<rparr>)
       | None \<Rightarrow> Done (RET_TOKEN_ERROR, info))"

definition check_end :: "string \<Rightarrow> nat \<Rightarrow> fmt_info_t \<Rightarrow> (ret_token_t \<times> fmt_info_t) outcome" where
  "check_end f i info =
     bindc (char_at f i) (\<lambda>c.
       Done (if contains '' '' c then RET_TOKEN_NEXT_CHAR
             else if contains ''}'' c then RET_TOKEN_STOP
             else RET_TOKEN_ERROR, info))"

definition check_token ::
  "nat \<Rightarrow> string \<Rightarrow> nat \<Rightarrow> fmt_info_t \<Rightarrow> (ret_token_t \<times> fmt_info_t) outcome" where
  "check_token stage f i info =
     (if stage = STAGE_START then check_start f i info
      else if stage = STAGE_SPECIFIER_START then check_specifier_start f i info
      else if stage = STAGE_ALIGN then check_align f i info
      else if stage = STAGE_SIGN then check_sign f i info
      else if stage = STAGE_ALTERNATIVE then check_alternative f i info
      else if stage = STAGE_ZERO_PADDING then check_zeropadding f i info
      else if stage = STAGE_MINWIDTH then check_minwidth f i info
      else if stage = STAGE_PRECISE then check_precise f i info
      else if stage = STAGE_TYPE then check_type f i info
      else if stage = STAGE_END then check_end f i info
      else Done (RET_TOKEN_ERROR, info))"

lemma check_token_stage:
  "check_token stage f i info = Done (RET_TOKEN_NEXT_STAGE, info') \<Longrightarrow> stage < 10"
  by (auto simp: check_token_def split: if_splits)

text \<open>
  The loop of \<open>get_next_fmt\<close>: the error, the format information, \<open>*consumed_len\<close>,
  \<open>*literal_len\<close> and \<open>*end\<close>. The index into the format is a natural number: a format is
  shorter than \<open>2 ^ 32\<close> characters.
\<close>

function get_next_fmt_loop ::
  "string \<Rightarrow> nat \<Rightarrow> nat \<Rightarrow> nat \<Rightarrow> fmt_info_t \<Rightarrow> nat \<Rightarrow>
     (int \<times> fmt_info_t \<times> nat \<times> nat \<times> bool) outcome" where
  "get_next_fmt_loop f fmt idx stage info literal_len =
     bindc (char_at f (fmt + idx)) (\<lambda>c.
       if c \<noteq> NUL then
         bindc (check_token stage f (fmt + idx) info) (\<lambda>r.
           case r of
             (RET_TOKEN_NEXT_CHAR, info) \<Rightarrow> get_next_fmt_loop f fmt (idx + 1) stage info literal_len
           | (RET_TOKEN_NEXT_STAGE, info) \<Rightarrow> get_next_fmt_loop f fmt idx (stage + 1) info literal_len
           | (RET_TOKEN_STOP, info) \<Rightarrow> Done (OK, info, idx + 1, literal_len, False)
           | (RET_TOKEN_FOUND, info) \<Rightarrow>
               get_next_fmt_loop f fmt (idx + 1) (stage + 1) info
                 (if stage = STAGE_START then idx else literal_len)
           | (RET_TOKEN_ERROR, info) \<Rightarrow>
               Done (ERROR_STRING_INVALID_FORMAT, info, 0, literal_len, False))
       else if stage = STAGE_START then Done (OK, info, idx + 1, idx, True)
       else Done (OK, info, 0, literal_len, True))"
  by pat_completeness auto

termination
  by (relation "measures [\<lambda>(f, fmt, idx, stage, info, l). length f - (fmt + idx),
                          \<lambda>(f, fmt, idx, stage, info, l). 10 - stage]")
    (auto dest: char_at_inside check_token_stage)

declare get_next_fmt_loop.simps [simp del]

definition get_next_fmt ::
  "string \<Rightarrow> nat \<Rightarrow> (int \<times> fmt_info_t \<times> nat \<times> nat \<times> bool) outcome" where
  "get_next_fmt f fmt = get_next_fmt_loop f fmt 0 STAGE_START fmt_info_zero 0"

section \<open>snprint\<close>

text \<open>\<open>gen_str\<close>: the error, the number of bytes written and the text.\<close>

definition gen_str ::
  "(register_t \<Rightarrow> string) \<Rightarrow> nat \<Rightarrow> size_t \<Rightarrow> fmt_info_t \<Rightarrow> register_t \<Rightarrow>
     (int \<times> size_t \<times> string) outcome" where
  "gen_str str_at cap sz info arg =
     bindc
      (case fi_type info of
         VAR_TYPE_BIN \<Rightarrow> itoa cap sz arg 2 info True
       | VAR_TYPE_DEC \<Rightarrow> sitoa cap sz arg 10 info
       | VAR_TYPE_OCTAL \<Rightarrow> itoa cap sz arg 8 info True
       | VAR_TYPE_LOW_HEX \<Rightarrow> itoa cap sz arg 16 info True
       | VAR_TYPE_STRING \<Rightarrow>
           stringtoa cap sz (if arg = 0 then None else Some (str_at arg)) info
       | VAR_TYPE_NONE \<Rightarrow> Done (ERROR_STRING_INVALID_FORMAT, sz, []))
      (\<lambda>(ret, remaining, text). Done (ret, sz - remaining, text))"

record snprint_state =
  ps_mem :: string
  ps_buf :: nat
  ps_remaining :: size_t
  ps_fmt :: nat
  ps_arg :: nat

text \<open>One round of the loop of \<open>snprint\<close>: the error, whether to stop, and the new state.\<close>

definition snprint_round ::
  "(register_t \<Rightarrow> string) \<Rightarrow> string \<Rightarrow> register_t list \<Rightarrow> snprint_state \<Rightarrow>
     (int \<times> bool \<times> snprint_state) outcome" where
  "snprint_round str_at f args st =
     bindc (get_next_fmt f (ps_fmt st)) (\<lambda>(ret, info, consumed_len, literal_len, at_end).
       if ret \<noteq> OK then Done (ret, True, st)
       else
         let n = min literal_len (unat (ps_remaining st))
         in bindc (store (ps_mem st) (ps_buf st) (take n (drop (ps_fmt st) f))) (\<lambda>mem.
            let st = st\<lparr>ps_mem := mem\<rparr>
            in if literal_len > unat (ps_remaining st) then Done (ERROR_STRING_TRUNCATED, True, st)
               else
                 let st = st\<lparr>ps_fmt := ps_fmt st + consumed_len, ps_buf := ps_buf st + literal_len,
                             ps_remaining := ps_remaining st - of_nat literal_len\<rparr>
                 in if fi_type info = VAR_TYPE_NONE then Done (OK, at_end, st)
                    else if ps_arg st = MAX_ARG_CNT
                    then Done (ERROR_STRING_MISSING_PLACEHOLDER, True, st)
                    else
                      bindc (gen_str str_at (length (ps_mem st) - ps_buf st) (ps_remaining st) info
                               (args ! ps_arg st)) (\<lambda>(ret, consumed, text).
                      bindc (store (ps_mem st) (ps_buf st) text) (\<lambda>mem.
                        let st = st\<lparr>ps_mem := mem\<rparr>
                        in if ret = OK then
                             ensure (consumed \<le> ps_remaining st)
                               (Done (OK, at_end,
                                  st\<lparr>ps_buf := ps_buf st + unat consumed,
                                     ps_remaining := ps_remaining st - consumed,
                                     ps_arg := ps_arg st + 1\<rparr>))
                           else Done (ret, True, st)))))"

text \<open>
  The loop, with fuel: every round but the last consumes a character of the format
  (\<open>snprint_loop_fuel\<close>).
\<close>

fun snprint_loop ::
  "nat \<Rightarrow> (register_t \<Rightarrow> string) \<Rightarrow> string \<Rightarrow> register_t list \<Rightarrow> snprint_state \<Rightarrow> (int \<times> snprint_state) outcome" where
  "snprint_loop 0 str_at f args st = Fault OutOfFuel"
| "snprint_loop (Suc fuel) str_at f args st =
     (if ps_remaining st \<noteq> 0 then
        bindc (snprint_round str_at f args st) (\<lambda>(ret, stop, st).
          if stop then Done (ret, st) else snprint_loop fuel str_at f args st)
      else Done (OK, st))"

text \<open>\<open>snprint\<close>: the bytes of the buffer afterwards, and the error and the count it returns.\<close>

definition snprint ::
  "(register_t \<Rightarrow> string) \<Rightarrow> string \<Rightarrow> size_t \<Rightarrow> string \<Rightarrow> register_t list \<Rightarrow> (string \<times> int \<times> size_t) outcome" where
  "snprint str_at str sz format args =
     bindc (snprint_loop (length format + 2) str_at format args
             \<lparr>ps_mem = str, ps_buf = 0, ps_remaining = sz - 1, ps_fmt = 0, ps_arg = 0\<rparr>)
      (\<lambda>(ret, st).
        bindc (store (ps_mem st) (ps_buf st) [NUL]) (\<lambda>mem.
          Done (mem, ret,
            if ret \<noteq> ERROR_STRING_TRUNCATED then (sz - 1) - ps_remaining st else sz)))"

end
