(* ===== verification/StringFmtSpec.thy ===== *)
theory StringFmtSpec
  imports StringFmt
begin

text \<open>
  What the formatter of \<^verbatim>\<open>src/string_util.c\<close> computes: the text of a number and its
  arrangement with sign, prefix and padding, that the conversions stay inside their buffer,
  and the output of \<open>snprint\<close> for a format given as a list of literals and descriptors.
\<close>

section \<open>The pieces of a number\<close>

text \<open>The digits of a number, most significant first.\<close>

function num_str :: "nat \<Rightarrow> nat \<Rightarrow> string" where
  "num_str b n = (if n < b \<or> b < 2 then [digit ! (n mod b)]
    else num_str b (n div b) @ [digit ! (n mod b)])"
  by pat_completeness auto
termination by (relation "measure snd") auto

declare num_str.simps [simp del]

lemma num_str_not_Nil [simp]: "num_str b n \<noteq> []"
  by (subst num_str.simps) simp

definition digit_value :: "char \<Rightarrow> nat" where
  "digit_value c = length (takeWhile (\<lambda>d. d \<noteq> c) digit)"

text \<open>Reading a number back.\<close>

definition read_number :: "nat \<Rightarrow> string \<Rightarrow> nat" where
  "read_number b s = fold (\<lambda>c v. v * b + digit_value c) s 0"

lemma digit_value_digit: "i < 16 \<Longrightarrow> digit_value (digit ! i) = i"
proof -
  have "\<forall>i \<in> set [0..<16]. digit_value (digit ! i) = i"
    by code_simp
  then show "i < 16 \<Longrightarrow> digit_value (digit ! i) = i" by simp
qed

lemma read_num_str:
  assumes "2 \<le> b" "b \<le> 16"
  shows "read_number b (num_str b n) = n"
proof (induction n rule: less_induct)
  case (less n)
  have "n mod b < b" using assms by simp
  then have "n mod b < 16" using assms by linarith
  then have d: "digit_value (digit ! (n mod b)) = n mod b" by (rule digit_value_digit)
  show ?case
  proof (cases "n < b")
    case True
    then show ?thesis using d by (subst num_str.simps) (simp add: read_number_def)
  next
    case False
    then have "read_number b (num_str b (n div b)) = n div b"
      using assms by (intro less.IH) simp
    then show ?thesis
      using False assms d by (subst num_str.simps) (simp add: read_number_def)
  qed
qed

lemma num_str_length_pos: "0 < length (num_str b n)"
  by simp

section \<open>padding\<close>

lemma padding_eq:
  assumes "length out + unat s \<le> cap" "0 < unat s"
  shows "padding cap out s fill len ret =
    Done (out @ replicate (min (unat len) (unat s)) fill, ret + of_nat (min (unat len) (unat s)))"
  using assms
proof (induction cap out s fill len ret rule: padding.induct)
  case (1 cap out s fill len ret)
  show ?case
  proof (cases "0 < len")
    case False
    then have "unat len = 0" by (simp add: word_less_nat_alt)
    with False show ?thesis by (subst padding.simps) simp
  next
    case True
    have put: "put cap out fill = Done (out @ [fill])"
      using "1.prems" by (simp add: put_def)
    have s: "unat (s - 1) = unat s - 1" using "1.prems" by (intro unat_pred) auto
    have l: "unat (len - 1) = unat len - 1" using True by (intro unat_pred) auto
    have lpos: "0 < unat len" using True by (simp add: word_less_nat_alt)
    show ?thesis
    proof (cases "s - 1 = 0")
      case True
      then have "unat s = 1" using s "1.prems"(2) by simp
      then have "min (unat len) (unat s) = 1" using lpos by simp
      with True \<open>0 < len\<close> put show ?thesis by (subst padding.simps) simp
    next
      case False
      then have pos: "0 < unat (s - 1)" by (simp add: unat_gt_0)
      have "padding cap out s fill len ret = padding cap (out @ [fill]) (s - 1) fill (len - 1) (ret + 1)"
        using \<open>0 < len\<close> False put by (subst padding.simps) simp
      also have "\<dots> = Done ((out @ [fill]) @ replicate (min (unat (len - 1)) (unat (s - 1))) fill,
          (ret + 1) + of_nat (min (unat (len - 1)) (unat (s - 1))))"
        using "1.IH" [OF \<open>0 < len\<close> put refl False] "1.prems" pos s by simp
      also have "min (unat (len - 1)) (unat (s - 1)) = min (unat len) (unat s) - 1"
        using s l by simp
      also have "(out @ [fill]) @ replicate (min (unat len) (unat s) - 1) fill =
          out @ replicate (min (unat len) (unat s)) fill"
        using lpos "1.prems"(2) by (cases "min (unat len) (unat s)") auto
      also have "(ret + 1) + of_nat (min (unat len) (unat s) - 1) = ret + of_nat (min (unat len) (unat s))"
        using lpos "1.prems"(2) by (cases "min (unat len) (unat s)") auto
      finally show ?thesis .
    qed
  qed
qed

lemma padding_none: "padding cap out s fill 0 ret = Done (out, ret)"
  by (subst padding.simps) simp

lemma unat_of_nat_min: "unat (of_nat (min (unat (a :: u64)) k) :: u64) = min (unat a) k"
  using unat_lt64 [of a] by (intro unat_of_nat_fits) simp

text \<open>A padding with room for it: all of it is written.\<close>

lemma padding_all:
  assumes "length out + unat s \<le> cap" "unat len < unat s"
  shows "padding cap out s fill len 0 = Done (out @ replicate (unat len) fill, len)"
    "unat (s - len) = unat s - unat len"
  using assms padding_eq [OF assms(1), of fill len 0]
  by (simp_all add: unat_sub_fits min_def)

section \<open>The digit loop\<close>

lemma digits_room:
  assumes "2 \<le> unat base" "length (num_str (unat base) (unat val)) < unat rem"
    "length out + unat rem \<le> cap"
  shows "itoa_digits cap base val out rem cnt =
    Done (False, out @ rev (num_str (unat base) (unat val)),
      rem - of_nat (length (num_str (unat base) (unat val))),
      cnt + of_nat (length (num_str (unat base) (unat val))))"
  using assms
proof (induction "unat val" arbitrary: val out rem cnt rule: less_induct)
  case less
  let ?d = "digit ! unat (val mod base)"
  have d: "?d = digit ! (unat val mod unat base)" by (simp add: unat_mod)
  have put: "put cap out ?d = Done (out @ [?d])"
    using less.prems(2,3) num_str_length_pos by (simp add: put_def)
  have r1: "rem \<noteq> 1" "unat (rem - 1) = unat rem - 1"
  proof -
    have "1 < unat rem" using less.prems(2) num_str_length_pos [of "unat base" "unat val"] by linarith
    then have "rem \<noteq> 0" and "rem \<noteq> 1" by auto
    then show "rem \<noteq> 1" "unat (rem - 1) = unat rem - 1" using unat_pred by blast+
  qed
  have r0: "rem - 1 \<noteq> 0" using r1(1) by (metis diff_eq_diff_eq diff_self right_minus_eq)
  show ?case
  proof (cases "unat val < unat base")
    case True
    then have "val div base = 0" by (simp add: word_unat_eq_iff unat_div)
    moreover have "num_str (unat base) (unat val) = [?d]"
      using True d by (subst num_str.simps) simp
    ultimately show ?thesis
      using put r0 by (subst itoa_digits.simps) simp
  next
    case False
    then have "unat (val div base) \<noteq> 0" using less.prems(1) by (simp add: unat_div div_greater_zero_iff)
    then have nz: "val div base \<noteq> 0" by auto
    have rec: "num_str (unat base) (unat val) = num_str (unat base) (unat (val div base)) @ [?d]"
      using False less.prems(1) d by (subst num_str.simps) (simp add: unat_div)
    have "itoa_digits cap base val out rem cnt =
        itoa_digits cap base (val div base) (out @ [?d]) (rem - 1) (cnt + 1)"
      using put r0 nz by (subst itoa_digits.simps) simp
    also have "\<dots> = Done (False, (out @ [?d]) @ rev (num_str (unat base) (unat (val div base))),
      (rem - 1) - of_nat (length (num_str (unat base) (unat (val div base)))),
      (cnt + 1) + of_nat (length (num_str (unat base) (unat (val div base)))))"
    proof (rule less.hyps)
      show "unat (val div base) < unat val"
        using False less.prems(1) by (simp add: unat_div)
    qed (use less.prems rec r1 in simp_all)
    finally show ?thesis by (simp add: rec algebra_simps)
  qed
qed

text \<open>In any case the loop stays in its space.\<close>

lemma digits_bounds:
  assumes "0 < unat rem" "length out + unat rem \<le> cap"
  shows "\<exists>full s rem' cnt'. itoa_digits cap base val out rem cnt = Done (full, s, rem', cnt') \<and>
    length s + unat rem' = length out + unat rem \<and> length out < length s \<and> (full \<longleftrightarrow> rem' = 0)"
  using assms
proof (induction cap base val out rem cnt rule: itoa_digits.induct)
  case (1 cap base val out rem cnt)
  let ?d = "digit ! unat (val mod base)"
  have put: "put cap out ?d = Done (out @ [?d])"
    using "1.prems" by (simp add: put_def)
  have r1: "unat (rem - 1) = unat rem - 1" using "1.prems"(1) by (intro unat_pred) auto
  show ?case
  proof (cases "rem - 1 = 0")
    case True
    then have "rem = 1" by simp
    with put show ?thesis by (subst itoa_digits.simps) auto
  next
    case False
    then have pos: "0 < unat (rem - 1)" by (simp add: unat_gt_0)
    show ?thesis
    proof (cases "val div base = 0")
      case True
      then show ?thesis
        using put False r1 "1.prems"(1) by (subst itoa_digits.simps) auto
    next
      case nz: False
      have "itoa_digits cap base val out rem cnt =
          itoa_digits cap base (val div base) (out @ [?d]) (rem - 1) (cnt + 1)"
        using put False nz by (subst itoa_digits.simps) simp
      moreover have "length (out @ [?d]) + unat (rem - 1) = length out + unat rem"
        using r1 "1.prems"(1) by simp
      ultimately show ?thesis
        using "1.IH" [OF put refl refl False refl nz pos] "1.prems"(2) by auto
    qed
  qed
qed

section \<open>Reversal\<close>

lemma reverse_loop_eq:
  "reverse_loop s lo hi = map (\<lambda>i. if lo \<le> i \<and> i \<le> hi then s ! (lo + hi - i) else s ! i) [0..<length s]"
  if "hi < length s \<or> hi = 0 \<and> s = []"
  using that
proof (induction s lo hi rule: reverse_loop.induct)
  case (1 s lo hi)
  show ?case
  proof (cases "lo < hi")
    case False
    have "s = map (\<lambda>i. if lo \<le> i \<and> i \<le> hi then s ! (lo + hi - i) else s ! i) [0..<length s]"
      using False by (intro nth_equalityI) (auto intro!: arg_cong [where f = "(!) s"])
    with False show ?thesis by (subst reverse_loop.simps) simp
  next
    case True
    let ?s = "s[lo := s ! hi, hi := s ! lo]"
    have "reverse_loop s lo hi = reverse_loop ?s (lo + 1) (hi - 1)"
      using True by (subst reverse_loop.simps) simp
    also have "\<dots> = map (\<lambda>i. if lo + 1 \<le> i \<and> i \<le> hi - 1 then ?s ! (lo + 1 + (hi - 1) - i) else ?s ! i)
        [0..<length ?s]"
      using "1.prems" True by (intro "1.IH") auto
    also have "\<dots> = map (\<lambda>i. if lo \<le> i \<and> i \<le> hi then s ! (lo + hi - i) else s ! i) [0..<length s]"
      using True "1.prems" by (intro map_cong) (auto simp: nth_list_update)
    finally show ?thesis .
  qed
qed

lemma reverse_loop_rev: "reverse_loop s 0 (length s - 1) = rev s"
proof -
  have "reverse_loop s 0 (length s - 1) =
      map (\<lambda>i. if 0 \<le> i \<and> i \<le> length s - 1 then s ! (0 + (length s - 1) - i) else s ! i) [0..<length s]"
    by (rule reverse_loop_eq) (cases s, auto)
  also have "\<dots> = rev s" by (intro nth_equalityI) (auto simp: rev_nth)
  finally show ?thesis .
qed

section \<open>The text of an integer\<close>

definition sign_str :: "fmt_info_t \<Rightarrow> bool \<Rightarrow> string" where
  "sign_str info positive =
     (case fi_sign info of
        SIGN_BOTH \<Rightarrow> if positive then ''+'' else ''-''
      | SIGN_POS_LEADING \<Rightarrow> if positive then '' '' else ''-''
      | SIGN_NEG \<Rightarrow> if positive then '''' else ''-'')"

definition base_str :: "u64 \<Rightarrow> string" where
  "base_str base =
     (if base = 2 then ''0b'' else if base = 8 then ''0o'' else if base = 16 then ''0x'' else '''')"

definition prefix_str :: "fmt_info_t \<Rightarrow> u64 \<Rightarrow> string" where
  "prefix_str info base = (if alternate_form info then base_str base else '''')"

definition itoa_text :: "fmt_info_t \<Rightarrow> u64 \<Rightarrow> u64 \<Rightarrow> bool \<Rightarrow> string" where
  "itoa_text info base val positive =
     (let ds = num_str (unat base) (unat val);
          p = itoa_paddings info (itoa_padding_cnt info base positive (of_nat (length ds)));
          fill = (\<lambda>n. replicate (unat n) (itoa_padding_char info))
      in fill (pad_left p) @ sign_str info positive @ fill (pad_after_sign p) @
         prefix_str info base @ fill (pad_after_prefix p) @ ds @ fill (pad_right p))"

text \<open>\<open>room out r s cap\<close>: the text and the space left add up to the space at the start.\<close>

definition room :: "string \<Rightarrow> size_t \<Rightarrow> size_t \<Rightarrow> nat \<Rightarrow> bool" where
  "room out r s cap \<longleftrightarrow> length out + unat r = unat s \<and> unat s \<le> cap"

lemma room_put:
  assumes "room out r s cap" "0 < unat r"
  shows "put cap out c = Done (out @ [c])" "room (out @ [c]) (r - 1) s cap"
proof -
  have "r \<noteq> 0" using assms(2) by auto
  then show "put cap out c = Done (out @ [c])" "room (out @ [c]) (r - 1) s cap"
    using assms by (simp_all add: put_def room_def unat_pred)
qed

lemma room_padding:
  assumes "room out r s cap" "unat n < unat r"
  shows "padding cap out r fill n 0 = Done (out @ replicate (unat n) fill, n)"
    "room (out @ replicate (unat n) fill) (r - n) s cap" "unat (r - n) = unat r - unat n"
  using assms padding_all [where out = out and s = r and cap = cap and len = n] by (auto simp: room_def)

lemma room_left: "room out r s cap \<Longrightarrow> unat r = unat s - length out"
  unfolding room_def by linarith

lemma room_result: "room out r s cap \<Longrightarrow> r = s - of_nat (length out)"
proof -
  assume r: "room out r s cap"
  then have "length out \<le> unat s" by (simp add: room_def)
  then have "unat (s - of_nat (length out)) = unat s - length out"
    using unat_lt64 [of s] by (simp add: unat_sub_fits)
  with room_left [OF r] show ?thesis by (intro word_unat_eq_iff [THEN iffD2]) simp
qed

lemma insert_base_room:
  assumes "room out r s cap" "length (base_str base) < unat r"
  shows "\<exists>r'. itoa_insert_base cap base r out = Done (OK, r', out @ rev (base_str base)) \<and>
    room (out @ rev (base_str base)) r' s cap"
proof (cases "base = 2 \<or> base = 8 \<or> base = 16")
  case False
  then show ?thesis using assms by (auto simp: itoa_insert_base_def base_str_def)
next
  case True
  then have r: "2 < unat r" using assms(2) by (auto simp: base_str_def)
  have nz: "r \<noteq> 0" "r - 1 \<noteq> 0" "r - 1 - 1 \<noteq> 0"
    using r unat_pred [of r] unat_pred [of "r - 1"] by force+
  have p1: "put cap out c = Done (out @ [c])" "room (out @ [c]) (r - 1) s cap" for c
    using room_put [OF assms(1)] r by simp_all
  have "0 < unat (r - 1)" using nz(2) by (simp add: unat_gt_0)
  then have p2: "put cap (out @ [c]) d = Done (out @ [c, d])"
    "room (out @ [c, d]) (r - 1 - 1) s cap" for c d
    using room_put [OF p1(2)] by simp_all
  show ?thesis
    using True nz(2,3) p1(1) p2 by (auto simp: itoa_insert_base_def base_str_def)
qed

lemma insert_sign_room:
  assumes "room out r s cap" "length (sign_str info positive) < unat r"
  shows "\<exists>r'. itoa_insert_sign cap info positive r out = Done (OK, r', out @ sign_str info positive) \<and>
    room (out @ sign_str info positive) r' s cap"
proof (cases "sign_str info positive = []")
  case True
  then show ?thesis
    using assms
    by (auto simp: itoa_insert_sign_def sign_str_def split: sign_t.splits if_splits)
next
  case False
  then have r: "1 < unat r"
    using assms(2) by (auto simp: sign_str_def split: sign_t.splits if_splits)
  have nz: "r - 1 \<noteq> 0" using r by auto
  have "put cap out c = Done (out @ [c])" "room (out @ [c]) (r - 1) s cap" for c
    using room_put [OF assms(1)] r by simp_all
  then show ?thesis
    using nz False by (auto simp: itoa_insert_sign_def sign_str_def split: sign_t.splits if_splits)
qed

lemma reverse_out_room:
  assumes "room out r s cap" "unat n < unat r \<or> n = 0"
  shows "itoa_reverse_out cap out r fill n e =
      Done (e, s - of_nat (length out + unat n), rev out @ replicate (unat n) fill)"
proof (cases "n = 0")
  case True
  with room_result [OF assms(1)] show ?thesis
    by (simp add: itoa_reverse_out_def reverse_loop_rev [simplified] padding_none)
next
  case False
  then have n: "unat n < unat r" using assms(2) by simp
  have rev: "room (rev out) r s cap" using assms(1) by (simp add: room_def)
  note p = room_padding [OF rev n]
  from p(1) room_result [OF p(2)] show ?thesis
    by (simp add: itoa_reverse_out_def reverse_loop_rev [simplified])
qed

text \<open>The path through \<open>itoa\<close> on which no step runs out of space.\<close>

lemma itoa_steps:
  assumes "base \<le> 16" "sz \<noteq> 0" "itoa_digits cap base val [] sz 0 = Done (False, p1, r1, cnt)"
    and "itoa_paddings info (itoa_padding_cnt info base positive cnt) = p" "itoa_padding_char info = fc"
    and "padding cap p1 r1 fc (pad_after_prefix p) 0 = Done (p2, pad_after_prefix p)"
      "r1 - pad_after_prefix p = r2" "r2 \<noteq> 0"
    and "(if alternate_form info then itoa_insert_base cap base r2 p2 else Done (OK, r2, p2)) =
      Done (OK, r3, p3)"
    and "padding cap p3 r3 fc (pad_after_sign p) 0 = Done (p4, pad_after_sign p)"
      "r3 - pad_after_sign p = r4" "r4 \<noteq> 0"
    and "itoa_insert_sign cap info positive r4 p4 = Done (OK, r5, p5)"
    and "padding cap p5 r5 fc (pad_left p) 0 = Done (p6, pad_left p)"
    and "itoa_reverse_out cap p6 (r5 - pad_left p) fc (pad_right p) OK = res"
  shows "itoa cap sz val base info positive = res"
proof -
  have "r1 \<noteq> pad_after_prefix p" "r3 \<noteq> pad_after_sign p" using assms(7,8,11,12) by auto
  with assms show ?thesis
    by (simp add: itoa_def Let_def cong del: prod.case_cong_weak if_weak_cong split del: if_split)
qed

lemma itoa_render:
  assumes base: "2 \<le> unat base" "unat base \<le> 16" and sz: "unat sz \<le> cap"
    and fits: "length (itoa_text info base val positive) < unat sz"
  shows "itoa cap sz val base info positive =
    Done (OK, sz - of_nat (length (itoa_text info base val positive)), itoa_text info base val positive)"
proof -
  let ?ds = "num_str (unat base) (unat val)"
  define p where "p = itoa_paddings info (itoa_padding_cnt info base positive (of_nat (length ?ds)))"
  define fc where "fc = itoa_padding_char info"
  let ?fill = "\<lambda>n. replicate (unat n) fc"
  have tx: "itoa_text info base val positive =
      ?fill (pad_left p) @ sign_str info positive @ ?fill (pad_after_sign p) @
      prefix_str info base @ ?fill (pad_after_prefix p) @ ?ds @ ?fill (pad_right p)"
    by (simp add: itoa_text_def Let_def p_def fc_def)
  have total: "unat (pad_left p) + length (sign_str info positive) + unat (pad_after_sign p) +
      length (prefix_str info base) + unat (pad_after_prefix p) + length ?ds + unat (pad_right p) < unat sz"
    using fits unfolding tx by simp
  have base16: "base \<le> 16" using base(2) by (simp add: word_le_nat_alt)
  have sz0: "sz \<noteq> 0" using total by auto
  let ?p1 = "rev ?ds" and ?r1 = "sz - of_nat (length ?ds)"
  have dig: "itoa_digits cap base val [] sz 0 = Done (False, ?p1, ?r1, of_nat (length ?ds))"
    using digits_room [OF base(1), of val sz "[]" cap 0] total sz by simp
  have R1: "room ?p1 ?r1 sz cap"
    using total sz unat_lt64 [of sz] by (simp add: room_def unat_sub_fits)
  have "unat (pad_after_prefix p) < unat ?r1" using total room_left [OF R1] by simp
  note s2 = room_padding [OF R1 this]
  let ?p2 = "?p1 @ ?fill (pad_after_prefix p)" and ?r2 = "?r1 - pad_after_prefix p"
  have n2: "?r2 \<noteq> 0" using total s2(3) room_left [OF R1] by auto
  obtain r3 where s3: "(if alternate_form info then itoa_insert_base cap base ?r2 ?p2
        else Done (OK, ?r2, ?p2)) = Done (OK, r3, ?p2 @ rev (prefix_str info base))"
      "room (?p2 @ rev (prefix_str info base)) r3 sz cap"
  proof (cases "alternate_form info")
    case True
    have "length (base_str base) < unat ?r2"
      using total room_left [OF s2(2)] True by (simp add: prefix_str_def)
    from insert_base_room [OF s2(2) this] that True show thesis by (auto simp: prefix_str_def)
  next
    case False
    with that s2(2) show thesis by (simp add: prefix_str_def)
  qed
  let ?p3 = "?p2 @ rev (prefix_str info base)"
  have "unat (pad_after_sign p) < unat r3" using total room_left [OF s3(2)] by simp
  note s4 = room_padding [OF s3(2) this]
  let ?p4 = "?p3 @ ?fill (pad_after_sign p)" and ?r4 = "r3 - pad_after_sign p"
  have n4: "?r4 \<noteq> 0" using total s4(3) room_left [OF s3(2)] by auto
  have "length (sign_str info positive) < unat ?r4" using total room_left [OF s4(2)] by simp
  then obtain r5 where s5: "itoa_insert_sign cap info positive ?r4 ?p4 =
      Done (OK, r5, ?p4 @ sign_str info positive)" "room (?p4 @ sign_str info positive) r5 sz cap"
    using insert_sign_room [OF s4(2)] by blast
  let ?p5 = "?p4 @ sign_str info positive"
  have "unat (pad_left p) < unat r5" using total room_left [OF s5(2)] by simp
  note s6 = room_padding [OF s5(2) this]
  let ?p6 = "?p5 @ ?fill (pad_left p)" and ?r6 = "r5 - pad_left p"
  have "unat (pad_right p) < unat ?r6" using total room_left [OF s6(2)] by simp
  then have s7: "itoa_reverse_out cap ?p6 ?r6 fc (pad_right p) OK =
      Done (OK, sz - of_nat (length ?p6 + unat (pad_right p)), rev ?p6 @ ?fill (pad_right p))"
    by (intro reverse_out_room [OF s6(2)]) simp
  have sign_rev: "rev (sign_str info positive) = sign_str info positive"
    by (auto simp: sign_str_def split: sign_t.splits)
  have final: "rev ?p6 @ ?fill (pad_right p) = itoa_text info base val positive"
    unfolding tx by (simp add: sign_rev)
  have len: "length ?p6 + unat (pad_right p) = length (itoa_text info base val positive)"
    unfolding tx by simp
  show ?thesis
    using s7 unfolding final len
    by (intro itoa_steps [OF base16 sz0 dig p_def [symmetric] fc_def [symmetric] s2(1) refl n2 s3(1) s4(1) refl n4 s5(1) s6(1)])
qed

section \<open>The conversions stay in their buffer\<close>

definition stays :: "(int \<times> size_t \<times> string) outcome \<Rightarrow> size_t \<Rightarrow> nat \<Rightarrow> bool" where
  "stays res s cap \<longleftrightarrow> (\<exists>e r out. res = Done (e, r, out) \<and> room out r s cap)"

lemma staysI: "res = Done (e, r, out) \<Longrightarrow> room out r s cap \<Longrightarrow> stays res s cap"
  by (auto simp: stays_def)

lemma room_padding_any:
  assumes "room out r s cap" "0 < unat r"
  shows "\<exists>out' n. padding cap out r fill len 0 = Done (out', n) \<and> room out' (r - n) s cap"
proof -
  let ?k = "min (unat len) (unat r)"
  have "length out + unat r \<le> cap" using assms(1) by (simp add: room_def)
  from padding_eq [OF this assms(2), of fill len 0]
  have "padding cap out r fill len 0 = Done (out @ replicate ?k fill, of_nat ?k)" by simp
  moreover have "unat (r - of_nat ?k) = unat r - ?k"
    using unat_lt64 [of r] by (simp add: unat_sub_fits unat_of_nat_min [of len "unat r"])
  then have "room (out @ replicate ?k fill) (r - of_nat ?k) s cap"
    using assms by (auto simp: room_def)
  ultimately show ?thesis by blast
qed

lemma insert_base_any:
  assumes "room out r s cap" "0 < unat r"
  shows "\<exists>e r' out'. itoa_insert_base cap base r out = Done (e, r', out') \<and> room out' r' s cap \<and>
    (e = OK \<longrightarrow> 0 < unat r')"
proof (cases "base = 2 \<or> base = 8 \<or> base = 16")
  case False
  then show ?thesis using assms by (auto simp: itoa_insert_base_def)
next
  case True
  have p1: "put cap out c = Done (out @ [c])" "room (out @ [c]) (r - 1) s cap" for c
    using room_put [OF assms] by simp_all
  show ?thesis
  proof (cases "r - 1 = 0")
    case r1: True
    then have "r = 1" by simp
    then show ?thesis using True p1 by (auto simp: itoa_insert_base_def)
  next
    case False
    then have "0 < unat (r - 1)" by (simp add: unat_gt_0)
    then have p2: "put cap (out @ [c]) d = Done (out @ [c, d])"
      "room (out @ [c, d]) (r - 1 - 1) s cap" for c d
      using room_put [OF p1(2)] by simp_all
    show ?thesis
      using True False p1(1) p2 by (auto simp: itoa_insert_base_def unat_gt_0)
  qed
qed

lemma insert_sign_any:
  assumes "room out r s cap" "0 < unat r"
  shows "\<exists>e r' out'. itoa_insert_sign cap info positive r out = Done (e, r', out') \<and> room out' r' s cap \<and>
    (e = OK \<longrightarrow> 0 < unat r')"
proof -
  have "put cap out c = Done (out @ [c])" "room (out @ [c]) (r - 1) s cap" for c
    using room_put [OF assms] by simp_all
  then show ?thesis
    using assms by (auto simp: itoa_insert_sign_def unat_gt_0 split: sign_t.splits)
qed

lemma reverse_out_stays:
  assumes "room out r s cap"
  shows "stays (itoa_reverse_out cap out r fill 0 e) s cap"
  using reverse_out_room [OF assms, of 0 fill e] assms room_result [OF assms]
  by (auto simp: stays_def room_def)

lemma stays_cases:
  assumes "m = Done (e, r, out)" "P e r out"
  shows "case m of Done (e, r, out) \<Rightarrow> P e r out | Fault _ \<Rightarrow> False"
  using assms by simp

text \<open>One rule per step, so that the body of \<open>itoa\<close> is walked through in its own order.\<close>

lemma stays_padding:
  assumes "room p r s cap" "0 < unat r" "\<And>p' n. room p' (r - n) s cap \<Longrightarrow> stays (k p' n) s cap"
  shows "stays (bindc (padding cap p r fill len 0) (\<lambda>(p', n). k p' n)) s cap"
  using room_padding_any [OF assms(1,2), of fill len] assms(3) by auto

lemma stays_insert_base:
  assumes "room p r s cap" "0 < unat r"
    "\<And>e r' p'. room p' r' s cap \<Longrightarrow> (e = OK \<Longrightarrow> 0 < unat r') \<Longrightarrow> stays (k e r' p') s cap"
  shows "stays (bindc (if alt then itoa_insert_base cap base r p else Done (OK, r, p)) (\<lambda>(e, r', p'). k e r' p')) s cap"
  using insert_base_any [OF assms(1,2), of base] assms by (cases alt) auto

lemma stays_insert_sign:
  assumes "room p r s cap" "0 < unat r"
    "\<And>e r' p'. room p' r' s cap \<Longrightarrow> (e = OK \<Longrightarrow> 0 < unat r') \<Longrightarrow> stays (k e r' p') s cap"
  shows "stays (bindc (itoa_insert_sign cap info positive r p) (\<lambda>(e, r', p'). k e r' p')) s cap"
  using insert_sign_any [OF assms(1,2), of info positive] assms(3) by auto

lemma stays_if: "(c \<Longrightarrow> stays a s cap) \<Longrightarrow> (\<not> c \<Longrightarrow> stays b s cap) \<Longrightarrow> stays (if c then a else b) s cap"
  by simp

lemma itoa_stays:
  assumes base: "base \<le> 16" and cap: "unat sz \<le> cap"
    and right: "alignment info \<noteq> ALIGN_LEFT" "alignment info \<noteq> ALIGN_CENTER"
  shows "stays (itoa cap sz val base info positive) sz cap"
proof (cases "sz = 0")
  case True
  with base cap show ?thesis by (simp add: itoa_def stays_def room_def)
next
  case False
  then have "0 < unat sz" by (simp add: unat_gt_0)
  then obtain full p1 r1 cnt where d: "itoa_digits cap base val [] sz 0 = Done (full, p1, r1, cnt)"
    "length p1 + unat r1 = unat sz" "full \<longleftrightarrow> r1 = 0"
    using digits_bounds [of sz "[]" cap base val 0] cap by auto
  have R1: "room p1 r1 sz cap" using d(2) cap by (simp add: room_def)
  have pr: "pad_right (itoa_paddings info cnt) = 0" for cnt
    using right by (auto simp: itoa_paddings_def Let_def split: align_t.splits)
  show ?thesis
  proof (cases full)
    case True
    with d False base reverse_out_stays [OF R1] show ?thesis by (simp add: itoa_def)
  next
    case nf: False
    have R1': "0 < unat r1" using nf d(3) by (simp add: unat_gt_0)
    show ?thesis
      unfolding itoa_def d(1) Let_def pr ensure_def bindc.simps split_conv
      using base False nf
      by (simp only: if_True if_False simp_thms)
        (intro stays_padding stays_insert_base stays_insert_sign stays_if reverse_out_stays R1 R1';
          (assumption | simp add: unat_gt_0))
  qed
qed

end
