(* ===== verification/StringPrint.thy ===== *)
theory StringPrint
  imports StringFmtSpec
begin

text \<open>
  \<open>snprint\<close> of \<^verbatim>\<open>src/string_util.c\<close> as a whole: it stays in its buffer and ends, and its
  output for a format made of literals and descriptors is the concatenation of the
  literals and the rendered arguments.
\<close>

lemma ex_true [simp]: "\<exists>b. b" "\<exists>b. b \<and> (\<not> b \<longrightarrow> P)" "\<exists>b. \<not> b" "Ex Not"
  by blast+

section \<open>stringtoa and gen\_str stay in the buffer\<close>

lemma room_put_all:
  assumes "room out r s cap" "length t \<le> unat r"
  shows "put_all cap out t = Done (out @ t)"
    "length t = unat k \<Longrightarrow> room (out @ t) (r - k) s cap"
proof -
  show "put_all cap out t = Done (out @ t)"
    using assms by (simp add: put_all_def room_def)
  show "room (out @ t) (r - k) s cap" if "length t = unat k"
    using assms that by (simp add: room_def unat_sub_fits)
qed

lemma take_length:
  assumes "p \<le> (of_nat (length str) :: size_t)"
  shows "length (take (unat p) str) = unat p"
proof -
  have "unat p \<le> length str mod 2 ^ 64"
    using assms by (simp add: word_le_nat_alt unat_of_nat)
  also have "\<dots> \<le> length str" by (rule mod_less_eq_dividend)
  finally show ?thesis by simp
qed

lemma stringtoa_stays:
  assumes "unat sz \<le> cap"
  shows "stays (stringtoa cap sz val_str info) sz cap"
proof (cases val_str)
  case None
  then show ?thesis using assms by (simp add: stringtoa_def stays_def room_def)
next
  case (Some str)
  define slen where "slen = (if precise info \<noteq> 0 then min (of_nat (length str)) (precise info)
    else of_nat (length str) :: size_t)"
  define padding_cnt where "padding_cnt = max slen (min_width info) - slen"
  define fill where "fill = (if alignment info \<noteq> ALIGN_DEFAULT \<and> fill_char info \<noteq> NUL
    then fill_char info else CHR '' '')"
  define cnts where "cnts = (case alignment info of
       ALIGN_LEFT \<Rightarrow> (padding_cnt, 0)
     | ALIGN_RIGHT \<Rightarrow> (0, padding_cnt)
     | ALIGN_CENTER \<Rightarrow> (padding_cnt div 2, padding_cnt - padding_cnt div 2)
     | _ \<Rightarrow> (padding_cnt, 0))"
  obtain left_cnt right_cnt where cnts: "cnts = (left_cnt, right_cnt)" by fastforce
  have slen: "slen \<le> of_nat (length str)" by (simp add: slen_def)
  have R0: "room [] sz sz cap" using assms by (simp add: room_def)
  let ?p1 = "min left_cnt sz"
  have l1: "length (replicate (unat ?p1) fill) = unat ?p1" "unat ?p1 \<le> unat sz"
    by (simp_all add: unat_min)
  have s1: "put_all cap [] (replicate (unat ?p1) fill) = Done (replicate (unat ?p1) fill)"
    using room_put_all(1) [OF R0, of "replicate (unat ?p1) fill"] l1 by simp
  let ?out1 = "replicate (unat ?p1) fill" and ?r1 = "sz - ?p1"
  have R1: "room ?out1 ?r1 sz cap" using room_put_all(2) [OF R0, of "replicate (unat ?p1) fill" ?p1] l1 by simp
  let ?p2 = "min slen ?r1"
  have "?p2 \<le> of_nat (length str)" using slen by (simp add: min_le_iff_disj)
  then have l2: "length (take (unat ?p2) str) = unat ?p2" by (rule take_length)
  have l2': "unat ?p2 \<le> unat ?r1" by (simp add: unat_min)
  have s2: "put_all cap ?out1 (take (unat ?p2) str) = Done (?out1 @ take (unat ?p2) str)"
    by (rule room_put_all(1) [OF R1]) (simp only: l2 l2')
  let ?out2 = "?out1 @ take (unat ?p2) str" and ?r2 = "?r1 - ?p2"
  have R2: "room ?out2 ?r2 sz cap" by (rule room_put_all(2) [OF R1]) (simp_all only: l2 l2')
  let ?p3 = "min right_cnt ?r2"
  have l3: "length (replicate (unat ?p3) fill) = unat ?p3" "unat ?p3 \<le> unat ?r2"
    by (simp_all add: unat_min)
  have s3: "put_all cap ?out2 (replicate (unat ?p3) fill) = Done (?out2 @ replicate (unat ?p3) fill)"
    by (rule room_put_all(1) [OF R2]) (simp only: l3)
  have R3: "room (?out2 @ replicate (unat ?p3) fill) (?r2 - ?p3) sz cap" by (rule room_put_all(2) [OF R2]) (simp_all only: l3)
  have eq: "stringtoa cap sz (Some str) info =
     (if ?r1 = 0 then Done (ERROR_STRING_TRUNCATED, ?r1, ?out1)
      else if ?r2 = 0 then Done (ERROR_STRING_TRUNCATED, ?r2, ?out2)
      else Done (if ?r2 - ?p3 = 0 then ERROR_STRING_TRUNCATED else OK, ?r2 - ?p3,
             ?out2 @ replicate (unat ?p3) fill))"
    unfolding stringtoa_def option.case util_min_min util_max_max Let_def
      slen_def [symmetric] padding_cnt_def [symmetric] fill_def [symmetric] cnts_def [symmetric] cnts split
      s1 s2 s3 bindc.simps ..
  show ?thesis
    unfolding Some eq using R1 R2 R3 by (auto simp: stays_def)
qed

definition plain_align :: "fmt_info_t \<Rightarrow> bool" where
  "plain_align info \<longleftrightarrow> alignment info \<noteq> ALIGN_LEFT \<and> alignment info \<noteq> ALIGN_CENTER"

lemma gen_str_stays:
  assumes "unat sz \<le> cap" "plain_align info"
  shows "\<exists>e n out. gen_str str_at cap sz info arg = Done (e, n, out) \<and>
    unat n = length out \<and> length out \<le> unat sz"
proof -
  define conv where "conv =
     (case fi_type info of
         VAR_TYPE_BIN \<Rightarrow> itoa cap sz arg 2 info True
       | VAR_TYPE_DEC \<Rightarrow> sitoa cap sz arg 10 info
       | VAR_TYPE_OCTAL \<Rightarrow> itoa cap sz arg 8 info True
       | VAR_TYPE_LOW_HEX \<Rightarrow> itoa cap sz arg 16 info True
       | VAR_TYPE_STRING \<Rightarrow> stringtoa cap sz (if arg = 0 then None else Some (str_at arg)) info
       | VAR_TYPE_NONE \<Rightarrow> Done (ERROR_STRING_INVALID_FORMAT, sz, []))"
  have itoa: "stays (itoa cap sz val base info positive) sz cap" if "base \<le> 16" for val base positive
    using itoa_stays [OF that assms(1)] assms(2) by (simp add: plain_align_def)
  have "stays conv sz cap"
  proof (cases "fi_type info")
    case VAR_TYPE_NONE
    then show ?thesis using assms(1) by (simp add: conv_def stays_def room_def)
  next
    case VAR_TYPE_DEC
    then show ?thesis using itoa by (simp add: conv_def sitoa_def)
  next
    case VAR_TYPE_STRING
    then show ?thesis using stringtoa_stays [OF assms(1)] by (simp add: conv_def)
  qed (simp_all add: conv_def itoa)
  then obtain e r out where c: "conv = Done (e, r, out)" "room out r sz cap"
    by (auto simp: stays_def)
  have "gen_str str_at cap sz info arg = Done (e, sz - r, out)"
    by (simp add: gen_str_def conv_def [symmetric] c(1))
  moreover have "unat (sz - r) = length out" "length out \<le> unat sz"
    using c(2) by (auto simp: room_def unat_sub_fits)
  ultimately show ?thesis by blast
qed

section \<open>The parser of descriptors\<close>

definition no_side_align :: "string \<Rightarrow> bool" where
  "no_side_align f \<longleftrightarrow> CHR ''<'' \<notin> set f \<and> CHR ''^'' \<notin> set f"

lemma char_at_ok: "i \<le> length f \<Longrightarrow> \<exists>c. char_at f i = Done c \<and> (c \<in> set f \<or> c = NUL)"
  by (auto simp: char_at_def)

lemma check_align_ok:
  assumes "i < length f" "1 \<le> i" "no_side_align f" "plain_align info"
  shows "\<exists>r info'. check_align f i info = Done (r, info') \<and> plain_align info'"
proof -
  have i: "i \<le> length f" "i + 1 \<le> length f" "i - 1 \<le> length f" using assms(1) by simp_all
  obtain c0 where c0: "char_at f i = Done c0" "c0 \<in> set f \<or> c0 = NUL"
    using char_at_ok [OF i(1)] by blast
  obtain c1 where c1: "char_at f (i + 1) = Done c1" using char_at_ok [OF i(2)] by blast
  obtain c2 where c2: "char_at f (i - 1) = Done c2" using char_at_ok [OF i(3)] by blast
  have "c0 \<noteq> CHR ''<''" "c0 \<noteq> CHR ''^''"
    using c0(2) assms(3) by (auto simp: no_side_align_def)
  then show ?thesis
    using c0(1) c1 c2 assms(2,4) by (auto simp: check_align_def plain_align_def Let_def)
qed

lemma check_token_ok:
  assumes "i < length f" "stage \<noteq> STAGE_START \<Longrightarrow> 1 \<le> i" "no_side_align f" "plain_align info"
  shows "\<exists>r info'. check_token stage f i info = Done (r, info') \<and> plain_align info'"
proof -
  have i: "i \<le> length f" "i + 1 \<le> length f" using assms(1) by simp_all
  obtain c0 c1 where c: "char_at f i = Done c0" "char_at f (i + 1) = Done c1"
    using char_at_ok [OF i(1)] char_at_ok [OF i(2)] by blast
  have "stage = STAGE_ALIGN \<Longrightarrow> ?thesis"
    using check_align_ok [OF assms(1) _ assms(3,4)] assms(2) by (simp add: check_token_def)
  moreover have "stage \<noteq> STAGE_ALIGN \<Longrightarrow> ?thesis"
    using c assms(4)
    by (simp add: check_token_def check_start_def check_specifier_start_def check_sign_def
        check_alternative_def check_zeropadding_def check_minwidth_def check_precise_def
        check_type_def check_end_def plain_align_def Let_def split: option.split)
  ultimately show ?thesis by blast
qed

lemma get_next_fmt_loop_ok:
  assumes "fmt + idx \<le> length f" "stage \<noteq> STAGE_START \<Longrightarrow> 1 \<le> idx" "no_side_align f" "plain_align info"
  shows "\<exists>e info' consumed lit at_end.
    get_next_fmt_loop f fmt idx stage info literal_len = Done (e, info', consumed, lit, at_end) \<and>
    plain_align info' \<and> (e = OK \<and> \<not> at_end \<longrightarrow> 1 \<le> consumed \<and> fmt + consumed \<le> length f)"
  using assms
proof (induction f fmt idx stage info literal_len rule: get_next_fmt_loop.induct)
  case (1 f fmt idx stage info literal_len)
  obtain c where c: "char_at f (fmt + idx) = Done c" using char_at_ok "1.prems"(1) by blast
  show ?case
  proof (cases "c = NUL")
    case True
    then show ?thesis using c "1.prems"(4) by (subst get_next_fmt_loop.simps) simp
  next
    case False
    then have lt: "fmt + idx < length f" using char_at_inside [OF c] by blast
    have "1 \<le> fmt + idx" if "stage \<noteq> STAGE_START" using "1.prems"(2) [OF that] by simp
    then obtain r info' where t: "check_token stage f (fmt + idx) info = Done (r, info')" "plain_align info'"
      using check_token_ok [OF lt _ "1.prems"(3,4)] by blast
    have step: "get_next_fmt_loop f fmt idx stage info literal_len = (case r of
             RET_TOKEN_NEXT_CHAR \<Rightarrow> get_next_fmt_loop f fmt (idx + 1) stage info' literal_len
           | RET_TOKEN_NEXT_STAGE \<Rightarrow> get_next_fmt_loop f fmt idx (stage + 1) info' literal_len
           | RET_TOKEN_STOP \<Rightarrow> Done (OK, info', idx + 1, literal_len, False)
           | RET_TOKEN_FOUND \<Rightarrow>
               get_next_fmt_loop f fmt (idx + 1) (stage + 1) info'
                 (if stage = STAGE_START then idx else literal_len)
           | RET_TOKEN_ERROR \<Rightarrow>
               Done (ERROR_STRING_INVALID_FORMAT, info', 0, literal_len, False))"
      using c False t(1) by (subst get_next_fmt_loop.simps) simp
    show ?thesis
    proof (cases r)
      case RET_TOKEN_NEXT_CHAR
      with "1.IH"(1) [OF c False t(1) refl RET_TOKEN_NEXT_CHAR] lt "1.prems" t(2)
      show ?thesis unfolding step by simp
    next
      case RET_TOKEN_NEXT_STAGE
      have "stage \<noteq> STAGE_START"
      proof
        assume "stage = STAGE_START"
        with t(1) RET_TOKEN_NEXT_STAGE show False
          by (auto simp: check_token_def check_start_def outcome_Done split: if_splits)
      qed
      with "1.IH"(2) [OF c False t(1) refl RET_TOKEN_NEXT_STAGE] lt "1.prems" t(2)
      show ?thesis unfolding step RET_TOKEN_NEXT_STAGE by simp
    next
      case RET_TOKEN_FOUND
      with "1.IH"(3) [OF c False t(1) refl RET_TOKEN_FOUND] lt "1.prems" t(2)
      show ?thesis unfolding step by simp
    qed (use step lt t(2) in simp_all)
  qed
qed

lemma get_next_fmt_ok:
  assumes "fmt \<le> length f" "no_side_align f"
  shows "\<exists>e info consumed lit at_end.
    get_next_fmt f fmt = Done (e, info, consumed, lit, at_end) \<and>
    plain_align info \<and> (e = OK \<and> \<not> at_end \<longrightarrow> 1 \<le> consumed \<and> fmt + consumed \<le> length f)"
  unfolding get_next_fmt_def
  by (rule get_next_fmt_loop_ok) (use assms in \<open>simp_all add: plain_align_def fmt_info_zero_def\<close>)

section \<open>The loop of snprint\<close>

text \<open>The buffer of \<open>snprint\<close>: the text, the space left and the byte for the terminator.\<close>

definition print_ok :: "nat \<Rightarrow> string \<Rightarrow> snprint_state \<Rightarrow> bool" where
  "print_ok n f st \<longleftrightarrow>
     length (ps_mem st) = n \<and> ps_buf st + unat (ps_remaining st) + 1 = n \<and> ps_fmt st \<le> length f"

lemma store_ok:
  assumes "off + length s \<le> length mem"
  shows "\<exists>mem'. store mem off s = Done mem' \<and> length mem' = length mem"
  using assms by (auto simp: store_def)

lemma snprint_round_ok:
  assumes "print_ok n f st" "no_side_align f"
  shows "\<exists>e stop st'. snprint_round str_at f args st = Done (e, stop, st') \<and>
    length (ps_mem st') = n \<and> ps_buf st' + unat (ps_remaining st') + 1 = n \<and>
    (\<not> stop \<longrightarrow> print_ok n f st' \<and> ps_fmt st < ps_fmt st')"
proof -
  have ok: "length (ps_mem st) = n" "ps_buf st + unat (ps_remaining st) + 1 = n" "ps_fmt st \<le> length f"
    using assms(1) by (simp_all add: print_ok_def)
  obtain e info consumed lit at_end where g: "get_next_fmt f (ps_fmt st) = Done (e, info, consumed, lit, at_end)"
    "plain_align info" "e = OK \<and> \<not> at_end \<longrightarrow> 1 \<le> consumed \<and> ps_fmt st + consumed \<le> length f"
    using get_next_fmt_ok [OF ok(3) assms(2)] by blast
  show ?thesis
  proof (cases "e = OK")
    case False
    then show ?thesis using g(1) ok by (simp add: snprint_round_def)
  next
    case e: True
    let ?n = "min lit (unat (ps_remaining st))"
    obtain mem where mem: "store (ps_mem st) (ps_buf st) (take ?n (drop (ps_fmt st) f)) = Done mem"
      "length mem = n"
    proof -
      have "length (take ?n (drop (ps_fmt st) f)) \<le> unat (ps_remaining st)" by simp
      then have "ps_buf st + length (take ?n (drop (ps_fmt st) f)) \<le> length (ps_mem st)"
        using ok(1,2) by linarith
      from store_ok [OF this] that ok(1) show thesis by blast
    qed
    show ?thesis
    proof (cases "unat (ps_remaining st) < lit")
      case True
      then show ?thesis using g(1) e mem ok by (simp add: snprint_round_def Let_def)
    next
      case fits: False
      let ?rem = "ps_remaining st - of_nat lit" and ?buf = "ps_buf st + lit"
      have rem: "unat ?rem = unat (ps_remaining st) - lit"
        using fits unat_lt64 [of "ps_remaining st"] by (simp add: unat_sub_fits)
      then have buf: "?buf + unat ?rem + 1 = n" using ok(2) fits by simp
      show ?thesis
      proof (cases "fi_type info = VAR_TYPE_NONE \<or> ps_arg st = MAX_ARG_CNT")
        case True
        then show ?thesis
          using g e mem ok fits buf by (auto simp: snprint_round_def Let_def print_ok_def)
      next
        case conv: False
        have "unat ?rem \<le> n - ?buf" using buf by simp
        from gen_str_stays [OF this g(2)] obtain e2 k out where
          s: "gen_str str_at (n - ?buf) ?rem info (args ! ps_arg st) = Done (e2, k, out)"
          "unat k = length out" "length out \<le> unat ?rem"
          by blast
        obtain mem2 where mem2: "store mem ?buf out = Done mem2" "length mem2 = n"
          using store_ok [of ?buf out mem] mem(2) buf s(3) by auto
        have k: "k \<le> ?rem" "unat (?rem - k) = unat ?rem - length out"
          using s(2,3) by (simp_all add: word_le_nat_alt unat_sub_fits)
        have round: "snprint_round str_at f args st =
            (if e2 = OK then Done (OK, at_end,
               st\<lparr>ps_mem := mem2, ps_fmt := ps_fmt st + consumed, ps_buf := ?buf + unat k,
                  ps_remaining := ?rem - k, ps_arg := ps_arg st + 1\<rparr>)
             else Done (e2, True,
               st\<lparr>ps_mem := mem2, ps_fmt := ps_fmt st + consumed, ps_buf := ?buf, ps_remaining := ?rem\<rparr>))"
          using g(1) e mem fits conv s(1) mem2 k(1) by (simp add: snprint_round_def Let_def)
        show ?thesis
          unfolding round using buf mem2(2) k(2) s(2,3) g(3) e by (auto simp: print_ok_def)
      qed
    qed
  qed
qed

lemma snprint_loop_fuel:
  assumes "no_side_align f"
  shows "print_ok n f st \<Longrightarrow> length f - ps_fmt st < fuel \<Longrightarrow>
    \<exists>e st'. snprint_loop fuel str_at f args st = Done (e, st') \<and>
      length (ps_mem st') = n \<and> ps_buf st' + unat (ps_remaining st') + 1 = n"
proof (induction fuel arbitrary: st)
  case (Suc fuel)
  show ?case
  proof (cases "ps_remaining st = 0")
    case True
    then show ?thesis using Suc.prems(1) by (simp add: print_ok_def)
  next
    case False
    obtain e stop st' where r: "snprint_round str_at f args st = Done (e, stop, st')"
      "length (ps_mem st') = n" "ps_buf st' + unat (ps_remaining st') + 1 = n"
      "\<not> stop \<longrightarrow> print_ok n f st' \<and> ps_fmt st < ps_fmt st'"
      using snprint_round_ok [OF Suc.prems(1) assms, of str_at args] by blast
    show ?thesis
    proof (cases stop)
      case True
      then show ?thesis using False r by simp
    next
      case nstop: False
      then have "length f - ps_fmt st' < fuel"
        using r(4) Suc.prems by (auto simp: print_ok_def)
      from Suc.IH [OF _ this] r(4) nstop False r(1) show ?thesis by simp
    qed
  qed
qed simp

section \<open>The output for a list of pieces\<close>

text \<open>
  The formats the runtime prints are sequences of literal text and descriptors
  \<open>{:[#]type}\<close>. \<open>unparse\<close> writes such a sequence as a format, \<open>render\<close> is the text that the
  sequence stands for.
\<close>

datatype piece = Lit string | Arg bool var_type_t

definition type_char :: "var_type_t \<Rightarrow> char" where
  "type_char t = (case t of VAR_TYPE_BIN \<Rightarrow> CHR ''b'' | VAR_TYPE_DEC \<Rightarrow> CHR ''d''
     | VAR_TYPE_OCTAL \<Rightarrow> CHR ''o'' | VAR_TYPE_LOW_HEX \<Rightarrow> CHR ''x'' | _ \<Rightarrow> CHR ''s'')"

definition descriptor :: "bool \<Rightarrow> var_type_t \<Rightarrow> string" where
  "descriptor alt t = ''{:'' @ (if alt then ''#'' else '''') @ [type_char t] @ ''}''"

definition plain_info :: "bool \<Rightarrow> var_type_t \<Rightarrow> fmt_info_t" where
  "plain_info alt t = fmt_info_zero\<lparr>fi_type := t, alternate_form := alt\<rparr>"

definition plain_literal :: "string \<Rightarrow> bool" where
  "plain_literal s \<longleftrightarrow> CHR ''{'' \<notin> set s \<and> NUL \<notin> set s"

definition arg_text :: "(register_t \<Rightarrow> string) \<Rightarrow> bool \<Rightarrow> var_type_t \<Rightarrow> register_t \<Rightarrow> string" where
  "arg_text str_at alt t arg =
     (case t of
        VAR_TYPE_DEC \<Rightarrow>
          if sint arg < 0 then ''-'' @ num_str 10 (unat (- arg)) else num_str 10 (unat arg)
      | VAR_TYPE_BIN \<Rightarrow> (if alt then ''0b'' else '''') @ num_str 2 (unat arg)
      | VAR_TYPE_OCTAL \<Rightarrow> (if alt then ''0o'' else '''') @ num_str 8 (unat arg)
      | VAR_TYPE_LOW_HEX \<Rightarrow> (if alt then ''0x'' else '''') @ num_str 16 (unat arg)
      | _ \<Rightarrow> str_at arg)"

text \<open>The parser on one descriptor.\<close>

lemma char_at_middle: "char_at (a @ c # b) (length a) = Done c"
  by (simp add: char_at_def)

lemma scan_literal:
  assumes "plain_literal lit" "idx \<le> length lit"
  shows "get_next_fmt_loop (p @ lit @ rest) (length p) idx STAGE_START info l =
    get_next_fmt_loop (p @ lit @ rest) (length p) (length lit) STAGE_START info l"
  using assms(2)
proof (induction "length lit - idx" arbitrary: idx)
  case 0
  then show ?case by simp
next
  case (Suc n)
  then have lt: "idx < length lit" by simp
  then have mem: "lit ! idx \<in> set lit" by (rule nth_mem)
  have c: "char_at (p @ lit @ rest) (length p + idx) = Done (lit ! idx)"
    using lt by (simp add: char_at_def nth_append)
  have "lit ! idx \<noteq> CHR ''{''" "lit ! idx \<noteq> NUL"
    using assms(1) mem by (metis plain_literal_def)+
  then have "get_next_fmt_loop (p @ lit @ rest) (length p) idx STAGE_START info l =
      get_next_fmt_loop (p @ lit @ rest) (length p) (idx + 1) STAGE_START info l"
    using c by (subst get_next_fmt_loop.simps) (simp add: check_token_def check_start_def contains_def)
  then show ?case using Suc lt by simp
qed

lemma get_next_fmt_end:
  assumes "plain_literal lit"
  shows "get_next_fmt (p @ lit) (length p) =
    Done (OK, fmt_info_zero, length lit + 1, length lit, True)"
proof -
  have "get_next_fmt (p @ lit) (length p) =
      get_next_fmt_loop (p @ lit @ []) (length p) (length lit) STAGE_START fmt_info_zero 0"
    unfolding get_next_fmt_def using scan_literal [OF assms, of 0 p "[]"] by simp
  also have "\<dots> = Done (OK, fmt_info_zero, length lit + 1, length lit, True)"
    by (subst get_next_fmt_loop.simps) (simp add: char_at_def)
  finally show ?thesis .
qed

text \<open>The characters that the parser of descriptors tells apart.\<close>

lemmas token_checks = check_start_def check_specifier_start_def check_align_def check_sign_def
  check_alternative_def check_zeropadding_def check_minwidth_def check_precise_def check_type_def
  check_end_def contains_def

lemma not_digits:
  "\<not> in_range (CHR ''b'') (CHR ''0'') (CHR ''9'')" "\<not> in_range (CHR ''d'') (CHR ''0'') (CHR ''9'')"
  "\<not> in_range (CHR ''o'') (CHR ''0'') (CHR ''9'')" "\<not> in_range (CHR ''x'') (CHR ''0'') (CHR ''9'')"
  "\<not> in_range (CHR ''s'') (CHR ''0'') (CHR ''9'')" "\<not> in_range (CHR ''}'') (CHR ''0'') (CHR ''9'')"
  "\<not> in_range (CHR ''#'') (CHR ''0'') (CHR ''9'')"
  by code_simp+

lemma get_next_fmt_arg:
  assumes "plain_literal lit" "t \<noteq> VAR_TYPE_NONE"
  shows "get_next_fmt (p @ lit @ descriptor alt t @ rest) (length p) =
    Done (OK, plain_info alt t, length lit + length (descriptor alt t), length lit, False)"
proof -
  let ?f = "p @ lit @ descriptor alt t @ rest"
  let ?n = "length p + length lit"
  have at: "char_at ?f (?n + k) = Done (descriptor alt t ! k)" if "k < length (descriptor alt t)" for k
    using that by (simp add: char_at_def nth_append)
  have *: "get_next_fmt ?f (length p) =
      get_next_fmt_loop ?f (length p) (length lit) STAGE_START fmt_info_zero 0"
    unfolding get_next_fmt_def using scan_literal [OF assms(1), of 0 p "descriptor alt t @ rest"] by simp
  note steps = get_next_fmt_loop.simps check_token_def token_checks not_digits
  show ?thesis
  proof (cases alt)
    case True
    have c: "char_at ?f ?n = Done (CHR ''{'')" "char_at ?f (?n + 1) = Done (CHR '':'')"
      "char_at ?f (?n + 2) = Done (CHR ''#'')" "char_at ?f (?n + 3) = Done (type_char t)"
      "char_at ?f (?n + 4) = Done (CHR ''}'')"
      using at [of 0] at [of 1] at [of 2] at [of 3] at [of 4] True
      by (simp_all add: descriptor_def numeral_eq_Suc)
    show ?thesis
      using c True assms(2) unfolding *
      by (cases t) (simp_all add: steps type_char_def numeral_eq_Suc descriptor_def plain_info_def
          fmt_info_zero_def add.assoc)
  next
    case False
    have c: "char_at ?f ?n = Done (CHR ''{'')" "char_at ?f (?n + 1) = Done (CHR '':'')"
      "char_at ?f (?n + 2) = Done (type_char t)" "char_at ?f (?n + 3) = Done (CHR ''}'')"
      using at [of 0] at [of 1] at [of 2] at [of 3] False
      by (simp_all add: descriptor_def numeral_eq_Suc)
    show ?thesis
      using c False assms(2) unfolding *
      by (cases t) (simp_all add: steps type_char_def numeral_eq_Suc descriptor_def plain_info_def
          fmt_info_zero_def add.assoc)
  qed
qed

text \<open>The conversion of one argument.\<close>

lemma itoa_text_plain:
  "itoa_text (plain_info alt t) base val positive =
     (if positive then '''' else ''-'') @ (if alt then base_str base else '''') @
     num_str (unat base) (unat val)"
proof -
  have cnt: "itoa_padding_cnt (plain_info alt t) base positive c = 0" if "alt \<Longrightarrow> True" for c
    by (simp add: itoa_padding_cnt_def plain_info_def fmt_info_zero_def Let_def)
  show ?thesis
    by (simp add: itoa_text_def cnt Let_def)
      (simp add: itoa_paddings_def plain_info_def fmt_info_zero_def sign_str_def prefix_str_def)
qed

lemma itoa_plain:
  assumes "2 \<le> unat base" "unat base \<le> 16" "unat sz \<le> cap"
    "length (itoa_text (plain_info alt t) base val positive) < unat sz"
  shows "itoa cap sz val base (plain_info alt t) positive =
    Done (OK, sz - of_nat (length (itoa_text (plain_info alt t) base val positive)),
      itoa_text (plain_info alt t) base val positive)"
  by (rule itoa_render [OF assms])

lemma stringtoa_plain:
  assumes "unat sz \<le> cap" "length s < unat sz"
  shows "stringtoa cap sz (Some s) (plain_info alt t) = Done (OK, sz - of_nat (length s), s)"
proof -
  have len: "unat (of_nat (length s) :: size_t) = length s"
    using assms(2) unat_lt64 [of sz] by simp
  have "max (of_nat (length s)) 0 = (of_nat (length s) :: size_t)" by (simp add: max_def)
  moreover have "min (of_nat (length s)) sz = of_nat (length s)"
    using assms(2) len by (simp add: min_def word_le_nat_alt)
  moreover have "sz - of_nat (length s) \<noteq> 0" using assms(2) len by auto
  moreover have "sz \<noteq> 0" using assms(2) by auto
  ultimately show ?thesis
    using assms len
    by (simp add: stringtoa_def plain_info_def fmt_info_zero_def Let_def put_all_def)
qed

lemma gen_str_plain:
  assumes "t \<noteq> VAR_TYPE_NONE" "t = VAR_TYPE_STRING \<Longrightarrow> arg \<noteq> 0" "unat sz \<le> cap"
    "length (arg_text str_at alt t arg) < unat sz" "t = VAR_TYPE_DEC \<Longrightarrow> \<not> alt"
  shows "gen_str str_at cap sz (plain_info alt t) arg =
    Done (OK, of_nat (length (arg_text str_at alt t arg)), arg_text str_at alt t arg)"
proof -
  have ty: "fi_type (plain_info alt t) = t" by (simp add: plain_info_def)
  note it = itoa_plain [where cap = cap and sz = sz, OF _ _ assms(3)]
  show ?thesis
  proof (cases t)
    case VAR_TYPE_DEC
    then show ?thesis
      using assms(4,5) ty it [where base = 10 and t = t and alt = alt and positive = True and val = arg]
        it [where base = 10 and t = t and alt = alt and positive = False and val = "- arg"]
      by (cases "sint arg < 0") (simp_all add: gen_str_def sitoa_def arg_text_def itoa_text_plain)
  next
    case VAR_TYPE_STRING
    then show ?thesis
      using assms(2-4) stringtoa_plain [OF assms(3), of "str_at arg" alt t] ty
      by (simp add: gen_str_def arg_text_def)
  next
    case VAR_TYPE_BIN
    then show ?thesis
      using assms(4) ty it [where base = 2 and t = t and alt = alt and positive = True and val = arg]
      by (cases alt) (simp_all add: gen_str_def arg_text_def itoa_text_plain base_str_def)
  next
    case VAR_TYPE_OCTAL
    then show ?thesis
      using assms(4) ty it [where base = 8 and t = t and alt = alt and positive = True and val = arg]
      by (cases alt) (simp_all add: gen_str_def arg_text_def itoa_text_plain base_str_def)
  next
    case VAR_TYPE_LOW_HEX
    then show ?thesis
      using assms(4) ty it [where base = 16 and t = t and alt = alt and positive = True and val = arg]
      by (cases alt) (simp_all add: gen_str_def arg_text_def itoa_text_plain base_str_def)
  qed (use assms(1) in simp)
qed

text \<open>The whole format: literals each followed by a descriptor, and a last literal.\<close>

type_synonym seg = "string \<times> bool \<times> var_type_t"

fun unparse :: "seg list \<Rightarrow> string \<Rightarrow> string" where
  "unparse [] tail = tail"
| "unparse ((lit, alt, t) # segs) tail = lit @ descriptor alt t @ unparse segs tail"

fun render :: "(register_t \<Rightarrow> string) \<Rightarrow> seg list \<Rightarrow> register_t list \<Rightarrow> string \<Rightarrow> string" where
  "render str_at [] args tail = tail"
| "render str_at ((lit, alt, t) # segs) (arg # args) tail =
     lit @ arg_text str_at alt t arg @ render str_at segs args tail"
| "render str_at ((lit, alt, t) # segs) [] tail = lit"

definition seg_ok :: "seg \<Rightarrow> register_t \<Rightarrow> bool" where
  "seg_ok seg arg = (case seg of (lit, alt, t) \<Rightarrow>
     plain_literal lit \<and> t \<noteq> VAR_TYPE_NONE \<and> (t = VAR_TYPE_STRING \<longrightarrow> arg \<noteq> 0) \<and>
     (t = VAR_TYPE_DEC \<longrightarrow> \<not> alt))"

lemma store_write:
  assumes "mem = w @ drop (length w) str" "length w + length s \<le> length str"
  shows "store mem (length w) s = Done ((w @ s) @ drop (length (w @ s)) str)"
  using assms by (simp add: store_def add.commute)

definition printing :: "string \<Rightarrow> string \<Rightarrow> size_t \<Rightarrow> nat \<Rightarrow> nat \<Rightarrow> snprint_state" where
  "printing str w r fmt k =
     \<lparr>ps_mem = w @ drop (length w) str, ps_buf = length w, ps_remaining = r, ps_fmt = fmt, ps_arg = k\<rparr>"

lemma printing_sel [simp]:
  "ps_mem (printing str w r fmt k) = w @ drop (length w) str" "ps_buf (printing str w r fmt k) = length w"
  "ps_remaining (printing str w r fmt k) = r" "ps_fmt (printing str w r fmt k) = fmt"
  "ps_arg (printing str w r fmt k) = k"
  by (simp_all add: printing_def)

lemma snprint_round_arg:
  assumes "seg_ok (lit, alt, t) (args ! k)" "k < 5"
    "length lit + length (arg_text str_at alt t (args ! k)) < unat r"
    "length w + unat r \<le> length str"
  shows "snprint_round str_at (p @ lit @ descriptor alt t @ rest) args (printing str w r (length p) k) =
    Done (OK, False, printing str (w @ lit @ arg_text str_at alt t (args ! k))
      (r - of_nat (length lit + length (arg_text str_at alt t (args ! k))))
      (length p + length (lit @ descriptor alt t)) (k + 1))"
proof -
  let ?txt = "arg_text str_at alt t (args ! k)"
  have seg: "plain_literal lit" "t \<noteq> VAR_TYPE_NONE" "t = VAR_TYPE_STRING \<Longrightarrow> args ! k \<noteq> 0"
    "t = VAR_TYPE_DEC \<Longrightarrow> \<not> alt"
    using assms(1) by (simp_all add: seg_ok_def)
  note fmt = get_next_fmt_arg [OF seg(1,2), of p alt rest]
  let ?r1 = "r - of_nat (length lit)"
  have r1: "unat ?r1 = unat r - length lit" using assms(3) by (intro unat_sub_length) simp
  let ?w1 = "w @ lit"
  have cap: "length (?w1 @ drop (length ?w1) str) = length str" using assms(3,4) by simp
  have "unat ?r1 \<le> length str - length ?w1" using r1 assms(3,4) by simp
  from gen_str_plain [OF seg(2,3) this _ seg(4)] have gen:
    "gen_str str_at (length str - length ?w1) ?r1 (plain_info alt t) (args ! k) =
      Done (OK, of_nat (length ?txt), ?txt)"
    using assms(3) r1 by simp
  have st1: "store (w @ drop (length w) str) (length w) lit = Done (?w1 @ drop (length ?w1) str)"
    using assms(3,4) by (intro store_write [OF refl]) simp
  have st2: "store (?w1 @ drop (length ?w1) str) (length ?w1) ?txt =
      Done ((?w1 @ ?txt) @ drop (length (?w1 @ ?txt)) str)"
    using assms(3,4) by (intro store_write [OF refl]) simp
  have t64: "unat (of_nat (length ?txt) :: size_t) = length ?txt"
    using assms(3) unat_lt64 [of r] by simp
  have le: "of_nat (length ?txt) \<le> ?r1" using t64 r1 assms(3) by (simp add: word_le_nat_alt)
  have ty: "fi_type (plain_info alt t) \<noteq> VAR_TYPE_NONE" using seg(2) by (simp add: plain_info_def)
  show ?thesis
    unfolding snprint_round_def printing_sel fmt bindc.simps split
    using assms(2,3) st1 st2 gen cap le t64 ty
    by (simp add: Let_def printing_def algebra_simps)
qed

lemma snprint_loop_render:
  assumes "plain_literal tail"
  shows "list_all2 seg_ok segs (take (length segs) (drop k args)) \<Longrightarrow> k + length segs \<le> 5 \<Longrightarrow>
    length args = 5 \<Longrightarrow>
    length (render str_at segs (drop k args) tail) < unat r \<Longrightarrow>
    length w + unat r \<le> length str \<Longrightarrow> length segs < fuel \<Longrightarrow>
    \<exists>fmt k'. snprint_loop fuel str_at (p @ unparse segs tail) args (printing str w r (length p) k) =
      Done (OK, printing str (w @ render str_at segs (drop k args) tail)
        (r - of_nat (length (render str_at segs (drop k args) tail))) fmt k')"
proof (induction segs arbitrary: k r w fuel p)
  case Nil
  obtain fuel' where fuel: "fuel = Suc fuel'" using Nil.prems(6) by (cases fuel) auto
  have r: "r \<noteq> 0" "length tail < unat r" using Nil.prems(4) by auto
  have st: "store (w @ drop (length w) str) (length w) tail =
      Done ((w @ tail) @ drop (length (w @ tail)) str)"
    using r Nil.prems(5) by (intro store_write [OF refl]) simp
  have "fi_type fmt_info_zero = VAR_TYPE_NONE" by (simp add: fmt_info_zero_def)
  then have "snprint_round str_at (p @ tail) args (printing str w r (length p) k) =
      Done (OK, True, printing str (w @ tail) (r - of_nat (length tail)) (length p + (length tail + 1)) k)"
    unfolding snprint_round_def printing_sel get_next_fmt_end [OF assms] bindc.simps split
    using r st by (simp add: Let_def printing_def)
  then show ?case using r fuel by auto
next
  case (Cons seg segs)
  obtain lit alt t where seg: "seg = (lit, alt, t)" by (cases seg) auto
  obtain fuel' where fuel: "fuel = Suc fuel'" using Cons.prems(6) by (cases fuel) auto
  have k: "k < 5" using Cons.prems(2) by simp
  then have dk: "drop k args = args ! k # drop (k + 1) args"
    using Cons.prems(3) by (simp add: Cons_nth_drop_Suc)
  let ?txt = "arg_text str_at alt t (args ! k)"
  let ?rest = "render str_at segs (drop (k + 1) args) tail"
  have ren: "render str_at (seg # segs) (drop k args) tail = lit @ ?txt @ ?rest"
    unfolding dk seg by simp
  let ?n = "length lit + length ?txt"
  have fits: "?n + length ?rest < unat r" using Cons.prems(4) unfolding ren by simp
  have ok: "seg_ok (lit, alt, t) (args ! k)"
    "list_all2 seg_ok segs (take (length segs) (drop (k + 1) args))"
    using Cons.prems(1) unfolding dk seg by simp_all
  have round: "snprint_round str_at (p @ unparse (seg # segs) tail) args (printing str w r (length p) k) =
      Done (OK, False, printing str (w @ lit @ ?txt) (r - of_nat ?n)
        (length (p @ lit @ descriptor alt t)) (k + 1))"
    using snprint_round_arg [OF ok(1) k _ Cons.prems(5), of str_at p "unparse segs tail"] fits
    by (simp add: seg)
  have r': "unat (r - of_nat ?n) = unat r - ?n" using fits by (intro unat_sub_length) simp
  have "\<exists>fmt k'. snprint_loop fuel' str_at ((p @ lit @ descriptor alt t) @ unparse segs tail) args
      (printing str (w @ lit @ ?txt) (r - of_nat ?n) (length (p @ lit @ descriptor alt t)) (k + 1)) =
      Done (OK, printing str ((w @ lit @ ?txt) @ ?rest)
        ((r - of_nat ?n) - of_nat (length ?rest)) fmt k')"
  proof (rule Cons.IH [OF ok(2)])
    show "length ?rest < unat (r - of_nat ?n)" using r' fits by simp
    show "length (w @ lit @ ?txt) + unat (r - of_nat ?n) \<le> length str"
      using r' fits Cons.prems(5) by simp
  qed (use Cons.prems fuel in simp_all)
  then obtain fmt k' where "snprint_loop fuel' str_at ((p @ lit @ descriptor alt t) @ unparse segs tail) args
      (printing str (w @ lit @ ?txt) (r - of_nat ?n) (length (p @ lit @ descriptor alt t)) (k + 1)) =
      Done (OK, printing str ((w @ lit @ ?txt) @ ?rest)
        ((r - of_nat ?n) - of_nat (length ?rest)) fmt k')"
    by blast
  moreover have "r \<noteq> 0" using fits by auto
  moreover have "p @ unparse (seg # segs) tail = (p @ lit @ descriptor alt t) @ unparse segs tail"
    by (simp add: seg)
  ultimately have "snprint_loop fuel str_at (p @ unparse (seg # segs) tail) args (printing str w r (length p) k) =
      Done (OK, printing str ((w @ lit @ ?txt) @ ?rest)
        ((r - of_nat ?n) - of_nat (length ?rest)) fmt k')"
    using round fuel by simp
  then show ?case unfolding ren by (auto simp: algebra_simps)
qed

lemma snprint_text:
  assumes "list_all2 seg_ok segs (take (length segs) args)" "length segs \<le> 5" "length args = 5"
    "plain_literal tail" "length (render str_at segs args tail) + 1 < unat sz" "unat sz \<le> length str"
  shows "snprint str_at str sz (unparse segs tail) args =
    Done (render str_at segs args tail @ [NUL] @ drop (length (render str_at segs args tail) + 1) str,
      OK, of_nat (length (render str_at segs args tail)))"
proof -
  let ?t = "render str_at segs args tail"
  have "sz \<noteq> 0" using assms(5) by auto
  then have r: "unat (sz - 1) = unat sz - 1" by (rule unat_pred)
  have len: "length segs \<le> length (unparse segs tail)"
    by (induction segs) (auto simp: descriptor_def)
  have "\<exists>fmt k'. snprint_loop (length (unparse segs tail) + 2) str_at ([] @ unparse segs tail) args
      (printing str [] (sz - 1) (length ([] :: string)) 0) =
      Done (OK, printing str ([] @ render str_at segs (drop 0 args) tail)
        ((sz - 1) - of_nat (length (render str_at segs (drop 0 args) tail))) fmt k')"
    by (rule snprint_loop_render [OF assms(4)]) (use assms r len in simp_all)
  then obtain fmt k' where loop: "snprint_loop (length (unparse segs tail) + 2) str_at (unparse segs tail) args
      \<lparr>ps_mem = str, ps_buf = 0, ps_remaining = sz - 1, ps_fmt = 0, ps_arg = 0\<rparr> =
      Done (OK, printing str ?t ((sz - 1) - of_nat (length ?t)) fmt k')"
    by (auto simp: printing_def)
  have "store (?t @ drop (length ?t) str) (length ?t) [NUL] =
      Done ((?t @ [NUL]) @ drop (length (?t @ [NUL])) str)"
    using assms(5,6) by (intro store_write [OF refl]) simp
  with loop show ?thesis by (simp add: snprint_def)
qed

lemma snprint_stays:
  assumes "no_side_align f" "length str = unat sz" "sz \<noteq> 0"
  shows "\<exists>mem e r. snprint str_at str sz f args = Done (mem, e, r) \<and> length mem = length str \<and>
    NUL \<in> set mem \<and> (e \<noteq> ERROR_STRING_TRUNCATED \<longrightarrow> unat r < unat sz \<and> mem ! unat r = NUL)"
proof -
  let ?st = "\<lparr>ps_mem = str, ps_buf = 0, ps_remaining = sz - 1, ps_fmt = 0, ps_arg = 0\<rparr>"
  have pos: "0 < unat sz" using assms(3) by (simp add: unat_gt_0)
  then have "print_ok (length str) f ?st"
    using assms(2) unat_pred [OF assms(3)] by (simp add: print_ok_def)
  from snprint_loop_fuel [OF assms(1) this, of "length f + 2" str_at args]
  obtain e st' where loop: "snprint_loop (length f + 2) str_at f args ?st = Done (e, st')"
    "length (ps_mem st') = length str" "ps_buf st' + unat (ps_remaining st') + 1 = length str"
    by auto
  let ?mem = "take (ps_buf st') (ps_mem st') @ [NUL] @ drop (ps_buf st' + 1) (ps_mem st')"
  have st: "store (ps_mem st') (ps_buf st') [NUL] = Done ?mem"
    using loop(2,3) by (simp add: store_def)
  have "unat ((sz - 1) - ps_remaining st') = ps_buf st'"
    using loop(3) assms(2) unat_pred [OF assms(3)] by (subst unat_sub_fits) simp_all
  moreover have "?mem ! ps_buf st' = NUL" "length ?mem = length str"
    using loop(2,3) by (simp_all add: nth_append)
  moreover have "ps_buf st' < unat sz" using loop(3) assms(2) by simp
  ultimately show ?thesis
    using loop(1) st by (simp add: snprint_def)
qed

section \<open>Properties of the formatter\<close>



text \<open>C7: whatever the arguments and the buffer, \<open>snprint\<close> returns and never stores outside the
  buffer, provided the format has no left or centre alignment; the buffer it returns is
  terminated, and on success the terminator is at the position returned, below the size.\<close>

theorem snprint_in_bounds:
  assumes "no_side_align f" "length str = unat sz" "sz \<noteq> 0"
  shows "\<exists>mem e r. snprint str_at str sz f args = Done (mem, e, r) \<and> length mem = length str \<and>
    NUL \<in> set mem \<and> (e \<noteq> ERROR_STRING_TRUNCATED \<longrightarrow> unat r < unat sz \<and> mem ! unat r = NUL)"
  using assms by (rule snprint_stays)

theorem snprint_in_bounds_witness:
  "\<exists>mem e r. snprint (\<lambda>a. ''abc'') (replicate 4 (CHR ''?'')) 4 ''{:#x} {:>40s}'' [1, 2, 3, 4, 5] =
     Done (mem, e, r) \<and> length mem = 4"
  using snprint_in_bounds [of "''{:#x} {:>40s}''" "replicate 4 (CHR ''?'')" 4]
  by (fastforce simp: no_side_align_def)

text \<open>With a centred conversion \<open>snprint\<close> stores past the end of its buffer: once the padding on
  the left has used up the space, \<open>itoa\<close> calls \<open>padding\<close> for the right side with no space
  left, and \<open>padding\<close> stores before it looks at the space.\<close>

theorem snprint_centre_overflow:
  "snprint (\<lambda>a. '''') (replicate 8 (CHR ''?'')) 8 ''{:^20d}'' [255, 0, 0, 0, 0] = Fault BadAccess"
  by code_simp

text \<open>C40: the text of an integer determines its value: reading the digits \<open>itoa\<close> writes, in the base
  it was given, gives the value back.\<close>

theorem itoa_reads_back:
  assumes "2 \<le> unat base" "unat base \<le> 16" "unat sz \<le> cap"
    "length (num_str (unat base) (unat val)) < unat sz"
  shows "\<exists>rem s. itoa cap sz val base (plain_info False t) True = Done (OK, rem, s) \<and>
    read_number (unat base) s = unat val \<and> unat rem + length s = unat sz"
proof -
  let ?s = "num_str (unat base) (unat val)"
  have "itoa cap sz val base (plain_info False t) True = Done (OK, sz - of_nat (length ?s), ?s)"
    using itoa_plain [OF assms(1-3), of False t val True] assms(4) by (simp add: itoa_text_plain)
  moreover have "unat (sz - of_nat (length ?s)) = unat sz - length ?s"
    using assms(4) by (rule unat_sub_length)
  ultimately show ?thesis
    using read_num_str [OF assms(1,2)] assms(4) by simp
qed

theorem itoa_reads_back_witness:
  "\<exists>rem s. itoa 70 70 0xffffffffffffffff 2 (plain_info False VAR_TYPE_BIN) True = Done (OK, rem, s) \<and>
     read_number 2 s = 2 ^ 64 - 1"
proof -
  have "length (num_str (unat (2 :: u64)) (unat (0xffffffffffffffff :: u64))) < unat (70 :: u64)"
    by (simp add: num_str.simps)
  from itoa_reads_back [OF _ _ _ this, of 70 VAR_TYPE_BIN] show ?thesis by auto
qed

section \<open>Deviations from the documented format syntax\<close>

text \<open>
  Two effects the module's comments do not announce, as evaluations of the model: with the
  alternate form and one character of padding, the two characters of the prefix are
  subtracted from a padding of one and the count wraps, so the number is preceded by spaces up
  to the end of the buffer, the rest of the format is dropped and the result is \<open>OK\<close>; and a string
  aligned to the left is padded on its left, while a number aligned to the left is padded on
  its right.
\<close>

lemma alternate_width_underflow:
  "snprint (\<lambda>a. '''') (replicate 12 (CHR ''?'')) 12 ''{:#3x}.'' [255, 0, 0, 0, 0] =
     Done (''       0xff'' @ [NUL], OK, 11)"
  by code_simp

lemma left_alignment_differs:
  "snprint (\<lambda>a. ''ab'') (replicate 8 (CHR ''?'')) 8 ''{:<4s}'' [1, 0, 0, 0, 0] =
     Done (''  ab'' @ [NUL] @ ''???'', OK, 4)"
  "snprint (\<lambda>a. ''ab'') (replicate 8 (CHR ''?'')) 8 ''{:<4d}'' [12, 0, 0, 0, 0] =
     Done (''12  '' @ [NUL] @ ''???'', OK, 4)"
  by code_simp+

end
