(* ===== verification/LogBuf.thy ===== *)
theory LogBuf
  imports CMachine
begin

text \<open>
  The log ring buffer of \<^verbatim>\<open>src/log_buf.c\<close>: the structure \<open>struct log_s\<close> that the
  variable \<open>log_buf\<close> points to, \<open>log_set_buffer\<close> and \<open>log_append\<close>. The contents of the ring
  are related to the text appended so far: they are its last \<open>size - 1\<close> characters, oldest
  first, and a terminator stands at the write index.
\<close>

section \<open>The model\<close>

record log_s =
  write_idx :: u32
  log_size :: u32
  buffer :: string

definition early_log_buf :: log_s where
  "early_log_buf = \<lparr>write_idx = 0, log_size = 304, buffer = replicate 304 NUL\<rparr>"

text \<open>\<open>sizeof(size_t)\<close> is 8 and \<open>sizeof(uint32_t)\<close> is 4. The new area keeps its bytes.\<close>

definition log_set_buffer :: "(uintptr_t \<Rightarrow> u8) \<Rightarrow> uintptr_t \<Rightarrow> size_t \<Rightarrow> log_s outcome" where
  "log_set_buffer m new_addr area_sz =
     ensure (new_addr \<noteq> 0)
      (ensure (area_sz > 8 * 2)
        (ensure (area_sz \<le> 524288)
          (let sz = ucast (area_sz - 4 - 4) :: u32
           in Done \<lparr>write_idx = 0, log_size = sz,
                buffer = map (\<lambda>i. char_of (unat (m (new_addr + 8 + of_nat i)))) [0..<unat sz]\<rparr>)))"

definition log_append :: "string \<Rightarrow> size_t \<Rightarrow> log_s \<Rightarrow> log_s outcome" where
  "log_append msg sz log =
     ensure (log_size log \<noteq> 0)
      (let (msg_off, checked_sz) =
             (if sz \<ge> ucast (log_size log) \<and> log_size log \<noteq> 0
              then (sz - (ucast (log_size log) - 1), log_size log - 1)
              else (0, ucast sz));
           first_len = util_min (ucast (log_size log) - ucast (write_idx log)) (ucast checked_sz) :: size_t;
           second_len = ucast checked_sz - first_len
       in bindc (fetch msg (unat msg_off) (unat first_len)) (\<lambda>s1.
          bindc (store (buffer log) (unat (write_idx log)) s1) (\<lambda>buf.
          bindc (if second_len > 0
                 then bindc (fetch msg (unat msg_off + unat first_len)
                               (unat (util_min (ucast (log_size log)) second_len)))
                        (store buf 0)
                 else Done buf) (\<lambda>buf.
          let w = write_idx log + checked_sz;
              w = (if w \<ge> log_size log then w - log_size log else w)
          in bindc (store buf (unat w) [NUL]) (\<lambda>buf.
             Done (log\<lparr>write_idx := w, buffer := buf\<rparr>))))))"

text \<open>Appending a list of messages, each with its length.\<close>

fun log_append_all :: "string list \<Rightarrow> log_s \<Rightarrow> log_s outcome" where
  "log_append_all [] log = Done log"
| "log_append_all (m # ms) log = bindc (log_append m (of_nat (length m)) log) (log_append_all ms)"

section \<open>The invariant and the abstraction\<close>

definition log_ok :: "log_s \<Rightarrow> bool" where
  "log_ok log \<longleftrightarrow>
     1 < unat (log_size log) \<and> unat (log_size log) \<le> 524280 \<and>
     unat (write_idx log) < unat (log_size log) \<and> length (buffer log) = unat (log_size log)"

text \<open>The text in the ring: from the character after the write index round to the one before it.\<close>

definition log_text :: "log_s \<Rightarrow> string" where
  "log_text log = drop (unat (write_idx log) + 1) (buffer log) @ take (unat (write_idx log)) (buffer log)"

definition log_terminated :: "log_s \<Rightarrow> bool" where
  "log_terminated log \<longleftrightarrow> buffer log ! unat (write_idx log) = NUL"

lemma length_log_text: "log_ok log \<Longrightarrow> length (log_text log) = unat (log_size log) - 1"
  by (auto simp: log_ok_def log_text_def)

lemma ring_index: "w < n \<Longrightarrow> i < n \<Longrightarrow> (w + i) mod n = (if w + i < n then w + i else w + i - n)"
  for n :: nat
  by (simp add: mod_if)

lemma nth_rotate_text:
  assumes "length b = n" "w < n" "i < n - 1"
  shows "(drop (w + 1) b @ take w b) ! i = b ! ((w + (i + 1)) mod n)"
proof (cases "i < n - (w + 1)")
  case True
  then show ?thesis using assms by (simp add: nth_append add_ac)
next
  case False
  then have "(w + (i + 1)) mod n = i - (n - (w + 1))"
    using assms ring_index [of w n "i + 1"] by (simp add: add.commute)
  then show ?thesis using False assms by (simp add: nth_append)
qed

lemma nth_log_text:
  assumes "log_ok log" "i < unat (log_size log) - 1"
  shows "log_text log ! i =
    buffer log ! ((unat (write_idx log) + (i + 1)) mod unat (log_size log))"
  unfolding log_text_def using assms by (intro nth_rotate_text) (simp_all add: log_ok_def)

section \<open>The refinement\<close>

text \<open>The two copies of \<open>log_append\<close> and the terminator, read back through the ring.\<close>

lemma ring_store:
  assumes n: "length buf = n" "w < n" "length m < n" "w + length s1 \<le> n"
    and m: "m = s1 @ s2" "s2 = [] \<or> w + length s1 = n"
    and st: "store buf w s1 = Done b1" "(if s2 = [] then Done b1 else store b1 0 s2) = Done b2"
      "store b2 ((w + length m) mod n) [c] = Done b3"
    and i: "i < n"
  shows "b3 ! ((w + i) mod n) =
    (if i < length m then m ! i else if i = length m then c else buf ! ((w + i) mod n))"
proof -
  have len: "length b1 = n" "length b2 = n"
    using n st by (auto dest!: length_store split: if_splits)
  have b1: "b1 ! j = (if w \<le> j \<and> j < w + length s1 then s1 ! (j - w) else buf ! j)" if "j < n" for j
    using nth_store [OF st(1)] that n by simp
  have b2: "b2 ! j = (if j < length s2 then s2 ! j else b1 ! j)" if "j < n" for j
    using st(2) nth_store [of b1 0 s2 b2 j] that len by (auto split: if_splits)
  have b3: "b3 ! j = (if j = (w + length m) mod n then c else b2 ! j)" if "j < n" for j
    using nth_store [OF st(3)] that len by auto
  have inj: "(w + i) mod n = (w + length m) mod n \<longleftrightarrow> i = length m"
    using n i by (auto simp: ring_index)
  have bound: "(w + i) mod n < n" using n by simp
  have wrap: "w + i - n = i - length s1" if "s2 \<noteq> []" using m that by auto
  show ?thesis
  proof (cases "i = length m")
    case True
    then show ?thesis using b3 [OF bound] by simp
  next
    case False
    then have "b3 ! ((w + i) mod n) = b2 ! ((w + i) mod n)" using b3 [OF bound] inj by simp
    also have "\<dots> = (if i < length m then m ! i else buf ! ((w + i) mod n))"
      using b2 [OF bound] b1 [OF bound] n m i wrap by (cases "s2 = []") (auto simp: ring_index nth_append)
    finally show ?thesis using False by simp
  qed
qed

text \<open>
  The parameters \<open>log_append\<close> computes: the offset and the length of the part of the message
  that is kept, and the length of the first copy.
\<close>

text \<open>Only the end of a message that is longer than the ring is kept.\<close>

lemma clipped_message:
  fixes sz :: size_t
  assumes "log_ok log"
    "(if sz \<ge> ucast (log_size log) \<and> log_size log \<noteq> 0 then (sz - (ucast (log_size log) - 1), log_size log - 1)
      else (0, ucast sz)) = (mo, ck)"
  shows "unat mo = unat sz - min (unat sz) (unat (log_size log) - 1) \<and>
    unat ck = min (unat sz) (unat (log_size log) - 1)"
proof -
  define n where "n = unat (log_size log)"
  have n: "1 < n" "n \<le> 524280" using assms(1) by (simp_all add: log_ok_def n_def)
  then have nz: "log_size log \<noteq> 0" by (auto simp: n_def)
  then have big: "sz \<ge> ucast (log_size log) \<and> log_size log \<noteq> 0 \<longleftrightarrow> n \<le> unat sz"
    by (simp add: word_le_nat_alt n_def)
  show ?thesis
  proof (cases "n \<le> unat sz")
    case True
    have "unat (ucast (log_size log) - 1 :: size_t) = n - 1"
      using nz by (subst unat_pred) (auto simp: n_def unat_ucast_32_64 simp flip: unat_eq_0)
    moreover have "unat (log_size log - 1) = n - 1" using nz by (simp add: n_def unat_pred)
    ultimately show ?thesis using assms(2) big True n(1)
      by (auto simp: n_def [symmetric] min_def unat_sub_fits)
  next
    case False
    then show ?thesis using assms(2) big n(2) by (auto simp: n_def [symmetric] unat_ucast_64_32)
  qed
qed

lemma log_append_bytes:
  assumes ok: "log_ok log" and sz: "unat sz \<le> length msg"
  defines "n \<equiv> unat (log_size log)" and "w \<equiv> unat (write_idx log)"
  defines "k \<equiv> min (unat sz) (n - 1)"
  defines "m \<equiv> take k (drop (unat sz - k) msg)"
  obtains buf' where
    "log_append msg sz log = Done (log\<lparr>write_idx := of_nat ((w + k) mod n), buffer := buf'\<rparr>)"
    "length buf' = n"
    "\<And>i. i < n \<Longrightarrow> buf' ! ((w + i) mod n) =
       (if i < k then m ! i else if i = k then NUL else buffer log ! ((w + i) mod n))"
proof -
  have n: "1 < n" "n \<le> 524280" "w < n" "length (buffer log) = n"
    using ok by (simp_all add: log_ok_def n_def w_def)
  define f where "f = min (n - w) k"
  define off where "off = unat sz - k"
  have k: "k < n" "k \<le> unat sz" using n(1) by (auto simp: k_def)
  have m: "length m = k" using sz by (simp add: m_def k_def)
  let ?s1 = "take f m" and ?s2 = "drop f m"
  obtain b1 where b1: "store (buffer log) w ?s1 = Done b1"
    using n m by (auto simp: f_def store_fits)
  have len1: "length b1 = n" using b1 n by (auto dest: length_store)
  have "\<exists>b2. (if ?s2 = [] then Done b1 else store b1 0 ?s2) = Done b2"
    using len1 m k by (simp add: store_fits)
  then obtain b2 where b2: "(if ?s2 = [] then Done b1 else store b1 0 ?s2) = Done b2" by blast
  have len2: "length b2 = n" using b2 len1 by (auto dest: length_store split: if_splits)
  have wk: "(w + k) mod n < n" using n by simp
  obtain b3 where b3: "store b2 ((w + k) mod n) [NUL] = Done b3"
    using len2 wk by (auto simp: store_fits)
  have "log_append msg sz log = Done (log\<lparr>write_idx := of_nat ((w + k) mod n), buffer := b3\<rparr>)"
  proof -
    let ?big = "sz \<ge> ucast (log_size log) \<and> log_size log \<noteq> 0"
    have n32: "unat (log_size log) = n" "unat (write_idx log) = w" by (simp_all add: n_def w_def)
    have nz: "log_size log \<noteq> 0" using n(1) n32 by auto
    obtain mo ck where pc: "(if ?big then (sz - (ucast (log_size log) - 1), log_size log - 1)
        else (0, ucast sz)) = (mo, ck)" by fastforce
    have mo: "unat mo = off \<and> unat ck = k" unfolding off_def k_def n_def by (rule clipped_message [OF ok pc])
    let ?fl = "util_min (ucast (log_size log) - ucast (write_idx log)) (ucast ck) :: size_t"
    let ?sl = "ucast ck - ?fl"
    have fl: "unat ?fl = f" using mo n32 n(3) by (simp add: unat_min unat_sub_fits f_def)
    have sl: "unat ?sl = k - f" using mo fl by (subst unat_sub_fits) (simp_all add: f_def)
    have sl0: "0 < ?sl \<longleftrightarrow> ?s2 \<noteq> []" using sl m by (auto simp: word_less_nat_alt)
    have ml: "unat (util_min (ucast (log_size log)) ?sl) = k - f"
      unfolding util_min_min [of "ucast (log_size log)"] unat_min sl unat_ucast_32_64 n32 using k by simp
    have off: "off + k \<le> length msg" using sz k by (simp add: off_def)
    have f1: "fetch msg off f = Done ?s1"
      using off by (simp add: fetch_fits m_def f_def off_def min_def)
    have f2: "fetch msg (off + f) (k - f) = Done ?s2"
      using off by (simp add: fetch_fits m_def f_def off_def min_def drop_take add.commute)
    have add: "unat (write_idx log + ck) = w + k"
      using mo n32 n k by (subst unat_add_fits) simp_all
    have wi: "unat (if log_size log \<le> write_idx log + ck then write_idx log + ck - log_size log
        else write_idx log + ck) = (w + k) mod n"
      using add n32 n(3) k by (simp add: word_le_nat_alt unat_sub_fits ring_index)
    then have wi': "(if log_size log \<le> write_idx log + ck then write_idx log + ck - log_size log
        else write_idx log + ck) = of_nat ((w + k) mod n)"
      using wk n(2) by (intro word_unat_eq_iff [THEN iffD2]) simp
    have st2: "(if 0 < ?sl then bindc (fetch msg (off + f)
          (unat (util_min (ucast (log_size log)) ?sl))) (store b1 0) else Done b1) = Done b2"
      unfolding ml f2 bindc.simps sl0 using b2 by (simp split: if_splits)
    have "unat (of_nat ((w + k) mod n) :: u32) = (w + k) mod n"
      using wk n(2) by simp
    then show ?thesis
      unfolding log_append_def pc Let_def split wi' wi n32 fl mo[THEN conjunct1]
      using nz b1 b3 f1 st2 by (simp del: util_min_min)
  qed
  moreover have "length b3 = n" using b3 len2 by (auto dest: length_store)
  moreover have "b3 ! ((w + i) mod n) =
       (if i < k then m ! i else if i = k then NUL else buffer log ! ((w + i) mod n))" if "i < n" for i
  proof -
    have "b3 ! ((w + i) mod n) =
       (if i < length m then m ! i else if i = length m then NUL else buffer log ! ((w + i) mod n))"
      by (rule ring_store [OF n(4,3) _ _ _ _ b1 b2])
        (use n m k b3 that in \<open>auto simp: f_def min_def\<close>)
    then show ?thesis unfolding m .
  qed
  ultimately show thesis by (rule that)
qed

text \<open>What \<open>log_append\<close> does to the text: it appends the message and forgets the oldest characters.\<close>

lemma shifted_text_nth:
  assumes "length t = n - 1" "k = min s (n - 1)" "s \<le> length msg" "i < n - 1"
  shows "drop s (t @ take s msg) ! i =
    (if k + (i + 1) < n then t ! (i + k) else take k (drop (s - k) msg) ! (k + (i + 1) - n))"
proof (cases "k + (i + 1) < n")
  case True
  then have "k = s" using assms(2) by (auto simp: min_def split: if_splits)
  then show ?thesis using True assms(1,3) by (auto simp: nth_append add_ac)
next
  case False
  define j where "j = k + (i + 1) - n"
  have j: "j < k" "k + (i + 1) = j + n" "k \<le> s" using False assms(2,4) by (auto simp: j_def)
  have "drop s (t @ take s msg) ! i = (t @ take s msg) ! (s + i)"
    by (rule nth_drop) (use assms(1,3) in simp)
  also have "\<dots> = msg ! (s + i - (n - 1))" using j assms(1,4) by (auto simp: nth_append)
  also have "s + i - (n - 1) = s - k + j" using j assms(4) by linarith
  also have "msg ! (s - k + j) = take k (drop (s - k) msg) ! j" using j assms(3) by simp
  finally show ?thesis using False by (simp add: j_def)
qed

lemma log_append_text:
  assumes ok: "log_ok log" and sz: "unat sz \<le> length msg"
  shows "\<exists>log'. log_append msg sz log = Done log' \<and> log_ok log' \<and> log_terminated log' \<and>
    log_size log' = log_size log \<and>
    log_text log' = drop (unat sz) (log_text log @ take (unat sz) msg)"
proof -
  define n w where "n = unat (log_size log)" and "w = unat (write_idx log)"
  define k where "k = min (unat sz) (n - 1)"
  define m where "m = take k (drop (unat sz - k) msg)"
  have n: "1 < n" "n \<le> 524280" "w < n" "length (buffer log) = n"
    using ok by (simp_all add: log_ok_def n_def w_def)
  have k: "k < n" "k \<le> unat sz" using n(1) by (auto simp: k_def)
  obtain buf' where app:
    "log_append msg sz log = Done (log\<lparr>write_idx := of_nat ((w + k) mod n), buffer := buf'\<rparr>)"
    and buf: "length buf' = n" "\<And>i. i < n \<Longrightarrow> buf' ! ((w + i) mod n) =
       (if i < k then m ! i else if i = k then NUL else buffer log ! ((w + i) mod n))"
    using log_append_bytes [OF assms] unfolding n_def w_def k_def m_def by blast
  let ?log' = "log\<lparr>write_idx := of_nat ((w + k) mod n), buffer := buf'\<rparr>"
  have wk: "(w + k) mod n < n" using n by simp
  then have wi: "unat (of_nat ((w + k) mod n) :: u32) = (w + k) mod n" using n(2) by simp
  have ok': "log_ok ?log'" using n wk wi buf(1) by (simp add: log_ok_def n_def [symmetric])
  have ends: "log_terminated ?log'" using buf(2) [of k] k wi by (simp add: log_terminated_def)
  have len: "length (log_text ?log') = n - 1" "length (log_text log) = n - 1"
    using length_log_text [OF ok'] length_log_text [OF ok] by (simp_all add: n_def)
  have "log_text ?log' = drop (unat sz) (log_text log @ take (unat sz) msg)"
  proof (rule nth_equalityI)
    show "length (log_text ?log') = length (drop (unat sz) (log_text log @ take (unat sz) msg))"
      using len sz by simp
  next
    fix i assume "i < length (log_text ?log')"
    then have i: "i < n - 1" using len by simp
    have "log_text ?log' ! i = buf' ! ((w + (k + (i + 1))) mod n)"
    proof -
      have "((w + k) mod n + (i + 1)) mod n = (w + (k + (i + 1))) mod n"
        by (simp only: mod_add_left_eq add.assoc)
      then show ?thesis using nth_log_text [OF ok', of i] i wi by (simp add: n_def [symmetric])
    qed
    also have "\<dots> = (if k + (i + 1) < n then log_text log ! (i + k) else m ! (k + (i + 1) - n))"
    proof (cases "k + (i + 1) < n")
      case True
      then have "buf' ! ((w + (k + (i + 1))) mod n) = buffer log ! ((w + ((i + k) + 1)) mod n)"
        using buf(2) [of "k + (i + 1)"] by (simp add: add_ac)
      also have "\<dots> = log_text log ! (i + k)"
        using nth_log_text [OF ok, of "i + k"] True by (simp add: n_def w_def)
      finally show ?thesis using True by (simp only: if_True)
    next
      case False
      define j where "j = k + (i + 1) - n"
      have j: "j < k" "k + (i + 1) = j + n" using False i by (auto simp: j_def)
      have "buf' ! ((w + (k + (i + 1))) mod n) = buf' ! ((w + j) mod n)"
        unfolding j(2) by (simp flip: add.assoc)
      also have "\<dots> = m ! j" using buf(2) [of j] j k by simp
      finally show ?thesis using False by (simp only: if_False j_def)
    qed
    also have "\<dots> = drop (unat sz) (log_text log @ take (unat sz) msg) ! i"
      unfolding m_def by (rule shifted_text_nth [OF len(2) k_def sz i, symmetric])
    finally show "log_text ?log' ! i = drop (unat sz) (log_text log @ take (unat sz) msg) ! i" .
  qed
  then show ?thesis using app ok' ends by auto
qed

section \<open>Properties of the log buffer\<close>

text \<open>C10: from any well-formed log buffer, appending a list of messages never leaves the buffer;
  afterwards the ring is terminated and holds the most recent characters of everything that
  was appended, in order, however the messages were cut at the end of the ring.\<close>

theorem log_append_keeps_newest:
  assumes "log_ok log" "\<forall>m \<in> set msgs. length m < 2 ^ 64"
  shows "\<exists>log'. log_append_all msgs log = Done log' \<and> log_ok log' \<and>
    (msgs \<noteq> [] \<longrightarrow> log_terminated log') \<and>
    log_text log' = drop (length (concat msgs)) (log_text log @ concat msgs)"
  using assms
proof (induction msgs arbitrary: log)
  case (Cons m msgs)
  have sz: "unat (of_nat (length m) :: size_t) = length m" using Cons.prems(2) by simp
  from log_append_text [OF Cons.prems(1), of "of_nat (length m)" m] obtain l1 where l1:
    "log_append m (of_nat (length m)) log = Done l1" "log_ok l1" "log_terminated l1"
    "log_text l1 = drop (length m) (log_text log @ m)"
    unfolding sz by auto
  from Cons.IH [OF l1(2)] Cons.prems(2) obtain l2 where l2: "log_append_all msgs l1 = Done l2"
    "log_ok l2" "msgs \<noteq> [] \<longrightarrow> log_terminated l2"
    "log_text l2 = drop (length (concat msgs)) (log_text l1 @ concat msgs)"
    by auto
  have "log_text l2 = drop (length (concat (m # msgs))) (log_text log @ concat (m # msgs))"
  proof -
    have "log_text l1 @ concat msgs = drop (length m) ((log_text log @ m) @ concat msgs)"
      unfolding l1(4) by simp
    then show ?thesis unfolding l2(4) by (simp only: drop_drop) (simp add: add.commute)
  qed
  moreover have "log_terminated l2" using l2 l1(3) by (cases msgs) auto
  ultimately show ?case using l1(1) l2(1,2) by simp
qed auto

theorem log_append_keeps_newest_witness:
  "\<exists>log'. log_append_all [''boot'', ''ready''] \<lparr>write_idx = 3, log_size = 8, buffer = ''abcdefgh''\<rparr> = Done log' \<and>
     log_text log' = ''otready'' \<and> log_terminated log'"
proof -
  let ?log = "\<lparr>write_idx = 3, log_size = 8, buffer = ''abcdefgh''\<rparr>"
  have "log_ok ?log" by (simp add: log_ok_def)
  note spec = log_append_keeps_newest [OF this, of "[''boot'', ''ready'']"]
  have "log_text ?log = ''efghabc''" by code_simp
  moreover have "drop (length (concat [''boot'', ''ready''])) (''efghabc'' @ concat [''boot'', ''ready'']) = ''otready''"
    by code_simp
  moreover have "\<forall>m \<in> set [''boot'', ''ready'']. length m < 2 ^ 64" by simp
  ultimately show ?thesis using spec by (metis list.distinct(1))
qed

text \<open>\<open>log_set_buffer\<close> refuses a null address and an area too small or too large by stopping in an
  assertion, and otherwise makes a well-formed ring of \<open>area_sz - 8\<close> characters, whatever
  the memory holds.\<close>

theorem log_set_buffer_spec:
  "case log_set_buffer m new_addr area_sz of
     Done log \<Rightarrow> new_addr \<noteq> 0 \<and> 16 < unat area_sz \<and> unat area_sz \<le> 524288 \<and> log_ok log \<and>
       unat (log_size log) + 8 = unat area_sz \<and> write_idx log = 0
   | Fault e \<Rightarrow> e = AssertionFailed \<and>
       (new_addr = 0 \<or> unat area_sz \<le> 16 \<or> 524288 < unat area_sz)"
proof -
  have "unat (ucast (area_sz - 4 - 4) :: u32) = unat area_sz - 8"
    if "16 < unat area_sz" "unat area_sz \<le> 524288"
    using that by (simp add: unat_ucast_64_32 unat_sub_fits diff_diff_eq)
  then show ?thesis
    by (auto simp: log_set_buffer_def ensure_def word_less_nat_alt word_le_nat_alt log_ok_def Let_def)
qed

end
