(* ===== verification/CString.thy ===== *)
theory CString
  imports CMachine
begin

text \<open>
  The string functions of \<^verbatim>\<open>src/string.c\<close> and \<^verbatim>\<open>arch/armv8/src/string.c\<close>:
  \<open>strcmp\<close>, \<open>strlen\<close>, \<open>strscpy\<close> and \<open>memchr\<close>. A C string is the list of its characters
  without the terminating \<open>NUL\<close>, a pointer into it an offset; reading the character at the
  length reads the terminator, and reading further is an access outside the object.
\<close>

definition c_string :: "string \<Rightarrow> bool" where
  "c_string s \<longleftrightarrow> NUL \<notin> set s"

lemma char_at_append: "char_at (p @ q) (length p) = Done (if q = [] then NUL else hd q)"
  by (cases q) (auto simp: char_at_def nth_append)

section \<open>strcmp\<close>

text \<open>\<open>char\<close> is unsigned on this architecture; the result is the difference of two of them.\<close>

definition char_code :: "char \<Rightarrow> int" where
  "char_code c = int (of_char c)"

function strcmp_loop :: "string \<Rightarrow> string \<Rightarrow> nat \<Rightarrow> nat \<Rightarrow> int outcome" where
  "strcmp_loop s1 s2 l r =
     bindc (char_at s1 l) (\<lambda>cl.
     bindc (char_at s2 r) (\<lambda>cr.
       if cl \<noteq> NUL \<and> cl = cr then strcmp_loop s1 s2 (l + 1) (r + 1)
       else Done (char_code cl - char_code cr)))"
  by pat_completeness auto
termination
  by (relation "measure (\<lambda>(s1, s2, l, r). length s1 - l)") (auto dest: char_at_inside)

declare strcmp_loop.simps [simp del]

definition strcmp :: "string \<Rightarrow> string \<Rightarrow> int outcome" where
  "strcmp s1 s2 = strcmp_loop s1 s2 0 0"

section \<open>strlen\<close>

function strlen_loop :: "string \<Rightarrow> nat \<Rightarrow> nat outcome" where
  "strlen_loop str p_end =
     bindc (char_at str p_end) (\<lambda>c. if c \<noteq> NUL then strlen_loop str (p_end + 1) else Done p_end)"
  by pat_completeness auto
termination
  by (relation "measure (\<lambda>(str, p_end). length str - p_end)") (auto dest: char_at_inside)

declare strlen_loop.simps [simp del]

definition strlen :: "string option \<Rightarrow> size_t outcome" where
  "strlen str =
     (case str of None \<Rightarrow> Fault AssertionFailed
      | Some s \<Rightarrow> bindc (strlen_loop s 0) (\<lambda>p_end. Done (of_nat p_end)))"

section \<open>strscpy\<close>

function strscpy_loop ::
  "string \<Rightarrow> string \<Rightarrow> nat \<Rightarrow> nat \<Rightarrow> size_t \<Rightarrow> (string \<times> nat \<times> nat \<times> size_t) outcome" where
  "strscpy_loop dest str out pos remain =
     bindc (char_at str pos) (\<lambda>c.
       if c \<noteq> NUL \<and> remain > 1 then
         bindc (store dest out [c]) (\<lambda>dest. strscpy_loop dest str (out + 1) (pos + 1) (remain - 1))
       else Done (dest, out, pos, remain))"
  by pat_completeness auto
termination
  by (relation "measure (\<lambda>(dest, str, out, pos, remain). length str - pos)")
    (auto dest: char_at_inside)

declare strscpy_loop.simps [simp del]

text \<open>The bytes of \<open>dest\<close> afterwards and the result, a \<open>ssize_t\<close>.\<close>

definition strscpy :: "string \<Rightarrow> string \<Rightarrow> size_t \<Rightarrow> (string \<times> int) outcome" where
  "strscpy dest str count =
     (if count = 0 then Done (dest, - E2BIG)
      else
        bindc (strscpy_loop dest str 0 0 count) (\<lambda>(dest, out, pos, remain).
        bindc (store dest out [NUL]) (\<lambda>dest.
        bindc (char_at str pos) (\<lambda>c.
          Done (dest, if c \<noteq> NUL then - E2BIG else sint count - sint remain)))))"

section \<open>memchr\<close>

text \<open>The bytes at \<open>s\<close>; the result is the offset of the byte found, \<open>None\<close> for \<open>NULL\<close>.\<close>

function memchr_loop :: "string \<Rightarrow> nat \<Rightarrow> char \<Rightarrow> size_t \<Rightarrow> nat option outcome" where
  "memchr_loop s str delim remain =
     (if remain > 0 then
        bindc (fetch s str 1) (\<lambda>c.
          if c = [delim] then Done (Some str)
          else memchr_loop s (str + 1) delim (remain - 1))
      else Done None)"
  by pat_completeness auto
termination
  by (relation "measure (\<lambda>(s, str, delim, remain). unat remain)")
    (auto simp: word_less_nat_alt unat_pred unat_gt_0)

declare memchr_loop.simps [simp del]

definition memchr :: "string \<Rightarrow> char \<Rightarrow> size_t \<Rightarrow> nat option outcome" where
  "memchr s c n = memchr_loop s 0 c n"

section \<open>What the functions return\<close>

lemma char_code_eq: "char_code a = char_code b \<longleftrightarrow> a = b"
  by (simp add: char_code_def)

lemma strcmp_loop_append:
  assumes "c_string s1" "c_string s2"
  shows "s1 = p @ a \<Longrightarrow> s2 = p @ b \<Longrightarrow>
    \<exists>d. strcmp_loop s1 s2 (length p) (length p) = Done d \<and> (d = 0 \<longleftrightarrow> a = b)"
proof (induction a arbitrary: p b)
  case Nil
  then show ?case
    using assms by (subst strcmp_loop.simps)
      (auto simp: char_at_append [of _ "[]", simplified] char_at_append char_code_eq c_string_def
        dest: hd_in_set)
next
  case (Cons c a)
  have c: "c \<noteq> NUL" using Cons.prems(1) assms(1) by (auto simp: c_string_def)
  show ?case
  proof (cases "b \<noteq> [] \<and> hd b = c")
    case True
    then obtain b' where b: "b = c # b'" by (cases b) auto
    from Cons.IH [of "p @ [c]" b'] Cons.prems b obtain d where
      "strcmp_loop s1 s2 (length p + 1) (length p + 1) = Done d" "d = 0 \<longleftrightarrow> a = b'"
      by auto
    then show ?thesis using Cons.prems b c
      by (subst strcmp_loop.simps) (auto simp: char_at_append)
  next
    case False
    then show ?thesis using Cons.prems c
      by (subst strcmp_loop.simps) (auto simp: char_at_append char_code_eq)
  qed
qed

text \<open>\<open>strcmp\<close> returns zero exactly on equal strings.\<close>

lemma strcmp_zero:
  assumes "c_string s1" "c_string s2"
  obtains d where "strcmp s1 s2 = Done d" "d = 0 \<longleftrightarrow> s1 = s2"
  using strcmp_loop_append [OF assms, of "[]" s1 s2] by (auto simp: strcmp_def)

lemma strlen_loop_from:
  "c_string str \<Longrightarrow> i \<le> length str \<Longrightarrow> strlen_loop str i = Done (length str)"
proof (induction "length str - i" arbitrary: i)
  case 0
  then show ?case by (subst strlen_loop.simps) (simp add: char_at_def)
next
  case (Suc n)
  then have i: "i < length str" and "str ! i \<noteq> NUL" by (auto simp: c_string_def in_set_conv_nth)
  then show ?case using Suc(1) [of "i + 1"] Suc(2-)
    by (subst strlen_loop.simps) (simp add: char_at_def)
qed

lemma strlen_length: "c_string s \<Longrightarrow> strlen (Some s) = Done (of_nat (length s))"
  by (simp add: strlen_def strlen_loop_from)

lemma strscpy_loop_result:
  "c_string str \<Longrightarrow> pos \<le> length str \<Longrightarrow> pos < unat count \<Longrightarrow> unat count \<le> length dest \<Longrightarrow>
   strscpy_loop (take pos str @ drop pos dest) str pos pos (count - of_nat pos) =
     (let k = min (length str) (unat count - 1) in
      Done (take k str @ drop k dest, k, k, count - of_nat k))"
proof (induction "length str - pos" arbitrary: pos)
  case 0
  then show ?case by (subst strscpy_loop.simps) (auto simp: char_at_def min_def)
next
  case (Suc n)
  then have pos: "pos < length str" "str ! pos \<noteq> NUL" by (auto simp: c_string_def in_set_conv_nth)
  have r: "unat (count - of_nat pos) = unat count - pos" using Suc.prems(3) by (rule unat_sub_length)
  show ?case
  proof (cases "pos + 1 < unat count")
    case True
    have "store (take pos str @ drop pos dest) pos [str ! pos] =
        Done (take (pos + 1) str @ drop (pos + 1) dest)"
      using pos Suc.prems True by (simp add: store_fits take_Suc_conv_app_nth min_def)
    moreover have "1 < count - of_nat pos" using r True by (simp add: word_less_nat_alt)
    moreover have "count - of_nat pos - 1 = count - of_nat (pos + 1)" by simp
    moreover have "strscpy_loop (take (pos + 1) str @ drop (pos + 1) dest) str (pos + 1) (pos + 1)
        (count - of_nat (pos + 1)) =
      (let k = min (length str) (unat count - 1) in
        Done (take k str @ drop k dest, k, k, count - of_nat k))"
      by (rule Suc(1)) (use Suc(2-) pos True in auto)
    ultimately show ?thesis
      using pos by (subst strscpy_loop.simps) (simp only: char_at_def in_object_True bindc.simps
          simp_thms if_True less_imp_le)
  next
    case False
    then have "\<not> 1 < count - of_nat pos" using r by (simp add: word_less_nat_alt)
    moreover have "min (length str) (unat count - 1) = pos" using False pos Suc.prems(3) by simp
    ultimately show ?thesis using pos
      by (subst strscpy_loop.simps) (simp add: char_at_def Let_def)
  qed
qed

lemma strscpy_text:
  assumes "c_string str" "0 < unat count" "unat count \<le> length dest" "unat count < 2 ^ 63"
  shows "strscpy dest str count =
    (let k = min (length str) (unat count - 1) in
     Done (take k str @ [NUL] @ drop (k + 1) dest,
       if length str < unat count then int (length str) else - E2BIG))"
proof -
  let ?k = "min (length str) (unat count - 1)"
  have nz: "count \<noteq> 0" using assms(2) by auto
  have loop: "strscpy_loop dest str 0 0 count =
      Done (take ?k str @ drop ?k dest, ?k, ?k, count - of_nat ?k)"
    using strscpy_loop_result [of str 0 count dest] assms by (simp add: Let_def)
  have st: "store (take ?k str @ drop ?k dest) ?k [NUL] = Done (take ?k str @ [NUL] @ drop (?k + 1) dest)"
  proof -
    have "store (take j str @ drop j dest) j [NUL] = Done (take j str @ [NUL] @ drop (j + 1) dest)"
      if "j \<le> length str" "j < length dest" for j
      using that by (subst store_fits) auto
    then show ?thesis using assms(2,3) by auto
  qed
  have k: "?k < unat count" using assms(2) by simp
  then have r: "unat (count - of_nat ?k) = unat count - ?k" by (rule unat_sub_length)
  have "sint count = int (unat count)" "sint (count - of_nat ?k) = int (unat (count - of_nat ?k))"
    using assms(4) r by (simp_all add: sint_nonneg)
  then have diff: "sint count - sint (count - of_nat ?k) = int ?k" using r k by linarith
  show ?thesis
  proof (cases "length str < unat count")
    case True
    then show ?thesis using nz loop st diff assms(1) k
      by (simp add: strscpy_def Let_def char_at_def min_def split: if_splits)
  next
    case False
    moreover then have "str ! ?k \<noteq> NUL" "?k < length str"
      using assms(1,2) by (auto simp: c_string_def in_set_conv_nth)
    ultimately show ?thesis using nz loop st assms(1)
      by (simp add: strscpy_def Let_def char_at_def)
  qed
qed

lemma memchr_loop_find:
  assumes "i \<le> length s" "unat n \<le> length s - i"
  shows "memchr_loop s i c n = Done (find (\<lambda>j. s ! j = c) [i..<i + unat n])"
  using assms
proof (induction "unat n" arbitrary: i n)
  case 0
  then show ?case by (subst memchr_loop.simps) (simp add: word_less_nat_alt)
next
  case (Suc k)
  then have "n \<noteq> 0" by auto
  then have n: "0 < n" "unat (n - 1) = k" "n \<noteq> 0"
    using Suc(2) by (simp_all add: word_less_nat_alt unat_pred unat_gt_0)
  have "fetch s i 1 = Done [s ! i]" using Suc by (simp add: fetch_fits take_Suc_conv_app_nth hd_drop_conv_nth take_Suc)
  moreover have "[i..<i + unat n] = i # [i + 1..<(i + 1) + k]"
    unfolding Suc(2) [symmetric] by (simp add: upt_conv_Cons del: upt_Suc)
  moreover have "memchr_loop s (i + 1) c (n - 1) = Done (find (\<lambda>j. s ! j = c) [i + 1..<(i + 1) + k])"
    using Suc(1) [of "n - 1" "i + 1"] Suc(2-) n by simp
  ultimately show ?case
    using n by (subst memchr_loop.simps) (simp del: upt_Suc)
qed

text \<open>\<open>memchr\<close> returns the first of the \<open>n\<close> bytes that equals the character.\<close>

lemma memchr_find:
  "unat n \<le> length s \<Longrightarrow> memchr s c n = Done (find (\<lambda>j. s ! j = c) [0..<unat n])"
  using memchr_loop_find [of 0 s n c] by (simp add: memchr_def)

section \<open>Properties of the string functions\<close>

text \<open>C35: \<open>strscpy\<close> into a buffer of \<open>count\<close> bytes always terminates the copy inside the buffer: it
  copies the whole string and returns its length when the string and its terminator fit, and
  otherwise copies the first \<open>count - 1\<close> characters and returns \<open>-E2BIG\<close>.\<close>

theorem strscpy_spec:
  assumes "c_string str" "0 < unat count" "unat count \<le> length dest" "unat count < 2 ^ 63"
  shows "strscpy dest str count =
    (let k = min (length str) (unat count - 1) in
     Done (take k str @ [NUL] @ drop (k + 1) dest,
       if length str < unat count then int (length str) else - E2BIG))"
  using assms by (rule strscpy_text)

theorem strscpy_spec_witness:
  "strscpy ''????????'' ''VM1: '' 8 = Done (''VM1: '' @ [NUL] @ ''??'', 5)"
proof -
  have "c_string ''VM1: ''" by (simp add: c_string_def)
  from strscpy_spec [OF this, of 8 "''????????''"] show ?thesis by (simp add: Let_def min_def)
qed

end
