(* ===== verification/Device.thy ===== *)
theory Device
  imports CMachine
begin

text \<open>
  The outside world of the runtime: the registers of the interrupt controller and of the
  timer, the system registers, and the calls into application code. What the runtime does to
  it is recorded in a trace, newest event first; what the world answers is a parameter, the
  record \<open>environment\<close>: the value a load returns is a function of the history, so any device
  behaviour is an instance. The loops that wait for a device end when the device lets them;
  the field \<open>fuel\<close> bounds the number of their rounds, and the lemmas about them say how much
  is enough.
\<close>

section \<open>Registers\<close>

text \<open>
  The registers that the code accesses, by the names of \<^verbatim>\<open>arch/armv8/src/gicv3.c\<close> and
  \<^verbatim>\<open>arch/armv8/src/generic_timer.c\<close>; the arrays carry the index.
\<close>

datatype reg =
  GICD_CTLR | GICD_IGROUPR nat | GICD_ISENABLER nat | GICD_ICENABLER nat | GICD_ISPENDR nat
| GICD_ICPENDR nat | GICD_IPRIORITYR nat | GICD_ICFGR nat | GICD_IROUTER nat
| GICR_CTLR | GICR_IGROUPR0 | GICR_ISENABLER0 | GICR_ICENABLER0 | GICR_ISPENDR0
| GICR_ICPENDR0 | GICR_IPRIORITYR nat | GICR_ICFGR1
| MPIDR_EL1 | ISR_EL1 | DAIFSet
| ICC_SRE_EL1 | ICC_PMR_EL1 | ICC_BPR1_EL1 | ICC_CTLR_EL1 | ICC_IGRPEN1_EL1 | ICC_IAR1_EL1
| ICC_EOIR1_EL1 | ICC_RPR_EL1 | ICC_AP1R0_EL1
| CNTFRQ_EL0 | CNTKCTL_EL1 | CNTV_CTL_EL0 | CNTV_CVAL_EL0 | CNTVCT_EL0

type_synonym virq_t = u32

abbreviation (input) "VIRQ_INVALID \<equiv> (0xffffffff :: virq_t)"
abbreviation (input) "PLATFORM_NUM_IRQS \<equiv> (1020 :: u32)"

datatype event =
  Load reg u64
| Store reg u64
| Barrier
| Wfi
| Wfe
| Call_isr uintptr_t virq_t uintptr_t
| Call_console uintptr_t string
| Call_exit uintptr_t int

type_synonym trace = "event list"

record environment =
  load_value :: "trace \<Rightarrow> reg \<Rightarrow> u64"
  isr_handled :: "trace \<Rightarrow> bool"
  fuel :: nat

section \<open>Accesses\<close>

definition device_load :: "environment \<Rightarrow> reg \<Rightarrow> trace \<Rightarrow> u64 \<times> trace" where
  "device_load env r t = (let v = load_value env t r in (v, Load r v # t))"

definition device_load32 :: "environment \<Rightarrow> reg \<Rightarrow> trace \<Rightarrow> u32 \<times> trace" where
  "device_load32 env r t = (let (v, t) = device_load env r t in (ucast v, t))"

definition device_store :: "reg \<Rightarrow> u64 \<Rightarrow> trace \<Rightarrow> trace" where
  "device_store r v t = Store r v # t"

definition device_store32 :: "reg \<Rightarrow> u32 \<Rightarrow> trace \<Rightarrow> trace" where
  "device_store32 r v t = device_store r (ucast v) t"

text \<open>The loops \<open>for (i = lo; i < hi; i++) store(reg[i], v)\<close>.\<close>

fun store_range :: "(nat \<Rightarrow> reg) \<Rightarrow> u64 \<Rightarrow> nat list \<Rightarrow> trace \<Rightarrow> trace" where
  "store_range r v [] t = t"
| "store_range r v (i # is) t = store_range r v is (device_store (r i) v t)"

lemma store_range_append: "store_range r v is t = rev (map (\<lambda>i. Store (r i) v) is) @ t"
  by (induction "is" arbitrary: t) (auto simp: device_store_def)

text \<open>The events of a loop that waits for a register write: reads of a control register, barriers.\<close>

fun is_poll :: "event \<Rightarrow> bool" where
  "is_poll (Load r v) \<longleftrightarrow> r = GICD_CTLR \<or> r = GICR_CTLR"
| "is_poll Barrier \<longleftrightarrow> True"
| "is_poll e \<longleftrightarrow> False"

end
