(* ===== verification/Gic.thy ===== *)
theory Gic
  imports Device
begin

unbundle bit_operations_syntax

text \<open>
  The GICv3 driver of \<^verbatim>\<open>arch/armv8/src/gicv3.c\<close>: the layout of the distributor and of the
  redistributor, the initialisation, and the calls \<open>platform_irq_*\<close>. The frames are
  identified by their registers; \<open>gicd_layout\<close> and \<open>gicr_layout\<close> are the fields of the two
  structures, from which the offset of a register in its frame is computed.
\<close>

section \<open>Layout\<close>

text \<open>The fields of \<open>struct gicd_s\<close> and \<open>struct gicr_s\<close>: name, element size, number of elements.\<close>

definition gicd_layout :: "(string \<times> nat \<times> nat) list" where
  "gicd_layout =
     [(''ctlr'', 4, 1), (''typer'', 4, 1), (''iidr'', 4, 1), (''pad_to_statusr_'', 1, 4),
      (''statusr'', 4, 1), (''pad_to_setspi_nsr_'', 1, 44), (''setspi_nsr'', 4, 1),
      (''pad_to_clrspi_nsr_'', 1, 4), (''clrspi_nsr'', 4, 1), (''pad_to_igroupr_'', 1, 52),
      (''igroupr'', 4, 32), (''isenabler'', 4, 32), (''icenabler'', 4, 32), (''ispendr'', 4, 32),
      (''icpendr'', 4, 32), (''isactiver'', 4, 32), (''icactiver'', 4, 32),
      (''ipriorityr'', 1, 1020), (''pad_to_icfgr_'', 1, 1028), (''icfgr'', 4, 64),
      (''igrpmodr'', 4, 32), (''pad_to_irouter_'', 1, 21376), (''irouter'', 8, 988),
      (''pad_to_end_'', 1, 32800)]"

definition gicr_layout :: "(string \<times> nat \<times> nat) list" where
  "gicr_layout =
     [(''ctlr'', 4, 1), (''iidr'', 4, 1), (''typer'', 8, 1), (''statusr'', 4, 1), (''waker'', 4, 1),
      (''pad_to_sgi_base_'', 1, 65512), (''pad_to_igroupr0_'', 1, 128), (''igroupr0'', 4, 1),
      (''pad_to_isenabler0_'', 1, 124), (''isenabler0'', 4, 1), (''pad_to_icenabler0_'', 1, 124),
      (''icenabler0'', 4, 1), (''pad_to_ispendr0_'', 1, 124), (''ispendr0'', 4, 1),
      (''pad_to_icpendr0_'', 1, 124), (''icpendr0'', 4, 1), (''pad_to_isactiver0_'', 1, 124),
      (''isactiver0'', 4, 1), (''pad_to_icactiver0_'', 1, 124), (''icactiver0'', 4, 1),
      (''pad_to_ipriorityr_'', 1, 124), (''ipriorityr'', 1, 32), (''pad_to_icfgr0_'', 1, 2016),
      (''icfgr0'', 4, 1), (''icfgr1'', 4, 1), (''pad_to_igrpmodr0_'', 1, 248), (''igrpmodr0'', 4, 1),
      (''pad_to_vlpi_base_'', 1, 62204), (''pad_to_end_'', 1, 131072)]"

fun layout_size :: "(string \<times> nat \<times> nat) list \<Rightarrow> nat" where
  "layout_size [] = 0"
| "layout_size ((f, s, n) # fs) = s * n + layout_size fs"

text \<open>The offset of element \<open>i\<close> of a field; the compiler adds no padding of its own here.\<close>

fun field_offset :: "(string \<times> nat \<times> nat) list \<Rightarrow> string \<Rightarrow> nat \<Rightarrow> nat option" where
  "field_offset [] g i = None"
| "field_offset ((f, s, n) # fs) g i =
     (if f = g then (if i < n then Some (s * i) else None)
      else map_option (\<lambda>a. s * n + a) (field_offset fs g i))"

section \<open>Constants\<close>

abbreviation (input) "GIC_SGI_BASE \<equiv> (0 :: u32)"
abbreviation (input) "GIC_SGI_END \<equiv> (16 :: u32)"
abbreviation (input) "GIC_PPI_BASE \<equiv> (16 :: u32)"
abbreviation (input) "GIC_PPI_END \<equiv> (32 :: u32)"
abbreviation (input) "GIC_SPI_BASE \<equiv> (32 :: u32)"
abbreviation (input) "GIC_SPI_END \<equiv> (1020 :: u32)"
abbreviation (input) "GIC_PRIORITY_DEFAULT \<equiv> (0xA0 :: u64)"
abbreviation (input) "GICD_CTLR_RWP \<equiv> (0x80000000 :: u32)"
abbreviation (input) "GICD_CTLR_ARE \<equiv> (0x10 :: u32)"
abbreviation (input) "GICD_CTLR_ENABLEGRP1 \<equiv> (0x2 :: u32)"
abbreviation (input) "GICR_CTLR_RWP \<equiv> (0x8 :: u32)"
abbreviation (input) "ICC_CTLR_EOIMODE \<equiv> (0x2 :: u64)"
abbreviation (input) "MPIDR_EL1_AFF0123_MASK \<equiv> (0xff00ffffff :: u64)"

definition GICD_ENABLE_GET_N :: "virq_t \<Rightarrow> nat" where
  "GICD_ENABLE_GET_N x = unat (drop_bit 5 x)"

text \<open>The shift count is \<open>irq\<close>; AArch64 shifts a 32-bit register by the count modulo 32.\<close>

definition GIC_ENABLE_BIT :: "virq_t \<Rightarrow> u32" where
  "GIC_ENABLE_BIT x = push_bit (unat x mod 32) 1"

section \<open>Waiting for a register write\<close>

fun rwp_loop :: "nat \<Rightarrow> environment \<Rightarrow> reg \<Rightarrow> u32 \<Rightarrow> u32 \<Rightarrow> trace \<Rightarrow> (u32 \<times> trace) outcome" where
  "rwp_loop n env r rwp ctlr t =
     (if ctlr AND rwp \<noteq> 0 then
        (case n of
           0 \<Rightarrow> Fault OutOfFuel
         | Suc m \<Rightarrow> let (ctlr, t) = device_load32 env r t in rwp_loop m env r rwp ctlr t)
      else Done (ctlr, t))"

declare rwp_loop.simps [simp del]

definition gicd_wait_for_write :: "environment \<Rightarrow> trace \<Rightarrow> (u32 \<times> trace) outcome" where
  "gicd_wait_for_write env t =
     (let (ctlr, t) = device_load32 env GICD_CTLR (Barrier # t)
      in rwp_loop (fuel env) env GICD_CTLR GICD_CTLR_RWP ctlr t)"

definition gicr_wait_for_write :: "environment \<Rightarrow> trace \<Rightarrow> trace outcome" where
  "gicr_wait_for_write env t =
     (let (ctlr, t) = device_load32 env GICR_CTLR t
      in bindc (rwp_loop (fuel env) env GICR_CTLR GICR_CTLR_RWP ctlr t) (\<lambda>(ctlr, t). Done t))"

section \<open>Initialisation\<close>

text \<open>
  The part that writes the distributor. \<open>ASM_MSR_ICC_CTLR_EL1\<close> in the last part has its
  operands the wrong way round and no effect on \<open>ICC_CTLR_EL1\<close>: it is a statement that
  writes the local variable \<open>icc_ctlr\<close>, without \<open>volatile\<close> and without a use of its result.
\<close>

definition gicd_init :: "environment \<Rightarrow> trace \<Rightarrow> trace outcome" where
  "gicd_init env t =
     (let num_irqs = unat PLATFORM_NUM_IRQS;
          ctlr = 0 :: u32;
          t = device_store32 GICD_CTLR ctlr t
      in bindc (gicd_wait_for_write env t) (\<lambda>(ctlr, t).
         let ctlr = ctlr OR GICD_CTLR_ARE;
             t = device_store32 GICD_CTLR ctlr t
         in bindc (gicd_wait_for_write env t) (\<lambda>(ctlr, t).
            let t = store_range GICD_ICENABLER 0xffffffff [1..<num_irqs div 32] t
            in bindc (gicd_wait_for_write env t) (\<lambda>(ctlr, t).
               let t = store_range GICD_IPRIORITYR GIC_PRIORITY_DEFAULT [32..<num_irqs] t;
                   t = store_range GICD_ICFGR 0xaaaaaaaa [2..<num_irqs div 16] t;
                   t = store_range GICD_IGROUPR 0xffffffff [1..<num_irqs div 32] t;
                   (mpidr, t) = device_load env MPIDR_EL1 t;
                   mpidr = mpidr AND MPIDR_EL1_AFF0123_MASK;
                   t = store_range GICD_IROUTER mpidr [0..<num_irqs - 32] t;
                   ctlr = ctlr OR GICD_CTLR_ENABLEGRP1
               in Done (device_store32 GICD_CTLR ctlr t)))))"

definition gicr_init :: "environment \<Rightarrow> trace \<Rightarrow> trace outcome" where
  "gicr_init env t =
     (let t = device_store GICR_ICENABLER0 0xffffffff t
      in bindc (gicr_wait_for_write env t) (\<lambda>t.
         let t = store_range GICR_IPRIORITYR GIC_PRIORITY_DEFAULT [0..<32] t;
             t = device_store GICR_ICFGR1 0 t
         in Done (device_store GICR_IGROUPR0 0xffffffff t)))"

definition icc_init :: "environment \<Rightarrow> trace \<Rightarrow> trace" where
  "icc_init env t =
     (let t = device_store ICC_SRE_EL1 0x7 t;
          t = device_store ICC_PMR_EL1 0xff t;
          t = device_store ICC_BPR1_EL1 0x7 t;
          (icc_ctlr, t) = device_load env ICC_CTLR_EL1 t;
          icc_ctlr = icc_ctlr AND NOT ICC_CTLR_EOIMODE
      in device_store ICC_IGRPEN1_EL1 0x1 t)"

definition platform_irq_init :: "environment \<Rightarrow> trace \<Rightarrow> trace outcome" where
  "platform_irq_init env t =
     bindc (gicd_init env t) (\<lambda>t. bindc (gicr_init env t) (\<lambda>t. Done (icc_init env t)))"

section \<open>Enabling, disabling, asserting and clearing\<close>

definition platform_irq_enable :: "virq_t \<Rightarrow> trace \<Rightarrow> trace" where
  "platform_irq_enable irq t =
     (if irq \<ge> GIC_SGI_BASE \<and> irq < GIC_PPI_END
      then device_store32 GICR_ISENABLER0 (GIC_ENABLE_BIT irq) t
      else if irq \<ge> GIC_SPI_BASE \<and> irq < GIC_SPI_END
      then device_store32 (GICD_ISENABLER (GICD_ENABLE_GET_N irq)) (GIC_ENABLE_BIT irq) t
      else t)"

definition platform_irq_disable :: "environment \<Rightarrow> virq_t \<Rightarrow> trace \<Rightarrow> trace outcome" where
  "platform_irq_disable env irq t =
     (if irq \<ge> GIC_SGI_BASE \<and> irq < GIC_PPI_END
      then gicr_wait_for_write env (device_store32 GICR_ICENABLER0 (GIC_ENABLE_BIT irq) t)
      else if irq \<ge> GIC_SPI_BASE \<and> irq < GIC_SPI_END
      then bindc (gicd_wait_for_write env
              (device_store32 (GICD_ICENABLER (GICD_ENABLE_GET_N irq)) (GIC_ENABLE_BIT irq) t))
            (\<lambda>(ctlr, t). Done t)
      else Done t)"

definition platform_irq_assert :: "virq_t \<Rightarrow> trace \<Rightarrow> trace" where
  "platform_irq_assert irq t =
     (if irq \<ge> GIC_SGI_BASE \<and> irq < GIC_PPI_END
      then device_store32 GICR_ISPENDR0 (GIC_ENABLE_BIT irq) t
      else if irq \<ge> GIC_SPI_BASE \<and> irq < GIC_SPI_END
      then device_store32 (GICD_ISPENDR (GICD_ENABLE_GET_N irq)) (GIC_ENABLE_BIT irq) t
      else t)"

definition platform_irq_clear :: "virq_t \<Rightarrow> trace \<Rightarrow> trace" where
  "platform_irq_clear irq t =
     (if irq \<ge> GIC_SGI_BASE \<and> irq < GIC_PPI_END
      then device_store32 GICR_ICPENDR0 (GIC_ENABLE_BIT irq) t
      else if irq \<ge> GIC_SPI_BASE \<and> irq < GIC_SPI_END
      then device_store32 (GICD_ICPENDR (GICD_ENABLE_GET_N irq)) (GIC_ENABLE_BIT irq) t
      else t)"

definition platform_irq_disable_all :: "trace \<Rightarrow> trace" where
  "platform_irq_disable_all t = device_store ICC_IGRPEN1_EL1 0 t"

section \<open>The trigger\<close>

abbreviation (input) "IRQ_TRIGGER_LEVEL_HIGH \<equiv> (0 :: int)"
abbreviation (input) "IRQ_TRIGGER_EDGE_RISING \<equiv> (2 :: int)"

text \<open>\<open>(edge, valid)\<close> for a trigger.\<close>

definition decode_trigger :: "int \<Rightarrow> bool \<times> bool" where
  "decode_trigger trigger =
     (if trigger = IRQ_TRIGGER_LEVEL_HIGH then (False, True)
      else if trigger = IRQ_TRIGGER_EDGE_RISING then (True, True)
      else (False, False))"

text \<open>
  The two branches for a private and for a shared interrupt differ only in the registers: the
  enable register \<open>en\<close> that is read and the configuration register \<open>cfg\<close> that is updated.
\<close>

definition reconfigure ::
  "environment \<Rightarrow> reg \<Rightarrow> reg \<Rightarrow> virq_t \<Rightarrow> bool \<Rightarrow> trace \<Rightarrow> trace outcome" where
  "reconfigure env en cfg irq edge t =
     (let (isenabler, t) = device_load32 env en t;
          enabled = isenabler AND GIC_ENABLE_BIT irq \<noteq> 0
      in bindc (if enabled then platform_irq_disable env irq t else Done t) (\<lambda>t.
         let (icfgr, t) = device_load32 env cfg t;
             index = (irq mod 16) * 2 + 1;
             icfgr = (if edge then icfgr OR push_bit (unat index) 1
                      else icfgr AND NOT (push_bit (unat index) 1));
             t = device_store32 cfg icfgr t
         in Done (if enabled then platform_irq_enable irq t else t)))"

definition platform_irq_set_trigger ::
  "environment \<Rightarrow> virq_t \<Rightarrow> int \<Rightarrow> trace \<Rightarrow> (bool \<times> trace) outcome" where
  "platform_irq_set_trigger env irq trigger t =
     (let (edge, valid) = decode_trigger trigger
      in if \<not> valid then Done (valid, t)
         else if irq \<ge> GIC_SGI_BASE \<and> irq \<le> GIC_SGI_END then Done (edge, t)
         else if irq \<ge> GIC_PPI_BASE \<and> irq < GIC_PPI_END then
           bindc (reconfigure env GICR_ISENABLER0 GICR_ICFGR1 irq edge t) (\<lambda>t. Done (valid, t))
         else if irq \<ge> GIC_SPI_BASE \<and> irq < GIC_SPI_END then
           bindc (reconfigure env (GICD_ISENABLER (GICD_ENABLE_GET_N irq))
                    (GICD_ICFGR (unat (irq div 16))) irq edge t) (\<lambda>t. Done (valid, t))
         else Done (False, t))"

section \<open>Acknowledging and ending an interrupt\<close>

definition platform_irq_acknowledge :: "environment \<Rightarrow> trace \<Rightarrow> virq_t \<times> trace" where
  "platform_irq_acknowledge env t =
     (let (icc_iar1, t) = device_load env ICC_IAR1_EL1 t;
          t = Barrier # t
      in (if icc_iar1 < ucast GIC_SPI_END then ucast icc_iar1 else VIRQ_INVALID, t))"

definition platform_irq_priority_drop :: "virq_t \<Rightarrow> trace \<Rightarrow> trace" where
  "platform_irq_priority_drop irq t = t"

definition platform_irq_deactivate :: "virq_t \<Rightarrow> trace \<Rightarrow> trace outcome" where
  "platform_irq_deactivate irq t =
     ensure (irq \<ge> 0 \<and> irq < GIC_SPI_END)
      (let t = device_store DAIFSet 0x7 t;
           t = Barrier # t
       in Done (device_store ICC_EOIR1_EL1 (ucast irq) t))"

end
