(* ===== verification/GicSpec.thy ===== *)
theory GicSpec
  imports Gic
begin

unbundle bit_operations_syntax

text \<open>
  What the GICv3 driver achieves. The state of the interrupt controller that a trace of
  accesses leads to is read off the trace by the rules of the architecture: writing 1 to a bit
  of a set-enable register enables the interrupt of that bit, writing 1 to a bit of a
  clear-enable register disables it, a write of a configuration, group, priority or routing
  register replaces its contents. With affinity routing the private interrupts 0 to 31 are
  handled by the redistributor and the shared ones, from 32 on, by the distributor.
\<close>

section \<open>The state a trace leads to\<close>

fun state_of :: "(reg \<Rightarrow> u64 \<Rightarrow> nat \<Rightarrow> 'b option) \<Rightarrow> (nat \<Rightarrow> 'b) \<Rightarrow> trace \<Rightarrow> nat \<Rightarrow> 'b" where
  "state_of eff s0 [] n = s0 n"
| "state_of eff s0 (e # t) n =
     (case e of
        Store r v \<Rightarrow> (case eff r v n of Some b \<Rightarrow> b | None \<Rightarrow> state_of eff s0 t n)
      | _ \<Rightarrow> state_of eff s0 t n)"

definition enable_effect :: "reg \<Rightarrow> u64 \<Rightarrow> nat \<Rightarrow> bool option" where
  "enable_effect r v n =
     (case r of
        GICD_ISENABLER i \<Rightarrow> if n div 32 = i \<and> 0 < i \<and> bit v (n mod 32) then Some True else None
      | GICD_ICENABLER i \<Rightarrow> if n div 32 = i \<and> 0 < i \<and> bit v (n mod 32) then Some False else None
      | GICR_ISENABLER0 \<Rightarrow> if n < 32 \<and> bit v n then Some True else None
      | GICR_ICENABLER0 \<Rightarrow> if n < 32 \<and> bit v n then Some False else None
      | _ \<Rightarrow> None)"

definition edge_effect :: "reg \<Rightarrow> u64 \<Rightarrow> nat \<Rightarrow> bool option" where
  "edge_effect r v n =
     (case r of
        GICD_ICFGR i \<Rightarrow> if n div 16 = i \<and> 2 \<le> i then Some (bit v (2 * (n mod 16) + 1)) else None
      | GICR_ICFGR1 \<Rightarrow> if n div 16 = 1 then Some (bit v (2 * (n mod 16) + 1)) else None
      | _ \<Rightarrow> None)"

definition group_effect :: "reg \<Rightarrow> u64 \<Rightarrow> nat \<Rightarrow> bool option" where
  "group_effect r v n =
     (case r of
        GICD_IGROUPR i \<Rightarrow> if n div 32 = i \<and> 0 < i then Some (bit v (n mod 32)) else None
      | GICR_IGROUPR0 \<Rightarrow> if n < 32 then Some (bit v n) else None
      | _ \<Rightarrow> None)"

definition priority_effect :: "reg \<Rightarrow> u64 \<Rightarrow> nat \<Rightarrow> u64 option" where
  "priority_effect r v n =
     (case r of
        GICD_IPRIORITYR i \<Rightarrow> if n = i \<and> 32 \<le> i then Some v else None
      | GICR_IPRIORITYR i \<Rightarrow> if n = i \<and> i < 32 then Some v else None
      | _ \<Rightarrow> None)"

definition route_effect :: "reg \<Rightarrow> u64 \<Rightarrow> nat \<Rightarrow> u64 option" where
  "route_effect r v n =
     (case r of GICD_IROUTER i \<Rightarrow> if n = i + 32 then Some v else None | _ \<Rightarrow> None)"

lemmas gic_effects = enable_effect_def edge_effect_def group_effect_def priority_effect_def
  route_effect_def

abbreviation gic_enabled :: "(nat \<Rightarrow> bool) \<Rightarrow> trace \<Rightarrow> nat \<Rightarrow> bool" where
  "gic_enabled \<equiv> state_of enable_effect"

abbreviation gic_edge :: "(nat \<Rightarrow> bool) \<Rightarrow> trace \<Rightarrow> nat \<Rightarrow> bool" where
  "gic_edge \<equiv> state_of edge_effect"

abbreviation gic_group1 :: "(nat \<Rightarrow> bool) \<Rightarrow> trace \<Rightarrow> nat \<Rightarrow> bool" where
  "gic_group1 \<equiv> state_of group_effect"

abbreviation gic_priority :: "(nat \<Rightarrow> u64) \<Rightarrow> trace \<Rightarrow> nat \<Rightarrow> u64" where
  "gic_priority \<equiv> state_of priority_effect"

abbreviation gic_route :: "(nat \<Rightarrow> u64) \<Rightarrow> trace \<Rightarrow> nat \<Rightarrow> u64" where
  "gic_route \<equiv> state_of route_effect"

lemma state_of_store [simp]:
  "state_of eff s (device_store r v t) n = (case eff r v n of Some b \<Rightarrow> b | None \<Rightarrow> state_of eff s t n)"
  by (simp add: device_store_def)

lemma state_of_quiet:
  "\<forall>e \<in> set es. is_poll e \<Longrightarrow> state_of eff s (es @ t) n = state_of eff s t n"
  by (induction es) (auto split: event.splits)

lemma filter_polls:
  "(\<And>e. is_poll e \<Longrightarrow> \<not> P e) \<Longrightarrow> \<forall>e \<in> set es. is_poll e \<Longrightarrow> filter P es = []"
  by (auto simp: filter_empty_conv)

lemma state_of_store_range_none:
  "(\<And>i. i \<in> set js \<Longrightarrow> eff (r i) v n = None) \<Longrightarrow> state_of eff s (store_range r v js t) n = state_of eff s t n"
  by (induction js arbitrary: t) auto

lemma state_of_store_range_some:
  assumes "\<And>i. i \<in> set js \<Longrightarrow> eff (r i) v n = (if i = k then Some b else None)" "k \<in> set js"
  shows "state_of eff s (store_range r v js t) n = b"
  using assms
proof (induction js arbitrary: t)
  case (Cons i js)
  show ?case
  proof (cases "k \<in> set js")
    case True
    then show ?thesis using Cons by simp
  next
    case False
    then have "i = k" using Cons.prems(2) by simp
    moreover have "state_of eff s (store_range r v js (device_store (r k) v t)) n =
        state_of eff s (device_store (r k) v t) n"
      using Cons.prems(1) False by (intro state_of_store_range_none) auto
    ultimately show ?thesis using Cons.prems(1) [of k] by simp
  qed
qed simp

section \<open>The documented behaviour of the device\<close>

text \<open>After \<open>fuel\<close> consecutive reads of a control register, no register write is pending in it.\<close>

definition rwp_clears :: "environment \<Rightarrow> bool" where
  "rwp_clears env \<longleftrightarrow>
     (\<forall>t vs. length vs = fuel env \<longrightarrow>
        (ucast (load_value env (map (Load GICD_CTLR) vs @ t) GICD_CTLR) AND GICD_CTLR_RWP = 0 \<and>
         ucast (load_value env (map (Load GICR_CTLR) vs @ t) GICR_CTLR) AND GICR_CTLR_RWP = 0))"

text \<open>The enable and the configuration registers read back the state.\<close>

definition gic_reads :: "environment \<Rightarrow> (nat \<Rightarrow> bool) \<Rightarrow> (nat \<Rightarrow> bool) \<Rightarrow> bool" where
  "gic_reads env e c \<longleftrightarrow>
     (\<forall>t. (\<forall>j < 32. bit (load_value env t GICR_ISENABLER0) j = gic_enabled e t j) \<and>
          (\<forall>i > 0. \<forall>j < 32. bit (load_value env t (GICD_ISENABLER i)) j = gic_enabled e t (32 * i + j)) \<and>
          (\<forall>j < 16. bit (load_value env t GICR_ICFGR1) (2 * j + 1) = gic_edge c t (16 + j)) \<and>
          (\<forall>i \<ge> 2. \<forall>j < 16. bit (load_value env t (GICD_ICFGR i)) (2 * j + 1) = gic_edge c t (16 * i + j)))"

lemma rwp_loop_done:
  assumes "r \<in> {GICD_CTLR, GICR_CTLR}" "\<And>t vs. length vs = m \<Longrightarrow>
      ucast (load_value env (map (Load r) vs @ t) r) AND rwp = (0 :: u32)"
  shows "length vs \<le> m \<Longrightarrow>
    ctlr = ucast (load_value env (map (Load r) vs @ t) r) \<Longrightarrow>
    \<exists>c ls. rwp_loop (m - length vs) env r rwp ctlr (Load r v # map (Load r) vs @ t) = Done (c, ls @ t) \<and>
      (\<forall>e \<in> set ls. is_poll e) \<and> c AND rwp = 0"
proof (induction "m - length vs" arbitrary: vs ctlr v)
  case 0
  then have "length vs = m" by simp
  then have "ctlr AND rwp = 0" using assms(2) 0 by simp
  then show ?case using 0
    by (subst rwp_loop.simps) (use assms(1) in \<open>auto intro!: exI [of _ "Load r v # map (Load r) vs"]\<close>)
next
  case (Suc k)
  show ?case
  proof (cases "ctlr AND rwp = 0")
    case True
    then show ?thesis
      by (subst rwp_loop.simps) (use assms(1) in \<open>auto intro!: exI [of _ "Load r v # map (Load r) vs"]\<close>)
  next
    case False
    let ?c = "load_value env (Load r v # map (Load r) vs @ t) r"
    have "\<exists>c ls. rwp_loop (m - length (v # vs)) env r rwp (ucast ?c) (Load r ?c # map (Load r) (v # vs) @ t) =
        Done (c, ls @ t) \<and> (\<forall>e \<in> set ls. is_poll e) \<and> c AND rwp = 0"
      by (rule Suc(1)) (use Suc(2,3) in auto)
    moreover have "m - length vs = Suc k" "m - length (v # vs) = k" using Suc(2) by auto
    ultimately show ?thesis using False
      by (subst rwp_loop.simps) (simp add: device_load32_def device_load_def Let_def)
  qed
qed

lemma gicd_wait_done:
  assumes "rwp_clears env"
  obtains c ls where "gicd_wait_for_write env t = Done (c, ls @ t)" "\<forall>e \<in> set ls. is_poll e"
proof -
  let ?t = "Barrier # t"
  from rwp_loop_done [of GICD_CTLR "fuel env" env GICD_CTLR_RWP "[]" _ ?t
      "load_value env ?t GICD_CTLR"] assms
  obtain c ls where *: "rwp_loop (fuel env) env GICD_CTLR GICD_CTLR_RWP
      (ucast (load_value env ?t GICD_CTLR)) (Load GICD_CTLR (load_value env ?t GICD_CTLR) # ?t) =
      Done (c, ls @ ?t)" "\<forall>e \<in> set ls. is_poll e"
    by (auto simp: rwp_clears_def)
  show thesis
    by (rule that [of c "ls @ [Barrier]"])
      (use * in \<open>auto simp: gicd_wait_for_write_def device_load32_def device_load_def Let_def\<close>)
qed

lemma gicr_wait_done:
  assumes "rwp_clears env"
  obtains ls where "gicr_wait_for_write env t = Done (ls @ t)" "\<forall>e \<in> set ls. is_poll e"
proof -
  from rwp_loop_done [of GICR_CTLR "fuel env" env GICR_CTLR_RWP "[]" _ t
      "load_value env t GICR_CTLR"] assms
  obtain c ls where *: "rwp_loop (fuel env) env GICR_CTLR GICR_CTLR_RWP
      (ucast (load_value env t GICR_CTLR)) (Load GICR_CTLR (load_value env t GICR_CTLR) # t) =
      Done (c, ls @ t)" "\<forall>e \<in> set ls. is_poll e"
    by (auto simp: rwp_clears_def)
  show thesis
    by (rule that [of ls])
      (use * in \<open>auto simp: gicr_wait_for_write_def device_load32_def device_load_def Let_def\<close>)
qed

declare upt_rec_numeral [simp del]

section \<open>Initialisation\<close>

lemma bit_all_ones32: "bit (0xffffffff :: u64) j \<longleftrightarrow> j < 32"
proof -
  have "(0xffffffff :: u64) = mask 32" by (simp add: mask_eq_exp_minus_1)
  then have "bit (0xffffffff :: u64) j = bit (mask 32 :: u64) j" by (simp only:)
  also have "\<dots> \<longleftrightarrow> j < 32" by (auto simp: bit_mask_iff)
  finally show ?thesis .
qed

lemma bit_edge_pattern: "k < 16 \<Longrightarrow> bit (0xaaaaaaaa :: u64) (2 * k + 1)"
proof -
  assume "k < 16"
  moreover have "\<forall>k < 16. bit (0xaaaaaaaa :: u64) (2 * k + 1)"
    by (simp add: All_less_Suc eval_nat_numeral)
  ultimately show ?thesis by blast
qed

text \<open>The trace of the initialisation: what is stored, with the polls as the lists \<open>l\<close>.\<close>

lemma gicd_init_trace:
  assumes "rwp_clears env"
  obtains l1 l2 l3 c2 c3 m where
    "gicd_init env t = Done (device_store32 GICD_CTLR c3
      (store_range GICD_IROUTER (m AND MPIDR_EL1_AFF0123_MASK) [0..<988]
      ([Load MPIDR_EL1 m] @ store_range GICD_IGROUPR 0xffffffff [1..<31]
      (store_range GICD_ICFGR 0xaaaaaaaa [2..<63]
      (store_range GICD_IPRIORITYR GIC_PRIORITY_DEFAULT [32..<1020]
      (l3 @ store_range GICD_ICENABLER 0xffffffff [1..<31]
      (l2 @ device_store32 GICD_CTLR c2 (l1 @ device_store32 GICD_CTLR 0 t))))))))"
    "\<forall>e \<in> set (l1 @ l2 @ l3). is_poll e"
    "bit c2 4" "bit c3 1"
proof -
  let ?t0 = "device_store32 GICD_CTLR 0 t"
  obtain c1 l1 where 1: "gicd_wait_for_write env ?t0 = Done (c1, l1 @ ?t0)" "\<forall>e \<in> set l1. is_poll e"
    by (rule gicd_wait_done [OF assms])
  let ?c2 = "c1 OR GICD_CTLR_ARE"
  let ?t1 = "device_store32 GICD_CTLR ?c2 (l1 @ ?t0)"
  obtain c2 l2 where 2: "gicd_wait_for_write env ?t1 = Done (c2, l2 @ ?t1)" "\<forall>e \<in> set l2. is_poll e"
    by (rule gicd_wait_done [OF assms])
  let ?t2 = "store_range GICD_ICENABLER 0xffffffff [1..<31] (l2 @ ?t1)"
  obtain c3 l3 where 3: "gicd_wait_for_write env ?t2 = Done (c3, l3 @ ?t2)" "\<forall>e \<in> set l3. is_poll e"
    by (rule gicd_wait_done [OF assms])
  let ?t3 = "store_range GICD_IGROUPR 0xffffffff [1..<31] (store_range GICD_ICFGR 0xaaaaaaaa [2..<63]
      (store_range GICD_IPRIORITYR GIC_PRIORITY_DEFAULT [32..<1020] (l3 @ ?t2)))"
  let ?m = "load_value env ?t3 MPIDR_EL1"
  have num: "unat PLATFORM_NUM_IRQS = 1020" "1020 div 32 = (31 :: nat)" "1020 div 16 = (63 :: nat)"
    "1020 - 32 = (988 :: nat)" by simp_all
  have "gicd_init env t = Done (device_store32 GICD_CTLR (c3 OR GICD_CTLR_ENABLEGRP1)
      (store_range GICD_IROUTER (?m AND MPIDR_EL1_AFF0123_MASK) [0..<988] ([Load MPIDR_EL1 ?m] @ ?t3)))"
    unfolding gicd_init_def num Let_def device_load_def 1 2 3 bindc.simps split by simp
  moreover have "bit ?c2 4" "bit (c3 OR GICD_CTLR_ENABLEGRP1) 1"
    by (simp_all add: bit_or_iff)
  moreover have "\<forall>e \<in> set (l1 @ l2 @ l3). is_poll e" using 1 2 3 by auto
  ultimately show thesis using that by blast
qed

lemma gicr_init_trace:
  assumes "rwp_clears env"
  obtains l where
    "gicr_init env t = Done (device_store GICR_IGROUPR0 0xffffffff (device_store GICR_ICFGR1 0
      (store_range GICR_IPRIORITYR GIC_PRIORITY_DEFAULT [0..<32]
        (l @ device_store GICR_ICENABLER0 0xffffffff t))))"
    "\<forall>e \<in> set l. is_poll e"
proof -
  obtain l where "gicr_wait_for_write env (device_store GICR_ICENABLER0 0xffffffff t) =
      Done (l @ device_store GICR_ICENABLER0 0xffffffff t)" "\<forall>e \<in> set l. is_poll e"
    by (rule gicr_wait_done [OF assms])
  then show thesis by (intro that [of l]) (simp_all add: gicr_init_def Let_def)
qed

lemma state_of_icc_init [simp]:
  "(\<And>v. eff ICC_SRE_EL1 v n = None) \<Longrightarrow> (\<And>v. eff ICC_PMR_EL1 v n = None) \<Longrightarrow>
     (\<And>v. eff ICC_BPR1_EL1 v n = None) \<Longrightarrow> (\<And>v. eff ICC_IGRPEN1_EL1 v n = None) \<Longrightarrow>
     state_of eff s (icc_init env t) n = state_of eff s t n"
  by (simp add: icc_init_def device_load_def Let_def)

text \<open>What the stores of the initialisation do to one interrupt.\<close>

lemma disabled_range: "0 < n div 32 \<Longrightarrow> n div 32 < 31 \<Longrightarrow>
    gic_enabled e (store_range GICD_ICENABLER 0xffffffff [Suc 0..<31] t) n = False"
  using bit_all_ones32 [of "n mod 32"]
  by (intro state_of_store_range_some [where k = "n div 32"]) (auto simp: enable_effect_def)

lemma disabled_range_above: "31 \<le> n div 32 \<Longrightarrow>
    gic_enabled e (store_range GICD_ICENABLER 0xffffffff [Suc 0..<31] t) n = gic_enabled e t n"
  by (rule state_of_store_range_none) (auto simp: enable_effect_def)

lemma group_range: "0 < n div 32 \<Longrightarrow> n div 32 < 31 \<Longrightarrow>
    gic_group1 e (store_range GICD_IGROUPR 0xffffffff [Suc 0..<31] t) n = True"
  using bit_all_ones32 [of "n mod 32"]
  by (intro state_of_store_range_some [where k = "n div 32"]) (auto simp: group_effect_def)

lemma group_range_above: "31 \<le> n div 32 \<Longrightarrow>
    gic_group1 e (store_range GICD_IGROUPR 0xffffffff [Suc 0..<31] t) n = gic_group1 e t n"
  by (rule state_of_store_range_none) (auto simp: group_effect_def)

lemma edge_range: "2 \<le> n div 16 \<Longrightarrow> n div 16 < 63 \<Longrightarrow>
    gic_edge e (store_range GICD_ICFGR 0xaaaaaaaa [2..<63] t) n = True"
  using bit_edge_pattern [of "n mod 16"]
  by (intro state_of_store_range_some [where k = "n div 16"]) (auto simp: edge_effect_def)

lemma priority_range: "32 \<le> n \<Longrightarrow> n < 1020 \<Longrightarrow>
    gic_priority e (store_range GICD_IPRIORITYR p [32..<1020] t) n = p"
  by (rule state_of_store_range_some [where k = n]) (auto simp: priority_effect_def)

lemma priority_range_private: "n < 32 \<Longrightarrow>
    gic_priority e (store_range GICR_IPRIORITYR p [0..<32] t) n = p"
  by (rule state_of_store_range_some [where k = n]) (auto simp: priority_effect_def)

lemma route_range: "32 \<le> n \<Longrightarrow> n < 1020 \<Longrightarrow>
    gic_route e (store_range GICD_IROUTER m [0..<988] t) n = m"
  by (rule state_of_store_range_some [where k = "n - 32"]) (auto simp: route_effect_def)

lemmas init_ranges = disabled_range disabled_range_above group_range group_range_above edge_range
  priority_range priority_range_private route_range

lemmas init_effects = init_ranges gic_effects state_of_store_range_none device_store32_def

lemma platform_irq_init_state:
  assumes "rwp_clears env"
  obtains t' m where "platform_irq_init env t = Done t'"
    "\<And>n. n < 1020 \<Longrightarrow> gic_enabled e t' n = (992 \<le> n \<and> gic_enabled e t n)"
    "\<And>n. n < 1020 \<Longrightarrow> gic_group1 g t' n = (n < 992 \<or> gic_group1 g t n)"
    "\<And>n. n < 1020 \<Longrightarrow> gic_priority p t' n = GIC_PRIORITY_DEFAULT"
    "\<And>n. 16 \<le> n \<Longrightarrow> n < 1008 \<Longrightarrow> gic_edge c t' n = (32 \<le> n)"
    "\<And>n. 32 \<le> n \<Longrightarrow> n < 1020 \<Longrightarrow> gic_route r t' n = m AND MPIDR_EL1_AFF0123_MASK"
proof -
  obtain l1 l2 l3 c2 c3 m where d: "gicd_init env t = Done (device_store32 GICD_CTLR c3
      (store_range GICD_IROUTER (m AND MPIDR_EL1_AFF0123_MASK) [0..<988]
      ([Load MPIDR_EL1 m] @ store_range GICD_IGROUPR 0xffffffff [1..<31]
      (store_range GICD_ICFGR 0xaaaaaaaa [2..<63]
      (store_range GICD_IPRIORITYR GIC_PRIORITY_DEFAULT [32..<1020]
      (l3 @ store_range GICD_ICENABLER 0xffffffff [1..<31]
      (l2 @ device_store32 GICD_CTLR c2 (l1 @ device_store32 GICD_CTLR 0 t))))))))" (is "_ = Done ?td")
    and q: "\<forall>e \<in> set (l1 @ l2 @ l3). is_poll e"
    by (rule gicd_init_trace [OF assms])
  obtain l where r: "gicr_init env ?td = Done (device_store GICR_IGROUPR0 0xffffffff (device_store GICR_ICFGR1 0
      (store_range GICR_IPRIORITYR GIC_PRIORITY_DEFAULT [0..<32]
        (l @ device_store GICR_ICENABLER0 0xffffffff ?td))))" (is "_ = Done ?tr")
    and ql: "\<forall>e \<in> set l. is_poll e"
    by (rule gicr_init_trace [OF assms])
  have quiet: "state_of eff s (l1 @ u) n = state_of eff s u n" "state_of eff s (l2 @ u) n = state_of eff s u n"
    "state_of eff s (l3 @ u) n = state_of eff s u n" "state_of eff s (l @ u) n = state_of eff s u n"
    for eff :: "reg \<Rightarrow> u64 \<Rightarrow> nat \<Rightarrow> 'c option" and s u n
    by (rule state_of_quiet, use q ql in auto)+
  let ?t' = "icc_init env ?tr"
  show thesis
  proof (rule that [of ?t'])
    show "platform_irq_init env t = Done ?t'" unfolding platform_irq_init_def d bindc.simps r ..
    show "gic_enabled e ?t' n = (992 \<le> n \<and> gic_enabled e t n)" if "n < 1020" for n
      using that bit_all_ones32 [of n]
      by (cases "n < 32"; cases "n < 992") (simp_all add: init_effects quiet)
    show "gic_group1 g ?t' n = (n < 992 \<or> gic_group1 g t n)" if "n < 1020" for n
      using that bit_all_ones32 [of n]
      by (cases "n < 32"; cases "n < 992") (simp_all add: init_effects quiet)
    show "gic_priority p ?t' n = GIC_PRIORITY_DEFAULT" if "n < 1020" for n
      using that by (cases "n < 32") (simp_all add: init_effects quiet)
    show "gic_edge c ?t' n = (32 \<le> n)" if "16 \<le> n" "n < 1008" for n
    proof -
      have "n div 16 = 1" if "n < 32" using that \<open>16 \<le> n\<close> by linarith
      then show ?thesis using that by (cases "n < 32") (simp_all add: init_effects quiet)
    qed
    show "gic_route r ?t' n = m AND MPIDR_EL1_AFF0123_MASK" if "32 \<le> n" "n < 1020" for n
      using that by (simp add: init_effects quiet)
  qed
qed

section \<open>One interrupt\<close>

lemma bit_enable_bit32: "bit (GIC_ENABLE_BIT irq) j \<longleftrightarrow> j = unat irq mod 32"
  by (auto simp: GIC_ENABLE_BIT_def bit_exp_iff)

lemma bit_enable_bit: "bit (ucast (GIC_ENABLE_BIT irq) :: u64) j \<longleftrightarrow> j = unat irq mod 32"
  by (auto simp: bit_ucast_iff bit_enable_bit32)

lemma enable_get_n: "GICD_ENABLE_GET_N irq = unat irq div 32"
  by (simp add: GICD_ENABLE_GET_N_def drop_bit_eq_div unat_div)

lemma irq_bit_eq: "n div 32 = m div 32 \<Longrightarrow> n mod 32 = m mod 32 \<Longrightarrow> n = (m :: nat)"
  by (metis div_mult_mod_eq)

lemmas irq_regs = bit_enable_bit enable_get_n device_store32_def word_less_nat_alt word_le_nat_alt

lemma platform_irq_enable_state:
  "gic_enabled e (platform_irq_enable irq t) n =
     (gic_enabled e t n \<or> n = unat irq \<and> unat irq < 1020)"
  by (auto simp: platform_irq_enable_def enable_effect_def irq_regs split: if_splits
      dest: irq_bit_eq)

lemma platform_irq_enable_other:
  assumes "\<And>v. eff GICR_ISENABLER0 v n = None" "\<And>i v. eff (GICD_ISENABLER i) v n = None"
  shows "state_of eff s (platform_irq_enable irq t) n = state_of eff s t n"
  using assms by (simp add: platform_irq_enable_def device_store32_def)

lemma platform_irq_disable_trace:
  assumes "rwp_clears env"
  obtains l where "platform_irq_disable env irq t =
      Done (if unat irq < 32 then l @ device_store32 GICR_ICENABLER0 (GIC_ENABLE_BIT irq) t
            else if unat irq < 1020
            then l @ device_store32 (GICD_ICENABLER (unat irq div 32)) (GIC_ENABLE_BIT irq) t
            else t)"
    "\<forall>e \<in> set l. is_poll e"
proof (cases "unat irq < 32")
  case True
  obtain l where "gicr_wait_for_write env (device_store32 GICR_ICENABLER0 (GIC_ENABLE_BIT irq) t) =
      Done (l @ device_store32 GICR_ICENABLER0 (GIC_ENABLE_BIT irq) t)" "\<forall>e \<in> set l. is_poll e"
    by (rule gicr_wait_done [OF assms])
  then show thesis using True
    by (intro that [of l]) (simp_all add: platform_irq_disable_def word_less_nat_alt)
next
  case False
  obtain c l where
    "gicd_wait_for_write env (device_store32 (GICD_ICENABLER (unat irq div 32)) (GIC_ENABLE_BIT irq) t) =
      Done (c, l @ device_store32 (GICD_ICENABLER (unat irq div 32)) (GIC_ENABLE_BIT irq) t)"
    "\<forall>e \<in> set l. is_poll e"
    by (rule gicd_wait_done [OF assms])
  then show thesis using False
    by (intro that [of l])
      (auto simp: platform_irq_disable_def word_less_nat_alt word_le_nat_alt enable_get_n)
qed

lemma platform_irq_disable_state:
  assumes "rwp_clears env"
  obtains t' where "platform_irq_disable env irq t = Done t'"
    "\<And>n. n < 1020 \<Longrightarrow> gic_enabled e t' n = (gic_enabled e t n \<and> n \<noteq> unat irq)"
    "\<And>n. gic_edge c t' n = gic_edge c t n"
proof -
  obtain l where l: "platform_irq_disable env irq t =
      Done (if unat irq < 32 then l @ device_store32 GICR_ICENABLER0 (GIC_ENABLE_BIT irq) t
            else if unat irq < 1020
            then l @ device_store32 (GICD_ICENABLER (unat irq div 32)) (GIC_ENABLE_BIT irq) t
            else t)" (is "_ = Done ?t'")
    "\<forall>e \<in> set l. is_poll e"
    by (rule platform_irq_disable_trace [OF assms])
  show thesis
  proof (rule that [OF l(1)])
    show "gic_enabled e ?t' n = (gic_enabled e t n \<and> n \<noteq> unat irq)" if "n < 1020" for n
      using that by (auto simp: state_of_quiet [OF l(2)] enable_effect_def irq_regs dest: irq_bit_eq)
    show "gic_edge c ?t' n = gic_edge c t n" for n
      by (simp add: state_of_quiet [OF l(2)] edge_effect_def irq_regs)
  qed
qed

section \<open>The trigger\<close>

text \<open>Reading a configuration register, changing the bit of one interrupt and writing it back.\<close>

definition cfg_reg :: "virq_t \<Rightarrow> reg" where
  "cfg_reg irq = (if unat irq < 32 then GICR_ICFGR1 else GICD_ICFGR (unat irq div 16))"

definition en_reg :: "virq_t \<Rightarrow> reg" where
  "en_reg irq = (if unat irq < 32 then GICR_ISENABLER0 else GICD_ISENABLER (unat irq div 32))"

lemma private_word: "16 \<le> m \<Longrightarrow> m < 32 \<Longrightarrow> m div 16 = Suc 0"
  and shared_word: "\<not> m < 32 \<Longrightarrow> 2 \<le> m div 16"
  by linarith+

lemma edge_effect_cfg:
  "16 \<le> unat irq \<Longrightarrow> edge_effect (cfg_reg irq) v n =
     (if n div 16 = unat irq div 16 then Some (bit v (2 * (n mod 16) + 1)) else None)"
  by (cases "unat irq < 32") (simp_all add: cfg_reg_def edge_effect_def private_word shared_word)

lemma enable_effect_cfg: "enable_effect (cfg_reg irq) v n = None"
  by (auto simp: cfg_reg_def enable_effect_def)

lemma reads_enabled:
  assumes "gic_reads env e c" "unat irq < 1020"
  shows "(ucast (load_value env t (en_reg irq)) AND GIC_ENABLE_BIT irq \<noteq> 0) = gic_enabled e t (unat irq)"
proof -
  have "(ucast (load_value env t (en_reg irq)) AND GIC_ENABLE_BIT irq \<noteq> 0) \<longleftrightarrow>
      bit (load_value env t (en_reg irq)) (unat irq mod 32)"
    by (auto simp: word_and_nonzero_iff bit_enable_bit32 bit_ucast_iff)
  also have "\<dots> = gic_enabled e t (unat irq)"
    using assms(1) mult_div_mod_eq [of 32 "unat irq"]
    by (auto simp: gic_reads_def en_reg_def)
  finally show ?thesis .
qed

lemma reads_edge:
  assumes "gic_reads env e c" "16 \<le> unat irq" "n div 16 = unat irq div 16"
  shows "bit (load_value env t (cfg_reg irq)) (2 * (n mod 16) + 1) = gic_edge c t n"
proof -
  have n: "16 * (unat irq div 16) + n mod 16 = n" using assms(3) mult_div_mod_eq [of 16 n] by simp
  have r: "bit (load_value env t GICR_ICFGR1) (2 * j + 1) = gic_edge c t (16 + j)"
    "2 \<le> i \<Longrightarrow> bit (load_value env t (GICD_ICFGR i)) (2 * j + 1) = gic_edge c t (16 * i + j)"
    if "j < 16" for i j
    using assms(1) that by (simp_all add: gic_reads_def)
  show ?thesis
  proof (cases "unat irq < 32")
    case True
    then show ?thesis using r(1) [of "n mod 16"] n private_word [OF assms(2) True]
      by (simp add: cfg_reg_def)
  next
    case False
    then show ?thesis using r(2) [of "n mod 16" "unat irq div 16"] n shared_word [OF False]
      by (simp add: cfg_reg_def)
  qed
qed

lemma reconfigure_state:
  assumes "rwp_clears env" "gic_reads env e c" "16 \<le> unat irq" "unat irq < 1020"
  obtains t1 v t' where "reconfigure env (en_reg irq) (cfg_reg irq) irq edge t = Done t'"
    "t' = (if gic_enabled e t (unat irq) then platform_irq_enable irq (Store (cfg_reg irq) v # t1)
           else Store (cfg_reg irq) v # t1)"
    "\<And>n. n < 1020 \<Longrightarrow> gic_enabled e t1 n = (gic_enabled e t n \<and> n \<noteq> unat irq)"
    "\<And>n. n < 1020 \<Longrightarrow> gic_edge c t' n = (if n = unat irq then edge else gic_edge c t n)"
proof -
  let ?v = "load_value env t (en_reg irq)"
  let ?t0 = "Load (en_reg irq) ?v # t"
  have en: "(ucast ?v AND GIC_ENABLE_BIT irq \<noteq> 0) = gic_enabled e t (unat irq)"
    by (rule reads_enabled [OF assms(2,4)])
  obtain t1 where t1: "(if gic_enabled e t (unat irq) then platform_irq_disable env irq ?t0 else Done ?t0) = Done t1"
    "\<And>n. n < 1020 \<Longrightarrow> gic_enabled e t1 n = (gic_enabled e t n \<and> n \<noteq> unat irq)"
    "\<And>n. gic_edge c t1 n = gic_edge c t n"
  proof (cases "gic_enabled e t (unat irq)")
    case True
    obtain t1 where "platform_irq_disable env irq ?t0 = Done t1"
      "\<And>n. n < 1020 \<Longrightarrow> gic_enabled e t1 n = (gic_enabled e ?t0 n \<and> n \<noteq> unat irq)"
      "\<And>n. gic_edge c t1 n = gic_edge c ?t0 n"
      using platform_irq_disable_state [OF assms(1), of irq ?t0] by blast
    then show thesis using True by (intro that [of t1]) auto
  next
    case False
    then show thesis by (intro that [of ?t0]) auto
  qed
  let ?w = "load_value env t1 (cfg_reg irq)"
  let ?index = "unat ((irq mod 16) * 2 + 1)"
  have mod: "unat (irq mod 16) = unat irq mod 16" by (simp add: unat_mod)
  have index: "?index = 2 * (unat irq mod 16) + 1"
    using mod by (simp add: unat_word_ariths)
  define x where "x = (if edge then ucast ?w OR push_bit ?index 1
      else ucast ?w AND NOT (push_bit ?index (1 :: u32)))"
  have bitx: "bit x (2 * j + 1) = (if j = unat irq mod 16 then edge else bit ?w (2 * j + 1))" if "j < 16" for j
    using that by (auto simp: x_def index bit_simps)
  let ?t2 = "Store (cfg_reg irq) (ucast x) # Load (cfg_reg irq) ?w # t1"
  let ?t' = "if gic_enabled e t (unat irq) then platform_irq_enable irq ?t2 else ?t2"
  have "reconfigure env (en_reg irq) (cfg_reg irq) irq edge t = Done ?t'"
    using t1(1) en
    by (simp add: reconfigure_def device_load32_def device_load_def Let_def x_def [symmetric]
        device_store32_def device_store_def)
  moreover have "gic_edge c ?t2 n = (if n = unat irq then edge else gic_edge c t n)" for n
  proof (cases "n div 16 = unat irq div 16")
    case True
    then have "gic_edge c ?t2 n = bit x (2 * (n mod 16) + 1)"
      by (auto simp: edge_effect_cfg [OF assms(3)] bit_ucast_iff dest: bit_imp_le_length)
    also have "\<dots> = (if n mod 16 = unat irq mod 16 then edge else gic_edge c t n)"
      using bitx [of "n mod 16"] reads_edge [OF assms(2,3) True, of t1] t1(3) by simp
    also have "n mod 16 = unat irq mod 16 \<longleftrightarrow> n = unat irq"
      using True by (metis div_mult_mod_eq)
    finally show ?thesis .
  next
    case False
    then show ?thesis using t1(3) by (auto simp: edge_effect_cfg [OF assms(3)])
  qed
  moreover have "gic_edge c (platform_irq_enable irq ?t2) n = gic_edge c ?t2 n" for n
    by (rule platform_irq_enable_other) (simp_all add: edge_effect_def)
  ultimately show thesis
    using t1(2) by (intro that [of ?t' "ucast x" "Load (cfg_reg irq) ?w # t1"]) auto
qed

section \<open>A device for the examples\<close>

text \<open>A controller that completes every write at once and reads back its state, starting from all
  interrupts disabled and level triggered.\<close>

definition plain_gic :: environment where
  "plain_gic =
     \<lparr>load_value = (\<lambda>t r. case r of
          GICR_ISENABLER0 \<Rightarrow> horner_sum of_bool 2 (map (gic_enabled (\<lambda>n. False) t) [0..<32])
        | GICD_ISENABLER i \<Rightarrow>
            horner_sum of_bool 2 (map (\<lambda>j. gic_enabled (\<lambda>n. False) t (32 * i + j)) [0..<32])
        | GICR_ICFGR1 \<Rightarrow>
            horner_sum of_bool 2 (map (\<lambda>k. odd k \<and> gic_edge (\<lambda>n. False) t (16 + k div 2)) [0..<32])
        | GICD_ICFGR i \<Rightarrow>
            horner_sum of_bool 2 (map (\<lambda>k. odd k \<and> gic_edge (\<lambda>n. False) t (16 * i + k div 2)) [0..<32])
        | ICC_IAR1_EL1 \<Rightarrow> 1023
        | _ \<Rightarrow> 0),
      isr_handled = (\<lambda>t. True), fuel = 0\<rparr>"

lemma plain_gic_rwp: "rwp_clears plain_gic"
  by (simp add: rwp_clears_def plain_gic_def)

lemma plain_gic_reads: "gic_reads plain_gic (\<lambda>n. False) (\<lambda>n. False)"
  by (simp add: gic_reads_def plain_gic_def bit_horner_sum_bit_word_iff)


section \<open>Properties of the driver\<close>





text \<open>\<open>platform_irq_init\<close> skips the last 28 shared interrupts, although it means to disable all of
  them: the loops run to \<open>num_irqs / 32\<close>, which rounds 1020 down, so the enable state and the
  group of the interrupts 992 to 1019 stay what they were.\<close>

theorem platform_irq_init_skips_last:
  assumes "rwp_clears env" "992 \<le> n" "n < 1020"
  shows "\<exists>t'. platform_irq_init env t = Done t' \<and>
    gic_enabled e t' n = gic_enabled e t n \<and> gic_group1 g t' n = gic_group1 g t n"
proof -
  obtain t' m where init: "platform_irq_init env t = Done t'"
    and dis: "\<And>n. n < 1020 \<Longrightarrow> gic_enabled e t' n = (992 \<le> n \<and> gic_enabled e t n)"
    and grp: "\<And>n. n < 1020 \<Longrightarrow> gic_group1 g t' n = (n < 992 \<or> gic_group1 g t n)"
    and "\<And>n. n < 1020 \<Longrightarrow> gic_priority p t' n = GIC_PRIORITY_DEFAULT"
    and "\<And>n. 16 \<le> n \<Longrightarrow> n < 1008 \<Longrightarrow> gic_edge c t' n = (32 \<le> n)"
    and "\<And>n. 32 \<le> n \<Longrightarrow> n < 1020 \<Longrightarrow> gic_route r t' n = m AND MPIDR_EL1_AFF0123_MASK"
    by (rule platform_irq_init_state [OF assms(1), of t e g p c r]) (rule that)
  have "gic_enabled e t' n = gic_enabled e t n" "gic_group1 g t' n = gic_group1 g t n"
    using dis [OF assms(3)] grp [OF assms(3)] assms(2) by simp_all
  with init show ?thesis by blast
qed

theorem platform_irq_init_skips_last_witness:
  "\<exists>t'. platform_irq_init plain_gic [] = Done t' \<and> gic_enabled (\<lambda>n. n = 1000) t' 1000"
  using platform_irq_init_skips_last [OF plain_gic_rwp, of 1000 "[]" "\<lambda>n. n = 1000" "\<lambda>n. False"]
  by auto

definition enabled_irqs :: "(nat \<Rightarrow> bool) \<Rightarrow> trace \<Rightarrow> nat set" where
  "enabled_irqs e t = {n. n < 1020 \<and> gic_enabled e t n}"

text \<open>C32: enabling and disabling an interrupt add it to and remove it from the set of enabled
  interrupts and change no other; numbers beyond the shared interrupts are ignored.\<close>

theorem platform_irq_enable_disable:
  assumes "rwp_clears env"
  shows "enabled_irqs e (platform_irq_enable irq t) = enabled_irqs e t \<union> ({unat irq} \<inter> {..<1020}) \<and>
    (\<exists>t'. platform_irq_disable env irq t = Done t' \<and> enabled_irqs e t' = enabled_irqs e t - {unat irq})"
proof -
  obtain t' where "platform_irq_disable env irq t = Done t'"
    "\<And>n. n < 1020 \<Longrightarrow> gic_enabled e t' n = (gic_enabled e t n \<and> n \<noteq> unat irq)"
    using platform_irq_disable_state [OF assms, of irq t] by blast
  moreover from this(2) have "enabled_irqs e t' = enabled_irqs e t - {unat irq}"
    unfolding enabled_irqs_def by blast
  moreover have "enabled_irqs e (platform_irq_enable irq t) =
      enabled_irqs e t \<union> ({unat irq} \<inter> {..<1020})"
    unfolding enabled_irqs_def platform_irq_enable_state by blast
  ultimately show ?thesis by blast
qed

theorem platform_irq_enable_disable_witness:
  "enabled_irqs (\<lambda>n. n = 7) (platform_irq_enable 40 []) = {7, 40} \<and>
   (\<exists>t'. platform_irq_disable plain_gic 7 [] = Done t' \<and> enabled_irqs (\<lambda>n. n = 7) t' = {})"
proof -
  have e: "enabled_irqs (\<lambda>n. n = 7) [] = {7}" by (auto simp: enabled_irqs_def)
  show ?thesis
    using platform_irq_enable_disable [OF plain_gic_rwp, of "\<lambda>n. n = 7" 40 "[]"]
      platform_irq_enable_disable [OF plain_gic_rwp, of "\<lambda>n. n = 7" 7 "[]"]
    unfolding e by auto
qed



text \<open>The private interrupt 16 is taken for a software-generated one: setting it to edge triggered
  reports success and level triggered failure, and neither touches the controller.\<close>

theorem set_trigger_ppi16:
  "platform_irq_set_trigger env 16 IRQ_TRIGGER_EDGE_RISING t = Done (True, t) \<and>
   platform_irq_set_trigger env 16 IRQ_TRIGGER_LEVEL_HIGH t = Done (False, t)"
  by (simp add: platform_irq_set_trigger_def decode_trigger_def)

end
