(* ===== verification/GenericTimer.thy ===== *)
theory GenericTimer
  imports Gic
begin

text \<open>
  The architected timer of \<^verbatim>\<open>arch/armv8/src/generic_timer.c\<close>: the virtual timer is set,
  cancelled and read through system registers, whose accesses are recorded in the trace.
\<close>

abbreviation (input) "CNTV_CTL_IMASK \<equiv> (2 :: u64)"
abbreviation (input) "CNTV_CTL_ENABLE \<equiv> (1 :: u64)"
abbreviation (input) "PLATFORM_TIMER_IRQ \<equiv> (27 :: virq_t)"

definition write_cntv_ctl :: "u64 \<Rightarrow> trace \<Rightarrow> trace" where
  "write_cntv_ctl cntv_ctl t = device_store CNTV_CTL_EL0 cntv_ctl t"

definition platform_timer_init :: "environment \<Rightarrow> u64 \<Rightarrow> trace \<Rightarrow> trace outcome" where
  "platform_timer_init env timer_freq t =
     (let (cntfrq, t) = device_load env CNTFRQ_EL0 t
      in ensure (cntfrq = timer_freq)
        (let t = device_store CNTKCTL_EL1 0 t;
             t = write_cntv_ctl CNTV_CTL_IMASK t
         in bindc (platform_irq_set_trigger env PLATFORM_TIMER_IRQ IRQ_TRIGGER_LEVEL_HIGH t)
              (\<lambda>(ok, t). Done (platform_irq_enable PLATFORM_TIMER_IRQ t))))"

definition platform_timer_set_timeout :: "u64 \<Rightarrow> trace \<Rightarrow> trace" where
  "platform_timer_set_timeout ticks t =
     Barrier # write_cntv_ctl CNTV_CTL_ENABLE (device_store CNTV_CVAL_EL0 ticks t)"

definition platform_timer_cancel_timeout :: "trace \<Rightarrow> trace" where
  "platform_timer_cancel_timeout t = Barrier # write_cntv_ctl CNTV_CTL_IMASK t"

definition platform_timer_get_current_ticks :: "environment \<Rightarrow> trace \<Rightarrow> u64 \<times> trace" where
  "platform_timer_get_current_ticks env t = device_load env CNTVCT_EL0 t"

end
