(* ===== verification/UserMem.thy ===== *)
theory UserMem
  imports CMachine
begin

unbundle bit_operations_syntax

text \<open>
  The memory of the application as bytes: the runtime and the application share one address
  space, and the arguments of \<open>ioctl\<close> and \<open>writev\<close> are addresses of structures in it. Loads
  and stores are little endian, as on AArch64. The request numbers of \<^verbatim>\<open>include/sys/ioctl.h\<close>
  are computed from their parts.
\<close>

type_synonym memory = "uintptr_t \<Rightarrow> u8"

definition load16 :: "memory \<Rightarrow> uintptr_t \<Rightarrow> u16" where
  "load16 m a = ucast (m a) OR push_bit 8 (ucast (m (a + 1)))"

definition load32 :: "memory \<Rightarrow> uintptr_t \<Rightarrow> u32" where
  "load32 m a = ucast (load16 m a) OR push_bit 16 (ucast (load16 m (a + 2)))"

definition load64 :: "memory \<Rightarrow> uintptr_t \<Rightarrow> u64" where
  "load64 m a = ucast (load32 m a) OR push_bit 32 (ucast (load32 m (a + 4)))"

definition store16 :: "memory \<Rightarrow> uintptr_t \<Rightarrow> u16 \<Rightarrow> memory" where
  "store16 m a v = m(a := ucast v, a + 1 := ucast (drop_bit 8 v))"

definition store32 :: "memory \<Rightarrow> uintptr_t \<Rightarrow> u32 \<Rightarrow> memory" where
  "store32 m a v = store16 (store16 m a (ucast v)) (a + 2) (ucast (drop_bit 16 v))"

definition store64 :: "memory \<Rightarrow> uintptr_t \<Rightarrow> u64 \<Rightarrow> memory" where
  "store64 m a v = store32 (store32 m a (ucast v)) (a + 4) (ucast (drop_bit 32 v))"

text \<open>\<open>n\<close> bytes of memory as characters.\<close>

definition load_chars :: "memory \<Rightarrow> uintptr_t \<Rightarrow> nat \<Rightarrow> string" where
  "load_chars m a n = map (\<lambda>i. char_of (unat (m (a + of_nat i)))) [0..<n]"

section \<open>Loads after stores\<close>

lemma bit_load16: "bit (load16 m a) n \<longleftrightarrow> (if n < 8 then bit (m a) n else n < 16 \<and> bit (m (a + 1)) (n - 8))"
  by (auto simp: load16_def bit_simps dest: bit_imp_le_length)

lemma bit_load32: "bit (load32 m a) n \<longleftrightarrow>
    (if n < 16 then bit (load16 m a) n else n < 32 \<and> bit (load16 m (a + 2)) (n - 16))"
  by (auto simp: load32_def bit_simps dest: bit_imp_le_length)

lemma bit_load64: "bit (load64 m a) n \<longleftrightarrow>
    (if n < 32 then bit (load32 m a) n else n < 64 \<and> bit (load32 m (a + 4)) (n - 32))"
  by (auto simp: load64_def bit_simps dest: bit_imp_le_length)

lemma load16_store16: "load16 (store16 m a v) a = v"
  by (rule bit_word_eqI) (auto simp: bit_load16 store16_def bit_simps)

text \<open>The bytes that a load reads, lowest first, and those that a store changes.\<close>

lemma octets: "(8 + k) div 8 = 1 + k div 8" "(16 + k) div 8 = 2 + k div 8" "(32 + k) div 8 = 4 + k div 8"
    "(8 + k) mod 8 = k mod 8" "(16 + k) mod 8 = k mod 8" "(32 + k) mod 8 = k mod 8" for k :: nat
  by presburger+

lemma bit_load16_at: "bit (load16 m a) n \<longleftrightarrow> n < 16 \<and> bit (m (a + of_nat (n div 8))) (n mod 8)"
proof (cases "n < 8")
  case False
  then obtain k where "n = 8 + k" using le_Suc_ex by (metis not_less)
  then show ?thesis by (cases "k < 8") (auto simp: bit_load16 octets dest: bit_imp_le_length)
qed (simp add: bit_load16)

lemma bit_load32_at: "bit (load32 m a) n \<longleftrightarrow> n < 32 \<and> bit (m (a + of_nat (n div 8))) (n mod 8)"
proof (cases "n < 16")
  case False
  then obtain k where "n = 16 + k" using le_Suc_ex by (metis not_less)
  then show ?thesis by (simp add: bit_load32 bit_load16_at octets add.assoc)
qed (simp add: bit_load32 bit_load16_at)

lemma bit_load64_at: "bit (load64 m a) n \<longleftrightarrow> n < 64 \<and> bit (m (a + of_nat (n div 8))) (n mod 8)"
proof (cases "n < 32")
  case False
  then obtain k where "n = 32 + k" using le_Suc_ex by (metis not_less)
  then show ?thesis by (simp add: bit_load64 bit_load32_at octets add.assoc)
qed (simp add: bit_load64 bit_load32_at)

lemma byte_of_part:
  "ucast (ucast v :: u16) = (ucast v :: u8)"
  "ucast (drop_bit 8 (ucast v :: u16)) = (ucast (drop_bit 8 v) :: u8)"
  "ucast (ucast w :: u32) = (ucast w :: u8)"
  "ucast (drop_bit 8 (ucast w :: u32)) = (ucast (drop_bit 8 w) :: u8)"
  "ucast (drop_bit 16 (ucast w :: u32)) = (ucast (drop_bit 16 w) :: u8)"
  "ucast (drop_bit 24 (ucast w :: u32)) = (ucast (drop_bit 24 w) :: u8)"
  for v :: u32 and w :: u64
  by (rule bit_word_eqI; auto simp: bit_simps)+

lemma store32_bytes:
  "store32 m a v = m(a := ucast v, a + 1 := ucast (drop_bit 8 v), a + 2 := ucast (drop_bit 16 v),
     a + 3 := ucast (drop_bit 24 v))"
  by (simp add: store32_def store16_def byte_of_part add.assoc)

lemma store64_bytes:
  "store64 m a v = m(a := ucast v, a + 1 := ucast (drop_bit 8 v), a + 2 := ucast (drop_bit 16 v),
     a + 3 := ucast (drop_bit 24 v), a + 4 := ucast (drop_bit 32 v), a + 5 := ucast (drop_bit 40 v),
     a + 6 := ucast (drop_bit 48 v), a + 7 := ucast (drop_bit 56 v))"
  unfolding store64_def store32_bytes byte_of_part by (simp add: add.assoc)

lemma word_below_8: "(d :: uintptr_t) < 8 \<Longrightarrow> d \<in> {0, 1, 2, 3, 4, 5, 6, 7}"
proof -
  assume "d < 8"
  then have "unat d < 8" by (simp add: word_less_nat_alt)
  then have "unat d \<in> {0, 1, 2, 3, 4, 5, 6, 7}" by auto
  then show ?thesis by (auto simp: word_unat_eq_iff)
qed

lemma store64_at:
  "store64 m a v (a + d) = (if d < 8 then ucast (drop_bit (8 * unat d) v) else m (a + d))"
proof (cases "d < 8")
  case True
  then have "d \<in> {0, 1, 2, 3, 4, 5, 6, 7}" by (rule word_below_8)
  then show ?thesis by (elim insertE emptyE) (simp_all add: store64_bytes)
next
  case False
  then have "d \<noteq> 0" "d \<noteq> 1" "d \<noteq> 2" "d \<noteq> 3" "d \<noteq> 4" "d \<noteq> 5" "d \<noteq> 6" "d \<noteq> 7" by auto
  then show ?thesis using False by (simp add: store64_bytes)
qed

lemma load64_store64: "load64 (store64 m a v) a = v"
proof (rule bit_word_eqI)
  fix n assume n: "n < LENGTH(64)"
  then have "n div 8 < 8" by simp
  then have "unat (of_nat (n div 8) :: u64) = n div 8" "(of_nat (n div 8) :: u64) < 8"
    by (simp_all add: word_less_nat_alt)
  then show "bit (load64 (store64 m a v) a) n \<longleftrightarrow> bit v n"
    using n by (simp add: bit_load64_at store64_at bit_simps)
qed

text \<open>A load is determined by the bytes it reads; a store elsewhere does not change it.\<close>

lemma load64_cong:
  assumes "\<And>d. d < 8 \<Longrightarrow> m (a + d) = m' (a + d)"
  shows "load64 m a = load64 m' a"
proof (rule bit_word_eqI)
  fix n assume n: "n < LENGTH(64)"
  then have "n div 8 < 8" by simp
  then have "(of_nat (n div 8) :: u64) < 8" by (simp add: word_less_nat_alt)
  then show "bit (load64 m a) n \<longleftrightarrow> bit (load64 m' a) n"
    using n assms by (simp add: bit_load64_at)
qed

lemma store64_outside: "\<not> x - a < 8 \<Longrightarrow> store64 m a v x = m x"
  using store64_at [of m a v "x - a"] by simp

lemma load64_store64_other:
  fixes a b :: uintptr_t
  assumes "8 \<le> b - a" "b - a \<le> - 8"
  shows "load64 (store64 m a v) b = load64 m b"
proof (rule load64_cong)
  fix d :: uintptr_t assume d: "d < 8"
  have "unat (b - a) \<le> 2 ^ 64 - 8" using assms(2) by (simp add: word_le_nat_alt)
  then have "unat (b - a + d) = unat (b - a) + unat d"
    using d by (intro unat_add_fits) (simp add: word_less_nat_alt)
  then have "\<not> b - a + d < 8" using assms(1) by (simp add: word_less_nat_alt word_le_nat_alt)
  then have "\<not> b + d - a < 8" by (simp add: algebra_simps)
  then show "store64 m a v (b + d) = m (b + d)" by (rule store64_outside)
qed

section \<open>Request numbers\<close>

definition IOC :: "u32 \<Rightarrow> u32 \<Rightarrow> u32 \<Rightarrow> u32 \<Rightarrow> u32" where
  "IOC a b c d = push_bit 30 a OR push_bit 8 b OR c OR push_bit 16 d"

abbreviation (input) "IOC_WRITE \<equiv> (1 :: u32)"
abbreviation (input) "IOC_READ \<equiv> (2 :: u32)"

text \<open>The third argument of \<open>IOW\<close> and \<open>IOR\<close> is a type; here its size.\<close>

definition IOW :: "u32 \<Rightarrow> u32 \<Rightarrow> u32 \<Rightarrow> u32" where
  "IOW a b sz = IOC IOC_WRITE a b sz"

definition IOR :: "u32 \<Rightarrow> u32 \<Rightarrow> u32 \<Rightarrow> u32" where
  "IOR a b sz = IOC IOC_READ a b sz"

lemmas ioc_defs = IOW_def IOR_def IOC_def

end
