(* ===== verification/Interrupt.thy ===== *)
theory Interrupt
  imports GenericTimer UserMem
begin

unbundle bit_operations_syntax

text \<open>
  Interrupt dispatch, \<^verbatim>\<open>src/interrupt.c\<close>, with the inline functions of
  \<^verbatim>\<open>asm/interrupt.h\<close> and the timer's handler \<open>timer_isr\<close> of \<^verbatim>\<open>src/timer.c\<close>. An entry
  of \<open>isr_table\<close> holds the address of a handler of the application or the timer's. The call
  of a handler of the application is an event; the value it returns is given by the
  environment. \<open>io\<close> is the trace.
\<close>

section \<open>State\<close>

datatype isr = Timer_isr | App_isr uintptr_t

record isr_entry =
  ie_isr :: "isr option"
  ie_data :: uintptr_t

record irq_state =
  isr_table :: "virq_t \<Rightarrow> isr_entry"
  timer_fired :: bool
  io :: trace

definition isr_address :: "uintptr_t \<Rightarrow> isr option" where
  "isr_address a = (if a = 0 then None else Some (App_isr a))"

definition no_isrs :: "virq_t \<Rightarrow> isr_entry" where
  "no_isrs irq = \<lparr>ie_isr = None, ie_data = 0\<rparr>"

definition interrupt_init :: "environment \<Rightarrow> irq_state \<Rightarrow> irq_state outcome" where
  "interrupt_init env st = bindc (platform_irq_init env (io st)) (\<lambda>t. Done (st\<lparr>io := t\<rparr>))"

section \<open>Registration\<close>

definition have_isr :: "virq_t \<Rightarrow> irq_state \<Rightarrow> bool outcome" where
  "have_isr irq st = in_object (irq < PLATFORM_NUM_IRQS) (Done (ie_isr (isr_table st irq) \<noteq> None))"

definition interrupt_register_isr ::
  "virq_t \<Rightarrow> isr option \<Rightarrow> uintptr_t \<Rightarrow> irq_state \<Rightarrow> (int \<times> irq_state) outcome" where
  "interrupt_register_isr irq isr data st =
     (if irq \<ge> PLATFORM_NUM_IRQS then Done (- EINVAL, st)
      else
        bindc (have_isr irq st) (\<lambda>h.
          if h then Done (- EBUSY, st)
          else Done (0, st\<lparr>isr_table := (isr_table st)(irq := \<lparr>ie_isr = isr, ie_data = data\<rparr>)\<rparr>)))"

definition interrupt_deregister_isr :: "virq_t \<Rightarrow> irq_state \<Rightarrow> (int \<times> irq_state) outcome" where
  "interrupt_deregister_isr irq st =
     (if irq \<ge> PLATFORM_NUM_IRQS then Done (- EINVAL, st)
      else
        bindc (have_isr irq st) (\<lambda>h.
          if \<not> h then Done (- ENOENT, st)
          else Done (0, st\<lparr>isr_table := (isr_table st)(irq := \<lparr>ie_isr = None, ie_data = 0\<rparr>)\<rparr>)))"

section \<open>Dispatch\<close>

definition timer_isr :: "irq_state \<Rightarrow> bool \<times> irq_state" where
  "timer_isr st = (True, st\<lparr>timer_fired := True, io := platform_timer_cancel_timeout (io st)\<rparr>)"

definition call_isr :: "environment \<Rightarrow> isr \<Rightarrow> virq_t \<Rightarrow> uintptr_t \<Rightarrow> irq_state \<Rightarrow> bool \<times> irq_state" where
  "call_isr env f irq data st =
     (case f of
        Timer_isr \<Rightarrow> timer_isr st
      | App_isr a \<Rightarrow>
          let t = Call_isr a irq data # io st in (isr_handled env t, st\<lparr>io := t\<rparr>))"

text \<open>One round of the loop: whether to leave it, and the new state.\<close>

definition dispatch_round :: "environment \<Rightarrow> irq_state \<Rightarrow> (bool \<times> irq_state) outcome" where
  "dispatch_round env st =
     (let (irq, t) = platform_irq_acknowledge env (io st);
          st = st\<lparr>io := t\<rparr>
      in if irq = VIRQ_INVALID then Done (True, st)
         else
           in_object (irq < PLATFORM_NUM_IRQS)
            (let i = isr_table st irq
             in case ie_isr i of
                  None \<Rightarrow>
                    bindc (platform_irq_disable env irq (io st)) (\<lambda>t.
                    bindc (platform_irq_deactivate irq t) (\<lambda>t. Done (False, st\<lparr>io := t\<rparr>)))
                | Some f \<Rightarrow>
                    let (handled, st) = call_isr env f irq (ie_data i) st;
                        t = platform_irq_priority_drop irq (io st)
                    in bindc (if \<not> handled then platform_irq_disable env irq t else Done t) (\<lambda>t.
                       bindc (platform_irq_deactivate irq t) (\<lambda>t. Done (False, st\<lparr>io := t\<rparr>)))))"

fun dispatch_loop :: "nat \<Rightarrow> environment \<Rightarrow> irq_state \<Rightarrow> irq_state outcome" where
  "dispatch_loop 0 env st = Fault OutOfFuel"
| "dispatch_loop (Suc n) env st =
     bindc (dispatch_round env st) (\<lambda>(stop, st).
       if stop then Done st else dispatch_loop n env st)"

definition interrupt_dispatch :: "environment \<Rightarrow> irq_state \<Rightarrow> irq_state outcome" where
  "interrupt_dispatch env st = dispatch_loop (fuel env + 1) env st"

section \<open>ioctl\<close>

definition update_irq :: "environment \<Rightarrow> virq_t \<Rightarrow> bool \<Rightarrow> irq_state \<Rightarrow> (int \<times> irq_state) outcome" where
  "update_irq env irq enable st =
     bindc (have_isr irq st) (\<lambda>h.
       if \<not> h then Done (- ENOENT, st)
       else if enable then Done (0, st\<lparr>io := platform_irq_enable irq (io st)\<rparr>)
       else bindc (platform_irq_disable env irq (io st)) (\<lambda>t. Done (0, st\<lparr>io := t\<rparr>)))"

definition assert_irq :: "virq_t \<Rightarrow> bool \<Rightarrow> irq_state \<Rightarrow> (int \<times> irq_state) outcome" where
  "assert_irq irq asserted st =
     bindc (have_isr irq st) (\<lambda>h.
       if \<not> h then Done (- ENOENT, st)
       else Done (0, st\<lparr>io := (if asserted then platform_irq_assert irq (io st)
                               else platform_irq_clear irq (io st))\<rparr>))"

definition IOCTL_ENABLE_IRQ :: u32 where "IOCTL_ENABLE_IRQ = IOW 0x49 0 4"
definition IOCTL_DISABLE_IRQ :: u32 where "IOCTL_DISABLE_IRQ = IOW 0x49 1 4"
definition IOCTL_REGISTER_ISR :: u32 where "IOCTL_REGISTER_ISR = IOW 0x49 2 24"
definition IOCTL_SET_IRQ_TRIGGER :: u32 where "IOCTL_SET_IRQ_TRIGGER = IOW 0x49 3 8"
definition IOCTL_DEREGISTER_ISR :: u32 where "IOCTL_DEREGISTER_ISR = IOW 0x49 4 4"
definition IOCTL_ASSERT_IRQ :: u32 where "IOCTL_ASSERT_IRQ = IOW 0x49 5 4"
definition IOCTL_CLEAR_IRQ :: u32 where "IOCTL_CLEAR_IRQ = IOW 0x49 6 4"

text \<open>
  The layout of \<open>struct register_isr_req\<close>: the handler at 0, the number at 8 and the data at 16;
  of \<open>struct irq_set_trigger_req\<close>: the number at 0 and the trigger, an \<open>int32_t\<close>, at 4.
\<close>

definition interrupt_ioctl ::
  "environment \<Rightarrow> memory \<Rightarrow> u32 \<Rightarrow> uintptr_t \<Rightarrow> irq_state \<Rightarrow> (int \<times> irq_state) outcome" where
  "interrupt_ioctl env m cmd arg st =
     (if cmd = IOCTL_ENABLE_IRQ then update_irq env (load32 m arg) True st
      else if cmd = IOCTL_DISABLE_IRQ then update_irq env (load32 m arg) False st
      else if cmd = IOCTL_ASSERT_IRQ then assert_irq (load32 m arg) True st
      else if cmd = IOCTL_CLEAR_IRQ then assert_irq (load32 m arg) False st
      else if cmd = IOCTL_REGISTER_ISR then
        interrupt_register_isr (load32 m (arg + 8)) (isr_address (load64 m arg)) (load64 m (arg + 16)) st
      else if cmd = IOCTL_DEREGISTER_ISR then interrupt_deregister_isr (load32 m arg) st
      else if cmd = IOCTL_SET_IRQ_TRIGGER then
        bindc (platform_irq_set_trigger env (load32 m arg) (sint (load32 m (arg + 4))) (io st))
          (\<lambda>(ok, t). Done (if ok then 0 else - EINVAL, st\<lparr>io := t\<rparr>))
      else Done (- ENOSYS, st))"

section \<open>Waiting\<close>

definition asm_wait_for_interrupt :: "environment \<Rightarrow> trace \<Rightarrow> trace" where
  "asm_wait_for_interrupt env t =
     (let (rpr, t) = device_load env ICC_RPR_EL1 (Barrier # t);
          t = (if rpr \<noteq> 0xff then Barrier # device_store ICC_AP1R0_EL1 0 t else t)
      in Barrier # Wfi # Barrier # t)"

definition asm_interrupt_pending :: "environment \<Rightarrow> trace \<Rightarrow> bool \<times> trace" where
  "asm_interrupt_pending env t =
     (let (isr, t) = device_load env ISR_EL1 t in (isr AND 0x80 \<noteq> 0, t))"

definition interrupt_wait :: "environment \<Rightarrow> irq_state \<Rightarrow> (bool \<times> irq_state) outcome" where
  "interrupt_wait env st =
     (let t = asm_wait_for_interrupt env (io st);
          (pending, t) = asm_interrupt_pending env t;
          st = st\<lparr>io := t\<rparr>
      in bindc (if pending then interrupt_dispatch env st else Done st) (\<lambda>st. Done (pending, st)))"

end
