(* ===== verification/Registry.thy ===== *)
theory Registry
  imports CMachine
begin

text \<open>
  The contract shared by the three places where the application registers a callback: the
  console, the exit function and the handler of each interrupt. A slot is empty or holds one
  callback; registering in an occupied slot fails with \<open>EBUSY\<close>, deregistering from an empty one
  with \<open>ENOENT\<close>. The locale proves once that every sequence of calls behaves as the
  abstract slot \<open>slot_spec\<close>.
\<close>

datatype 'f slot_call = Register 'f | Deregister

text \<open>The abstract slot: the result of a call and the new contents; \<open>null\<close> is the empty slot.\<close>

fun slot_spec :: "'f \<Rightarrow> 'f slot_call \<Rightarrow> 'f \<Rightarrow> int \<times> 'f" where
  "slot_spec null (Register f) c = (if c \<noteq> null then (- EBUSY, c) else (0, f))"
| "slot_spec null Deregister c = (if c = null then (- ENOENT, c) else (0, null))"

text \<open>A sequence of calls of any slot: the results, and the state at the end.\<close>

fun run_calls :: "('f slot_call \<Rightarrow> 's \<Rightarrow> int \<times> 's) \<Rightarrow> 'f slot_call list \<Rightarrow> 's \<Rightarrow> int list \<times> 's" where
  "run_calls f [] s = ([], s)"
| "run_calls f (c # cs) s =
     (let (r, s) = f c s; (rs, s) = run_calls f cs s in (r # rs, s))"

locale slot =
  fixes null :: 'f
    and current :: "'s \<Rightarrow> 'f"
    and register :: "'f \<Rightarrow> 's \<Rightarrow> int \<times> 's"
    and deregister :: "'s \<Rightarrow> int \<times> 's"
  assumes register_busy: "current s \<noteq> null \<Longrightarrow> register f s = (- EBUSY, s)"
    and register_free: "current s = null \<Longrightarrow> f \<noteq> null \<Longrightarrow>
      fst (register f s) = 0 \<and> current (snd (register f s)) = f"
    and deregister_free: "current s = null \<Longrightarrow> deregister s = (- ENOENT, s)"
    and deregister_used: "current s \<noteq> null \<Longrightarrow>
      fst (deregister s) = 0 \<and> current (snd (deregister s)) = null"
begin

definition slot_call :: "'f slot_call \<Rightarrow> 's \<Rightarrow> int \<times> 's" where
  "slot_call c s = (case c of Register f \<Rightarrow> register f s | Deregister \<Rightarrow> deregister s)"

lemma call_refines:
  assumes "c \<noteq> Register null"
  shows "fst (slot_call c s) = fst (slot_spec null c (current s))"
    "current (snd (slot_call c s)) = snd (slot_spec null c (current s))"
  using assms register_busy register_free deregister_free deregister_used
  by (cases c; cases "current s = null"; simp add: slot_call_def)+

text \<open>Every sequence of calls gives the results of the abstract slot.\<close>

lemma calls_refine:
  "Register null \<notin> set cs \<Longrightarrow>
     fst (run_calls slot_call cs s) = fst (run_calls (slot_spec null) cs (current s)) \<and>
     current (snd (run_calls slot_call cs s)) = snd (run_calls (slot_spec null) cs (current s))"
proof (induction cs arbitrary: s)
  case (Cons c cs)
  have "c \<noteq> Register null" using Cons.prems by auto
  from call_refines [OF this, of s] show ?case
    using Cons.IH [of "snd (slot_call c s)"] Cons.prems
    by (simp add: split_beta)
qed simp

text \<open>A callback that is registered stays until it is deregistered.\<close>

lemma owner_stays:
  "current s \<noteq> null \<Longrightarrow> Deregister \<notin> set cs \<Longrightarrow>
     snd (run_calls slot_call cs s) = s \<and> (\<forall>r \<in> set (fst (run_calls slot_call cs s)). r = - EBUSY)"
proof (induction cs)
  case (Cons c cs)
  then obtain f where "c = Register f" by (cases c) auto
  with Cons show ?case by (simp add: slot_call_def register_busy split_beta)
qed simp

end

end
