(* ===== verification/IrqSpec.thy ===== *)
theory IrqSpec
  imports Interrupt GicSpec Registry
begin

unbundle bit_operations_syntax

text \<open>
  What interrupt dispatch achieves: every interrupt the controller hands out is acknowledged,
  given to its handler and ended exactly once and in order, and interrupts without a handler
  are disabled. Registration is a slot for every interrupt number.
\<close>

section \<open>The observable events\<close>

text \<open>Acknowledgements, ends of interrupts and calls of handlers, oldest first.\<close>

fun is_irq_event :: "event \<Rightarrow> bool" where
  "is_irq_event (Load r v) \<longleftrightarrow> r = ICC_IAR1_EL1"
| "is_irq_event (Store r v) \<longleftrightarrow> r = ICC_EOIR1_EL1"
| "is_irq_event (Call_isr a irq d) \<longleftrightarrow> True"
| "is_irq_event e \<longleftrightarrow> False"

definition irq_log :: "trace \<Rightarrow> event list" where
  "irq_log t = rev (filter is_irq_event t)"

fun is_acknowledge :: "event \<Rightarrow> bool" where
  "is_acknowledge (Load r v) \<longleftrightarrow> r = ICC_IAR1_EL1"
| "is_acknowledge e \<longleftrightarrow> False"

definition acknowledged :: "trace \<Rightarrow> nat" where
  "acknowledged t = length (filter is_acknowledge t)"

text \<open>
  The documented behaviour of the acknowledge register: it hands out the pending interrupts one
  after the other, and the spurious number 1023 when there is none left. The list \<open>irqs\<close> is
  the order in which the controller hands them out.
\<close>

definition hands_out :: "environment \<Rightarrow> virq_t list \<Rightarrow> bool" where
  "hands_out env irqs \<longleftrightarrow>
     (\<forall>irq \<in> set irqs. irq < PLATFORM_NUM_IRQS) \<and>
     (\<forall>t. load_value env t ICC_IAR1_EL1 =
        (if acknowledged t < length irqs then ucast (irqs ! acknowledged t) else 1023))"

text \<open>What happens for one interrupt.\<close>

definition handler_call :: "irq_state \<Rightarrow> virq_t \<Rightarrow> event list" where
  "handler_call st irq =
     (case ie_isr (isr_table st irq) of
        Some (App_isr a) \<Rightarrow> [Call_isr a irq (ie_data (isr_table st irq))]
      | _ \<Rightarrow> [])"

definition handle_log :: "irq_state \<Rightarrow> virq_t \<Rightarrow> event list" where
  "handle_log st irq =
     [Load ICC_IAR1_EL1 (ucast irq)] @ handler_call st irq @ [Store ICC_EOIR1_EL1 (ucast irq)]"

section \<open>One round\<close>

lemma irq_filters_poll: "is_poll e \<Longrightarrow> \<not> is_irq_event e" "is_poll e \<Longrightarrow> \<not> is_acknowledge e"
  by (cases e rule: is_poll.cases; auto)+

lemma irq_log_Cons: "irq_log (e # t) = (if is_irq_event e then irq_log t @ [e] else irq_log t)"
  by (simp add: irq_log_def)

lemma acknowledged_Cons: "acknowledged (e # t) = (if is_acknowledge e then Suc (acknowledged t) else acknowledged t)"
  by (simp add: acknowledged_def)

lemma irq_log_polls: "\<forall>e \<in> set es. is_poll e \<Longrightarrow> irq_log (es @ t) = irq_log t"
  and acknowledged_polls: "\<forall>e \<in> set es. is_poll e \<Longrightarrow> acknowledged (es @ t) = acknowledged t"
  by (simp_all add: irq_log_def acknowledged_def filter_polls irq_filters_poll)

lemmas irq_trace = irq_log_Cons acknowledged_Cons device_store_def device_store32_def

text \<open>Disabling an interrupt leaves no observable event.\<close>

lemma disable_unobserved:
  assumes "rwp_clears env"
  obtains t' where "platform_irq_disable env irq t = Done t'" "irq_log t' = irq_log t"
    "acknowledged t' = acknowledged t"
    "\<forall>n < 1020. gic_enabled e t' n = (gic_enabled e t n \<and> n \<noteq> unat irq)"
proof -
  obtain l where l: "platform_irq_disable env irq t =
      Done (if unat irq < 32 then l @ device_store32 GICR_ICENABLER0 (GIC_ENABLE_BIT irq) t
            else if unat irq < 1020
            then l @ device_store32 (GICD_ICENABLER (unat irq div 32)) (GIC_ENABLE_BIT irq) t
            else t)" (is "_ = Done ?t'")
    "\<forall>e \<in> set l. is_poll e"
    by (rule platform_irq_disable_trace [OF assms])
  obtain t'' where t'': "platform_irq_disable env irq t = Done t''"
    "\<And>n. n < 1020 \<Longrightarrow> gic_enabled e t'' n = (gic_enabled e t n \<and> n \<noteq> unat irq)"
    "\<And>n. gic_edge c t'' n = gic_edge c t n"
    by (rule platform_irq_disable_state [OF assms, of irq t e c]) (rule that)
  have "irq_log ?t' = irq_log t" "acknowledged ?t' = acknowledged t"
    using l(2) by (auto simp: irq_log_polls acknowledged_polls irq_trace)
  then show thesis using l(1) t'' that [of t''] by auto
qed

lemma deactivate_log:
  assumes "irq < PLATFORM_NUM_IRQS"
  shows "platform_irq_deactivate irq t =
    Done (Store ICC_EOIR1_EL1 (ucast irq) # Barrier # Store DAIFSet 0x7 # t)"
  using assms by (simp add: platform_irq_deactivate_def device_store_def Let_def)

lemma call_isr_effect:
  obtains h st' where "call_isr env f irq d st = (h, st')" "isr_table st' = isr_table st"
    "irq_log (io st') = irq_log (io st) @ (case f of App_isr a \<Rightarrow> [Call_isr a irq d] | Timer_isr \<Rightarrow> [])"
    "acknowledged (io st') = acknowledged (io st)"
    "timer_fired st' = (timer_fired st \<or> f = Timer_isr)"
    "\<forall>n. gic_enabled e (io st') n = gic_enabled e (io st) n"
proof (cases f)
  case Timer_isr
  show thesis
    by (rule that [of True "snd (timer_isr st)"])
      (simp_all add: Timer_isr call_isr_def timer_isr_def platform_timer_cancel_timeout_def
        write_cntv_ctl_def irq_trace enable_effect_def)
next
  case (App_isr a)
  show thesis
    by (rule that [of "isr_handled env (Call_isr a irq d # io st)" "st\<lparr>io := Call_isr a irq d # io st\<rparr>"])
      (simp_all add: App_isr call_isr_def irq_trace Let_def)
qed

lemma acknowledge_next:
  assumes "hands_out env irqs" "acknowledged t < length irqs"
  defines "irq \<equiv> irqs ! acknowledged t"
  shows "platform_irq_acknowledge env t = (irq, Barrier # Load ICC_IAR1_EL1 (ucast irq) # t)"
    "irq < PLATFORM_NUM_IRQS"
proof -
  show lt: "irq < PLATFORM_NUM_IRQS" using assms by (simp add: hands_out_def)
  then have "unat (ucast irq :: u64) < 1020" by (simp add: word_less_nat_alt)
  then have "ucast irq < (1020 :: u64)" by (simp add: word_less_nat_alt)
  moreover have "ucast (ucast irq :: u64) = irq"
    by (rule bit_word_eqI) (auto simp: bit_ucast_iff)
  ultimately show "platform_irq_acknowledge env t = (irq, Barrier # Load ICC_IAR1_EL1 (ucast irq) # t)"
    using assms by (simp add: platform_irq_acknowledge_def device_load_def hands_out_def Let_def)
qed

lemma dispatch_round_next:
  assumes "rwp_clears env" "hands_out env irqs" "acknowledged (io st) < length irqs"
  defines "irq \<equiv> irqs ! acknowledged (io st)"
  obtains st' where "dispatch_round env st = Done (False, st')" "isr_table st' = isr_table st"
    "irq_log (io st') = irq_log (io st) @ handle_log st irq"
    "acknowledged (io st') = Suc (acknowledged (io st))"
    "timer_fired st' = (timer_fired st \<or> ie_isr (isr_table st irq) = Some Timer_isr)"
    "\<forall>n < 1020. gic_enabled e (io st') n \<longrightarrow>
       gic_enabled e (io st) n \<and> (n = unat irq \<longrightarrow> ie_isr (isr_table st irq) \<noteq> None)"
    "\<forall>n < 1020. n \<noteq> unat irq \<longrightarrow> gic_enabled e (io st') n = gic_enabled e (io st) n"
proof -
  let ?t1 = "Barrier # Load ICC_IAR1_EL1 (ucast irq) # io st"
  let ?st1 = "st\<lparr>io := ?t1\<rparr>"
  note ack = acknowledge_next [OF assms(2,3), folded irq_def]
  have inv: "irq \<noteq> VIRQ_INVALID" using ack(2) by auto
  have log1: "irq_log ?t1 = irq_log (io st) @ [Load ICC_IAR1_EL1 (ucast irq)]"
    "acknowledged ?t1 = Suc (acknowledged (io st))" by (simp_all add: irq_trace)
  let ?eoi = "\<lambda>t. Store ICC_EOIR1_EL1 (ucast irq) # Barrier # Store DAIFSet 0x7 # t"
  have end_log: "irq_log (?eoi t) = irq_log t @ [Store ICC_EOIR1_EL1 (ucast irq)]"
    "acknowledged (?eoi t) = acknowledged t" "gic_enabled e (?eoi t) n = gic_enabled e t n" for t n
    by (simp_all add: irq_trace enable_effect_def)
  show thesis
  proof (cases "ie_isr (isr_table st irq)")
    case None
    obtain t2 where t2: "platform_irq_disable env irq ?t1 = Done t2" "irq_log t2 = irq_log ?t1"
      "acknowledged t2 = acknowledged ?t1"
      "\<forall>n < 1020. gic_enabled e t2 n = (gic_enabled e ?t1 n \<and> n \<noteq> unat irq)"
      by (rule disable_unobserved [OF assms(1), of irq ?t1 e])
    have "dispatch_round env st = Done (False, st\<lparr>io := ?eoi t2\<rparr>)"
      using None ack inv t2(1) by (simp add: dispatch_round_def deactivate_log Let_def)
    then show thesis
      using None t2 log1 by (intro that [of "st\<lparr>io := ?eoi t2\<rparr>"])
        (simp_all add: end_log(1,2) enable_effect_def handle_log_def handler_call_def)
  next
    case (Some f)
    obtain h st2 where c: "call_isr env f irq (ie_data (isr_table st irq)) ?st1 = (h, st2)"
      "isr_table st2 = isr_table st"
      "irq_log (io st2) = irq_log ?t1 @ (case f of App_isr a \<Rightarrow> [Call_isr a irq (ie_data (isr_table st irq))] | Timer_isr \<Rightarrow> [])"
      "acknowledged (io st2) = acknowledged ?t1"
      "timer_fired st2 = (timer_fired st \<or> f = Timer_isr)"
      "\<forall>n. gic_enabled e (io st2) n = gic_enabled e (io st) n"
      by (rule call_isr_effect [of env f irq "ie_data (isr_table st irq)" ?st1 e]) simp
    obtain t2 where t2: "(if \<not> h then platform_irq_disable env irq (io st2) else Done (io st2)) = Done t2"
      "irq_log t2 = irq_log (io st2)" "acknowledged t2 = acknowledged (io st2)"
      "\<forall>n < 1020. gic_enabled e t2 n \<longrightarrow> gic_enabled e (io st2) n"
      "\<forall>n < 1020. n \<noteq> unat irq \<longrightarrow> gic_enabled e t2 n = gic_enabled e (io st2) n"
    proof (cases h)
      case True
      then show thesis by (intro that [of "io st2"]) simp_all
    next
      case False
      obtain t2 where "platform_irq_disable env irq (io st2) = Done t2" "irq_log t2 = irq_log (io st2)"
        "acknowledged t2 = acknowledged (io st2)"
        "\<forall>n < 1020. gic_enabled e t2 n = (gic_enabled e (io st2) n \<and> n \<noteq> unat irq)"
        by (rule disable_unobserved [OF assms(1), of irq "io st2" e])
      then show thesis using False by (intro that [of t2]) simp_all
    qed
    have "dispatch_round env st = Done (False, st2\<lparr>io := ?eoi t2\<rparr>)"
      using Some ack inv c(1) t2(1)
      by (simp add: dispatch_round_def deactivate_log platform_irq_priority_drop_def Let_def)
    then show thesis
      using Some c t2 log1 by (intro that [of "st2\<lparr>io := ?eoi t2\<rparr>"])
        (simp_all add: end_log(1,2) enable_effect_def handle_log_def handler_call_def split: isr.splits)
  qed
qed

section \<open>The whole dispatch\<close>

lemma dispatch_stops:
  assumes "hands_out env irqs" "length irqs \<le> acknowledged (io st)"
  shows "dispatch_round env st =
    Done (True, st\<lparr>io := Barrier # Load ICC_IAR1_EL1 1023 # io st\<rparr>)"
  using assms
  by (simp add: dispatch_round_def platform_irq_acknowledge_def device_load_def hands_out_def Let_def)

lemma dispatch_loop_spec:
  assumes "rwp_clears env" "hands_out env irqs"
  shows "length irqs - acknowledged (io st) < n \<Longrightarrow>
    \<exists>st'. dispatch_loop n env st = Done st' \<and> isr_table st' = isr_table st \<and>
      irq_log (io st') = irq_log (io st) @ concat (map (handle_log st) (drop (acknowledged (io st)) irqs)) @
        [Load ICC_IAR1_EL1 1023] \<and>
      timer_fired st' = (timer_fired st \<or>
        (\<exists>irq \<in> set (drop (acknowledged (io st)) irqs). ie_isr (isr_table st irq) = Some Timer_isr)) \<and>
      (\<forall>irq \<in> set (drop (acknowledged (io st)) irqs). ie_isr (isr_table st irq) = None \<longrightarrow>
        \<not> gic_enabled e (io st') (unat irq)) \<and>
      (\<forall>n < 1020. gic_enabled e (io st') n \<longrightarrow> gic_enabled e (io st) n)"
proof (induction n arbitrary: st)
  case (Suc n)
  let ?k = "acknowledged (io st)"
  show ?case
  proof (cases "?k < length irqs")
    case False
    then show ?thesis by (simp add: dispatch_stops [OF assms(2)] irq_trace)
  next
    case True
    define irq where "irq = irqs ! ?k"
    obtain st1 where r: "dispatch_round env st = Done (False, st1)"
      and tab: "isr_table st1 = isr_table st"
      and log: "irq_log (io st1) = irq_log (io st) @ handle_log st irq"
      and ack: "acknowledged (io st1) = Suc ?k"
      and tf: "timer_fired st1 = (timer_fired st \<or> ie_isr (isr_table st irq) = Some Timer_isr)"
      and en: "\<forall>n < 1020. gic_enabled e (io st1) n \<longrightarrow>
        gic_enabled e (io st) n \<and> (n = unat irq \<longrightarrow> ie_isr (isr_table st irq) \<noteq> None)"
      using dispatch_round_next [OF assms True, of e, folded irq_def] by metis
    have "length irqs - acknowledged (io st1) < n" using Suc.prems True ack by simp
    from Suc.IH [OF this] obtain st2 where st2: "dispatch_loop n env st1 = Done st2"
      "isr_table st2 = isr_table st1"
      "irq_log (io st2) = irq_log (io st1) @ concat (map (handle_log st1) (drop (Suc ?k) irqs)) @
        [Load ICC_IAR1_EL1 1023]"
      "timer_fired st2 = (timer_fired st1 \<or>
        (\<exists>irq \<in> set (drop (Suc ?k) irqs). ie_isr (isr_table st1 irq) = Some Timer_isr))"
      "\<forall>irq \<in> set (drop (Suc ?k) irqs). ie_isr (isr_table st1 irq) = None \<longrightarrow>
        \<not> gic_enabled e (io st2) (unat irq)"
      "\<forall>n < 1020. gic_enabled e (io st2) n \<longrightarrow> gic_enabled e (io st1) n"
      unfolding ack by blast
    have same: "handle_log st1 = handle_log st"
      by (rule ext) (simp add: handle_log_def handler_call_def tab cong del: option.case_cong_weak isr.case_cong_weak)
    have d: "drop ?k irqs = irq # drop (Suc ?k) irqs"
      using True by (simp add: irq_def Cons_nth_drop_Suc)
    have irq: "unat irq < 1020"
      using assms(2) True by (auto simp: hands_out_def irq_def word_less_nat_alt)
    have dis: "ie_isr (isr_table st irq) = None \<Longrightarrow> \<not> gic_enabled e (io st2) (unat irq)"
      using st2(6) en irq by blast
    have "\<forall>i \<in> set (drop ?k irqs). ie_isr (isr_table st i) = None \<longrightarrow> \<not> gic_enabled e (io st2) (unat i)"
      using st2(5) dis unfolding d tab by simp
    moreover have "\<forall>n < 1020. gic_enabled e (io st2) n \<longrightarrow> gic_enabled e (io st) n"
      using st2(6) en by blast
    moreover have "irq_log (io st2) = irq_log (io st) @ concat (map (handle_log st) (drop ?k irqs)) @
        [Load ICC_IAR1_EL1 1023]" unfolding st2(3) log same d by simp
    moreover have "timer_fired st2 = (timer_fired st \<or>
        (\<exists>irq \<in> set (drop ?k irqs). ie_isr (isr_table st irq) = Some Timer_isr))"
      unfolding st2(4) tf tab d by auto
    ultimately show ?thesis using r st2(1,2) tab by simp
  qed
qed simp

section \<open>Registration\<close>

text \<open>The calls for one interrupt number, as plain functions.\<close>

definition isr_at :: "virq_t \<Rightarrow> irq_state \<Rightarrow> isr option" where
  "isr_at irq st = ie_isr (isr_table st irq)"

definition isr_call :: "virq_t \<Rightarrow> uintptr_t \<Rightarrow> isr option slot_call \<Rightarrow> irq_state \<Rightarrow> int \<times> irq_state" where
  "isr_call irq data c st =
     (case (case c of Register f \<Rightarrow> interrupt_register_isr irq f data st
                    | Deregister \<Rightarrow> interrupt_deregister_isr irq st) of
        Done r \<Rightarrow> r
      | Fault e \<Rightarrow> (0, st))"

lemma register_isr_no_fault:
  "\<exists>r. interrupt_register_isr irq f data st = Done r"
  "\<exists>r. interrupt_deregister_isr irq st = Done r"
  by (auto simp: interrupt_register_isr_def interrupt_deregister_isr_def have_isr_def not_le)

text \<open>Every interrupt number below the limit is a slot; the interpretation is the timer's.\<close>

lemma isr_slot:
  assumes "irq < PLATFORM_NUM_IRQS"
  shows "slot None (isr_at irq) (\<lambda>f. isr_call irq data (Register f)) (isr_call irq data Deregister)"
  by unfold_locales
    (use assms in \<open>auto simp: isr_call_def isr_at_def interrupt_register_isr_def
      interrupt_deregister_isr_def have_isr_def\<close>)

interpretation timer_slot: slot None "isr_at PLATFORM_TIMER_IRQ"
  "\<lambda>f. isr_call PLATFORM_TIMER_IRQ 0 (Register f)" "isr_call PLATFORM_TIMER_IRQ 0 Deregister"
  by (rule isr_slot) simp

lemma isr_call_slot:
  "irq < PLATFORM_NUM_IRQS \<Longrightarrow>
     slot.slot_call (\<lambda>f. isr_call irq data (Register f)) (isr_call irq data Deregister) = isr_call irq data"
  by (rule ext)+ (simp add: slot.slot_call_def [OF isr_slot] split: slot_call.splits)

lemma irq_requests:
  "IOCTL_ENABLE_IRQ = 0x40044900" "IOCTL_DISABLE_IRQ = 0x40044901" "IOCTL_REGISTER_ISR = 0x40184902"
  "IOCTL_SET_IRQ_TRIGGER = 0x40084903" "IOCTL_DEREGISTER_ISR = 0x40044904"
  "IOCTL_ASSERT_IRQ = 0x40044905" "IOCTL_CLEAR_IRQ = 0x40044906"
  by (simp_all add: IOCTL_ENABLE_IRQ_def IOCTL_DISABLE_IRQ_def IOCTL_REGISTER_ISR_def
      IOCTL_SET_IRQ_TRIGGER_def IOCTL_DEREGISTER_ISR_def IOCTL_ASSERT_IRQ_def IOCTL_CLEAR_IRQ_def ioc_defs)

section \<open>Properties of interrupt handling\<close>

text \<open>C8: \<open>interrupt_dispatch\<close> returns, and acknowledges every interrupt the controller hands out, calls
  its handler with the data it was registered with, and ends it, one after the other and in
  order, until the controller hands out none; interrupts without a handler end up disabled, no
  interrupt gets enabled, and the timer's flag is set exactly when its handler ran.\<close>

theorem interrupt_dispatch_spec:
  assumes "rwp_clears env" "hands_out env irqs" "length irqs \<le> fuel env + acknowledged (io st)"
  shows "\<exists>st'. interrupt_dispatch env st = Done st' \<and> isr_table st' = isr_table st \<and>
    irq_log (io st') = irq_log (io st) @ concat (map (handle_log st) (drop (acknowledged (io st)) irqs)) @
      [Load ICC_IAR1_EL1 1023] \<and>
    timer_fired st' = (timer_fired st \<or>
      (\<exists>irq \<in> set (drop (acknowledged (io st)) irqs). ie_isr (isr_table st irq) = Some Timer_isr)) \<and>
    (\<forall>irq \<in> set (drop (acknowledged (io st)) irqs). ie_isr (isr_table st irq) = None \<longrightarrow>
      \<not> gic_enabled e (io st') (unat irq)) \<and>
    (\<forall>n < 1020. gic_enabled e (io st') n \<longrightarrow> gic_enabled e (io st) n)"
  unfolding interrupt_dispatch_def
  by (rule dispatch_loop_spec [OF assms(1,2)]) (use assms(3) in simp)

definition two_irqs :: environment where
  "two_irqs = plain_gic\<lparr>fuel := 2, load_value := (\<lambda>t r.
     if r = ICC_IAR1_EL1 then (if acknowledged t < 2 then ucast ([27, 40] ! acknowledged t :: virq_t) else 1023)
     else load_value plain_gic t r)\<rparr>"

lemma two_irqs_device: "rwp_clears two_irqs" "hands_out two_irqs [27, 40]"
  by (simp_all add: rwp_clears_def hands_out_def two_irqs_def plain_gic_def)

definition two_handlers :: irq_state where
  "two_handlers =
     \<lparr>isr_table = no_isrs(27 := \<lparr>ie_isr = Some Timer_isr, ie_data = 0\<rparr>,
                          40 := \<lparr>ie_isr = Some (App_isr 0x5000), ie_data = 7\<rparr>),
      timer_fired = False, io = []\<rparr>"

theorem interrupt_dispatch_spec_witness:
  "\<exists>st'. interrupt_dispatch two_irqs two_handlers = Done st' \<and> timer_fired st' \<and>
     irq_log (io st') =
       [Load ICC_IAR1_EL1 27, Store ICC_EOIR1_EL1 27, Load ICC_IAR1_EL1 40, Call_isr 0x5000 40 7,
        Store ICC_EOIR1_EL1 40, Load ICC_IAR1_EL1 1023]"
proof -
  have io: "io two_handlers = []" "acknowledged [] = 0" "irq_log [] = []"
    by (simp_all add: two_handlers_def acknowledged_def irq_log_def)
  have "length [27, 40 :: virq_t] \<le> fuel two_irqs + acknowledged (io two_handlers)"
    by (simp add: two_irqs_def)
  from interrupt_dispatch_spec [OF two_irqs_device this, of "\<lambda>n. True"] show ?thesis
    unfolding io by (auto simp: handle_log_def handler_call_def two_handlers_def no_isrs_def)
qed

text \<open>For every interrupt number the controller has, every sequence of registrations and
  deregistrations of a handler gives the results of a slot: \<open>EBUSY\<close> while a handler is
  registered, \<open>ENOENT\<close> while none is.\<close>

theorem isr_calls_refine:
  assumes "irq < PLATFORM_NUM_IRQS" "Register None \<notin> set cs"
  shows "fst (run_calls (isr_call irq data) cs st) = fst (run_calls (slot_spec None) cs (isr_at irq st)) \<and>
    isr_at irq (snd (run_calls (isr_call irq data) cs st)) =
      snd (run_calls (slot_spec None) cs (isr_at irq st))"
  using slot.calls_refine [OF isr_slot [OF assms(1)] assms(2), where data1 = data and s = st]
  unfolding isr_call_slot [OF assms(1)] .

theorem isr_calls_refine_witness:
  "fst (run_calls (isr_call 40 7) [Register (Some (App_isr 0x6000)), Deregister, Deregister] two_handlers) =
     [- EBUSY, 0, - ENOENT]"
proof -
  have "isr_at 40 two_handlers = Some (App_isr 0x5000)"
    by (simp add: isr_at_def two_handlers_def)
  with isr_calls_refine [of 40 "[Register (Some (App_isr 0x6000)), Deregister, Deregister]" 7 two_handlers]
  show ?thesis by simp
qed

text \<open>\<open>ioctl\<close> rejects a request to register a handler for a number beyond the table with
  \<open>EINVAL\<close>, but enabling, disabling, asserting or clearing such a number reads the table out of
  bounds: the functions behind these requests have no check of the number.\<close>

theorem interrupt_ioctl_bounds:
  assumes "PLATFORM_NUM_IRQS \<le> load32 m arg"
    "cmd \<in> {IOCTL_ENABLE_IRQ, IOCTL_DISABLE_IRQ, IOCTL_ASSERT_IRQ, IOCTL_CLEAR_IRQ}"
  shows "interrupt_ioctl env m cmd arg st = Fault BadAccess \<and>
    interrupt_ioctl env m IOCTL_DEREGISTER_ISR arg st = Done (- EINVAL, st) \<and>
    interrupt_register_isr (load32 m arg) f data st = Done (- EINVAL, st)"
proof -
  have "have_isr (load32 m arg) st = Fault BadAccess"
    using assms(1) by (simp add: have_isr_def not_less [THEN iffD2])
  then show ?thesis using assms
    by (auto simp: interrupt_ioctl_def update_irq_def assert_irq_def interrupt_deregister_isr_def
        interrupt_register_isr_def irq_requests)
qed

theorem interrupt_ioctl_bounds_witness:
  "interrupt_ioctl plain_gic (\<lambda>a. 0xff) IOCTL_ENABLE_IRQ 0x1000 two_handlers = Fault BadAccess"
proof -
  have "load32 (\<lambda>a. 0xff) 0x1000 = 0xffffffff" by (simp add: load32_def load16_def)
  then have "PLATFORM_NUM_IRQS \<le> load32 (\<lambda>a. 0xff) 0x1000" by simp
  from interrupt_ioctl_bounds [OF this] show ?thesis by simp
qed

end
