(* ===== verification/Timer.thy ===== *)
theory Timer
  imports Interrupt "HOL-Library.Signed_Division"
begin

unbundle bit_operations_syntax

text \<open>
  The timer of \<^verbatim>\<open>src/timer.c\<close>: conversion between ticks of the counter and \<open>timespec\<close>,
  and waiting for a timeout. A \<open>timespec\<close> is a pair of signed 64-bit numbers, here integers;
  the arithmetic of the code is done at its width. The flag \<open>timer_fired\<close> of the one processor
  is part of the interrupt state, because the timer's handler sets it.
\<close>

section \<open>State\<close>

record timespec =
  tv_sec :: int
  tv_nsec :: int

record timer_state =
  timer_freq :: u64
  timespec_max_sec :: int

abbreviation (input) "NS_PER_S \<equiv> (1000000000 :: int)"
abbreviation (input) "TIMESPEC_MAX_NSEC \<equiv> (999999999 :: int)"
abbreviation (input) "INT64_MAX \<equiv> (0x7fffffffffffffff :: u64)"
abbreviation (input) "UINT64_MAX \<equiv> (0xffffffffffffffff :: u64)"

text \<open>Unsigned division by zero gives zero on AArch64, as in HOL; the assertion then stops.\<close>

definition timer_init :: "environment \<Rightarrow> u64 \<Rightarrow> irq_state \<Rightarrow> (timer_state \<times> irq_state) outcome" where
  "timer_init env freq st =
     (let u_timespec_max_sec = (UINT64_MAX - of_int TIMESPEC_MAX_NSEC) div freq
      in ensure (u_timespec_max_sec > 0)
        (let max_sec = sint (util_min u_timespec_max_sec INT64_MAX)
         in bindc (platform_timer_init env freq (io st)) (\<lambda>t.
            bindc (interrupt_register_isr PLATFORM_TIMER_IRQ (Some Timer_isr) 0 (st\<lparr>io := t\<rparr>))
              (\<lambda>(ret, st). Done (\<lparr>timer_freq = freq, timespec_max_sec = max_sec\<rparr>, st)))))"

section \<open>Conversions\<close>

definition timespec_valid :: "timer_state \<Rightarrow> timespec \<Rightarrow> bool" where
  "timespec_valid tm ts \<longleftrightarrow>
     tv_sec ts \<ge> 0 \<and> tv_nsec ts \<ge> 0 \<and> tv_sec ts \<le> timespec_max_sec tm \<and>
     tv_nsec ts \<le> TIMESPEC_MAX_NSEC"

definition timespec_to_ticks :: "timer_state \<Rightarrow> timespec \<Rightarrow> u64 outcome" where
  "timespec_to_ticks tm ts =
     ensure (timespec_valid tm ts)
      (Done (of_int (tv_sec ts) * timer_freq tm +
             (of_int (tv_nsec ts) * timer_freq tm) div of_int NS_PER_S))"

text \<open>The operands are converted to \<open>int64_t\<close>, whose division rounds towards zero.\<close>

definition ticks_to_timespec :: "timer_state \<Rightarrow> u64 \<Rightarrow> timespec outcome" where
  "ticks_to_timespec tm ticks =
     (let f = sint (timer_freq tm);
          ts = \<lparr>tv_sec = sint ticks sdiv f,
                tv_nsec = sint (of_int ((sint ticks smod f) * NS_PER_S) :: u64) sdiv f\<rparr>
      in ensure (timespec_valid tm ts) (Done ts))"

section \<open>Waiting\<close>

text \<open>\<open>remain\<close> says whether the pointer is not null; the time stored there is returned.\<close>

definition timer_set_and_wait ::
  "environment \<Rightarrow> timer_state \<Rightarrow> bool \<Rightarrow> timespec \<Rightarrow> bool \<Rightarrow> irq_state \<Rightarrow>
     (int \<times> timespec option \<times> irq_state) outcome" where
  "timer_set_and_wait env tm relative req remain st =
     (if \<not> timespec_valid tm req then Done (- EINVAL, None, st)
      else
        let (curticks, t) = platform_timer_get_current_ticks env (io st);
            st = st\<lparr>io := t\<rparr>
        in bindc (timespec_to_ticks tm req) (\<lambda>timeout.
           let timeout = (if relative then timeout + curticks else timeout)
           in if timeout \<le> curticks then Done (0, None, st)
              else
                bindc (interrupt_wait env (st\<lparr>io := platform_timer_set_timeout timeout (io st)\<rparr>)) (\<lambda>(pending, st).
                let (ret, st) =
                      (if timer_fired st then (0, st\<lparr>timer_fired := False\<rparr>)
                       else (- EINTR, st\<lparr>io := platform_timer_cancel_timeout (io st)\<rparr>))
                in if remain then
                     let (curticks, t) = platform_timer_get_current_ticks env (io st);
                         remticks = (if timeout > curticks then timeout - curticks else 0)
                     in bindc (ticks_to_timespec tm remticks) (\<lambda>ts.
                          Done (ret, Some ts, st\<lparr>io := t\<rparr>))
                   else Done (ret, None, st))))"

end
