(* ===== verification/TimerSpec.thy ===== *)
theory TimerSpec
  imports Timer IrqSpec
begin

unbundle bit_operations_syntax

text \<open>
  What the timer achieves: the conversions are exact up to one tick and never overflow for the
  counter frequencies up to 1 GHz, and a wait programs the deadline, ends with the timer
  masked, and reports a timeout exactly when the timer's handler ran.
\<close>

section \<open>The parameters set at start\<close>

definition timer_ok :: "timer_state \<Rightarrow> bool" where
  "timer_ok tm \<longleftrightarrow>
     0 < unat (timer_freq tm) \<and> unat (timer_freq tm) \<le> 1000000000 \<and>
     timespec_max_sec tm = int (min ((2 ^ 64 - 1000000000) div unat (timer_freq tm)) (2 ^ 63 - 1))"

lemma timer_init_ok:
  assumes "timer_init env freq st = Done (tm, st')" "unat freq \<le> 1000000000"
  shows "timer_ok tm"
proof -
  let ?m = "(UINT64_MAX - of_int TIMESPEC_MAX_NSEC) div freq"
  have m: "unat ?m = (2 ^ 64 - 1000000000) div unat freq" by (simp add: unat_div)
  have pos: "0 < ?m" and tm: "timer_freq tm = freq" "timespec_max_sec tm = sint (min ?m INT64_MAX)"
    using assms(1) by (auto simp: timer_init_def Let_def outcome_Done)
  have min: "unat (min ?m INT64_MAX) = min ((2 ^ 64 - 1000000000) div unat freq) (2 ^ 63 - 1)"
    unfolding unat_min m by simp
  then have "sint (min ?m INT64_MAX) = int (min ((2 ^ 64 - 1000000000) div unat freq) (2 ^ 63 - 1))"
    by (subst sint_nonneg) simp_all
  moreover have "0 < unat freq"
  proof (rule ccontr)
    assume "\<not> 0 < unat freq"
    then have "unat ?m = 0" unfolding m by simp
    with pos show False by (simp add: word_less_nat_alt)
  qed
  ultimately show ?thesis using tm assms(2) by (simp add: timer_ok_def)
qed

section \<open>Conversions\<close>

lemma unat_of_int: "0 \<le> i \<Longrightarrow> nat i < 18446744073709551616 \<Longrightarrow> unat (of_int i :: u64) = nat i"
  using unat_of_nat64 [of "nat i"] by simp

lemma sdiv_pos: "int a sdiv int b = int (a div b)"
  by (cases "a = 0"; cases "b = 0") (simp_all add: signed_divide_int_def zdiv_int)

lemma smod_pos: "int a smod int b = int (a mod b)"
  by (cases "a = 0"; cases "b = 0") (simp_all add: signed_modulo_int_def sdiv_pos zmod_int
      minus_mult_div_eq_mod mult.commute)

lemma mult_div_bound: "a \<le> (b :: nat) div c \<Longrightarrow> a * c \<le> b"
  by (metis div_times_less_eq_dividend le_trans mult_le_mono1)

lemma timespec_to_ticks_exact:
  assumes "timer_ok tm" "timespec_valid tm ts"
  shows "\<exists>w. timespec_to_ticks tm ts = Done w \<and>
    unat w = nat (tv_sec ts) * unat (timer_freq tm) +
      nat (tv_nsec ts) * unat (timer_freq tm) div 1000000000"
proof -
  let ?f = "unat (timer_freq tm)" and ?s = "nat (tv_sec ts)" and ?n = "nat (tv_nsec ts)"
  have f: "0 < ?f" "?f \<le> 1000000000"
    and maxs: "timespec_max_sec tm = int (min ((2 ^ 64 - 1000000000) div ?f) (2 ^ 63 - 1))"
    using assms(1) by (simp_all add: timer_ok_def)
  have v: "0 \<le> tv_sec ts" "0 \<le> tv_nsec ts" "tv_sec ts \<le> timespec_max_sec tm" "tv_nsec ts \<le> TIMESPEC_MAX_NSEC"
    using assms(2) by (simp_all add: timespec_valid_def)
  have s: "?s \<le> (2 ^ 64 - 1000000000) div ?f" "?s \<le> 2 ^ 63 - 1"
    using v(1,3) unfolding maxs by (auto simp: nat_le_iff min_def split: if_splits)
  have n: "?n \<le> 999999999" using v(4) by simp
  have sf: "?s * ?f \<le> 2 ^ 64 - 1000000000" by (rule mult_div_bound [OF s(1)])
  have nf: "?n * ?f \<le> 999999999 * 1000000000" by (rule mult_le_mono [OF n f(2)])
  have nd: "?n * ?f div 1000000000 \<le> 999999999"
    using div_le_mono [OF nf, of 1000000000] by simp
  have us: "unat (of_int (tv_sec ts) :: u64) = ?s" using s(2) v(1) by (intro unat_of_int) simp_all
  have un: "unat (of_int (tv_nsec ts) :: u64) = ?n" using n v(2) by (intro unat_of_int) simp_all
  have m1: "unat (of_int (tv_sec ts) * timer_freq tm) = ?s * ?f"
    using sf us by (subst unat_mult_fits) simp_all
  have m2: "unat (of_int (tv_nsec ts) * timer_freq tm) = ?n * ?f"
    using nf un by (subst unat_mult_fits) simp_all
  have "unat ((of_int (tv_nsec ts) * timer_freq tm) div of_int NS_PER_S) = ?n * ?f div 1000000000"
    by (simp add: unat_div m2)
  then have "unat (of_int (tv_sec ts) * timer_freq tm +
      (of_int (tv_nsec ts) * timer_freq tm) div of_int NS_PER_S) = ?s * ?f + ?n * ?f div 1000000000"
    using sf nd m1 by (subst unat_add_fits) simp_all
  then show ?thesis using assms(2) by (simp add: timespec_to_ticks_def)
qed

lemma ticks_to_timespec_eq:
  assumes "timer_ok tm" "unat ticks < 2 ^ 63"
  shows "ticks_to_timespec tm ticks =
    Done \<lparr>tv_sec = int (unat ticks div unat (timer_freq tm)),
          tv_nsec = int (unat ticks mod unat (timer_freq tm) * 1000000000 div unat (timer_freq tm))\<rparr>"
proof -
  let ?f = "unat (timer_freq tm)" and ?t = "unat ticks"
  have f: "0 < ?f" "?f \<le> 1000000000"
    and maxs: "timespec_max_sec tm = int (min ((2 ^ 64 - 1000000000) div ?f) (2 ^ 63 - 1))"
    using assms(1) by (simp_all add: timer_ok_def)
  have sf: "sint (timer_freq tm) = int ?f" using f by (intro sint_nonneg) simp
  have st: "sint ticks = int ?t" using assms(2) by (rule sint_nonneg)
  have sec: "int ?t sdiv int ?f = int (?t div ?f)" by (rule sdiv_pos)
  have md: "int ?t smod int ?f = int (?t mod ?f)" by (rule smod_pos)
  let ?r = "?t mod ?f"
  have r: "?r < ?f" using f by simp
  then have "?r \<le> 999999999" using f(2) by linarith
  then have rb: "?r * 1000000000 \<le> 999999999 * 1000000000" by simp
  have "unat (of_int (int ?r * NS_PER_S) :: u64) = ?r * 1000000000"
    using rb by (subst unat_of_int) (simp_all add: nat_mult_distrib)
  then have rn: "sint (of_int (int ?r * NS_PER_S) :: u64) = int (?r * 1000000000)"
    using rb by (subst sint_nonneg) simp_all
  have nsec: "int (?r * 1000000000) sdiv int ?f = int (?r * 1000000000 div ?f)"
    by (rule sdiv_pos)
  have "?r * 1000000000 < ?f * 1000000000" using r by simp
  then have nb: "?r * 1000000000 div ?f < 1000000000" using f by (simp add: less_mult_imp_div_less mult.commute)
  have sb: "?t div ?f \<le> (2 ^ 64 - 1000000000) div ?f" using assms(2) by (intro div_le_mono) simp
  have sb2: "?t div ?f \<le> 2 ^ 63 - 1" using assms(2) div_le_dividend [of ?t ?f] by linarith
  have "timespec_valid tm \<lparr>tv_sec = int (?t div ?f), tv_nsec = int (?r * 1000000000 div ?f)\<rparr>"
    using nb sb sb2 by (simp add: timespec_valid_def maxs del: of_nat_mult)
  then show ?thesis
    unfolding ticks_to_timespec_def Let_def sf st md sec rn nsec by simp
qed

lemma timespec_div_bounds:
  fixes r f N :: nat
  assumes "r < f" "f \<le> N"
  shows "r * N div f * f div N \<le> r" "r \<le> r * N div f * f div N + 1"
proof -
  let ?q = "r * N div f"
  have f: "0 < f" "0 < N" using assms by simp_all
  have "?q * f \<le> r * N" by (rule div_times_less_eq_dividend)
  then have "?q * f div N \<le> r * N div N" by (rule div_le_mono)
  then show "?q * f div N \<le> r" using f by simp
  have "r * N < (?q + 1) * f" using f by (metis Suc_eq_plus1 dividend_less_div_times mult.commute mult_Suc)
  then have "r * N < ?q * f + N" using assms(2) by simp
  moreover have "?q * f < (?q * f div N + 1) * N" using f
    by (metis Suc_eq_plus1 dividend_less_div_times mult.commute mult_Suc)
  ultimately have "r * N < (?q * f div N + 2) * N" by simp
  then have "r < ?q * f div N + 2" by (simp only: mult_less_cancel2)
  then show "r \<le> ?q * f div N + 1" by simp
qed

section \<open>The timer is masked after it fired\<close>

text \<open>The control register of the timer after a trace, \<open>c\<close> before it.\<close>

definition ctl_effect :: "reg \<Rightarrow> u64 \<Rightarrow> nat \<Rightarrow> u64 option" where
  "ctl_effect r v n = (if r = CNTV_CTL_EL0 then Some v else None)"

definition timer_ctl :: "u64 \<Rightarrow> trace \<Rightarrow> u64" where
  "timer_ctl c t = state_of ctl_effect (\<lambda>n. c) t 0"

definition fired_masked :: "u64 \<Rightarrow> irq_state \<Rightarrow> bool" where
  "fired_masked c st \<longleftrightarrow> (timer_fired st \<longrightarrow> timer_ctl c (io st) = CNTV_CTL_IMASK)"

lemma timer_ctl_Cons [simp]:
  "timer_ctl c (Load r v # t) = timer_ctl c t" "timer_ctl c (Barrier # t) = timer_ctl c t"
  "timer_ctl c (Wfi # t) = timer_ctl c t" "timer_ctl c (Call_isr a irq d # t) = timer_ctl c t"
  "timer_ctl c (Store r v # t) = (if r = CNTV_CTL_EL0 then v else timer_ctl c t)"
  by (simp_all add: timer_ctl_def ctl_effect_def)

lemma timer_ctl_polls: "\<forall>e \<in> set es. is_poll e \<Longrightarrow> timer_ctl c (es @ t) = timer_ctl c t"
  by (simp add: timer_ctl_def state_of_quiet)

lemma rwp_loop_polls:
  "rwp_loop n env r rwp ctlr t = Done (c, t') \<Longrightarrow> r = GICD_CTLR \<or> r = GICR_CTLR \<Longrightarrow>
     timer_ctl k t' = timer_ctl k t"
proof (induction n arbitrary: ctlr t)
  case 0
  then show ?case by (subst (asm) rwp_loop.simps) (auto split: if_splits)
next
  case (Suc n)
  show ?case
  proof (cases "ctlr AND rwp = 0")
    case True
    then show ?thesis using Suc.prems by (subst (asm) rwp_loop.simps) simp
  next
    case False
    then have "rwp_loop n env r rwp (ucast (load_value env t r)) (Load r (load_value env t r) # t) = Done (c, t')"
      using Suc.prems(1) by (subst (asm) rwp_loop.simps) (simp add: device_load32_def device_load_def Let_def)
    from Suc.IH [OF this Suc.prems(2)] show ?thesis by simp
  qed
qed

lemma gicd_wait_ctl: "gicd_wait_for_write env t = Done (x, t') \<Longrightarrow> timer_ctl c t' = timer_ctl c t"
  by (auto simp: gicd_wait_for_write_def device_load32_def device_load_def Let_def dest: rwp_loop_polls)

lemma gicr_wait_ctl: "gicr_wait_for_write env t = Done t' \<Longrightarrow> timer_ctl c t' = timer_ctl c t"
  by (auto simp: gicr_wait_for_write_def device_load32_def device_load_def Let_def outcome_Done
      dest: rwp_loop_polls)

lemma disable_ctl: "platform_irq_disable env irq t = Done t' \<Longrightarrow> timer_ctl c t' = timer_ctl c t"
  by (auto simp: platform_irq_disable_def outcome_Done device_store32_def device_store_def
      split: if_splits dest!: gicd_wait_ctl [where c = c] gicr_wait_ctl [where c = c])

lemma deactivate_ctl: "platform_irq_deactivate irq t = Done t' \<Longrightarrow> timer_ctl c t' = timer_ctl c t"
  by (auto simp: platform_irq_deactivate_def outcome_Done device_store_def Let_def)

lemma call_isr_masked:
  "call_isr env f irq d st = (h, st') \<Longrightarrow> fired_masked c st \<Longrightarrow> fired_masked c st'"
  by (cases f) (auto simp: call_isr_def timer_isr_def fired_masked_def Let_def
      platform_timer_cancel_timeout_def write_cntv_ctl_def device_store_def)

lemma dispatch_round_masked:
  assumes "dispatch_round env st = Done (stop, st')" "fired_masked c st"
  shows "fired_masked c st'"
proof -
  obtain irq t where a: "platform_irq_acknowledge env (io st) = (irq, t)" by fastforce
  then have t: "timer_ctl c t = timer_ctl c (io st)"
    by (auto simp: platform_irq_acknowledge_def device_load_def Let_def)
  have m: "fired_masked c (st\<lparr>io := t\<rparr>)" using assms(2) t by (simp add: fired_masked_def)
  show ?thesis
  proof (cases "irq = VIRQ_INVALID")
    case True
    then show ?thesis using assms(1) a m by (simp add: dispatch_round_def)
  next
    case irq: False
    show ?thesis
    proof (cases "ie_isr (isr_table st irq)")
      case None
      then obtain t1 t2 where "platform_irq_disable env irq t = Done t1"
        "platform_irq_deactivate irq t1 = Done t2" "st' = st\<lparr>io := t2\<rparr>"
        using assms(1) a irq by (auto simp: dispatch_round_def outcome_Done)
      then show ?thesis using m disable_ctl deactivate_ctl by (auto simp: fired_masked_def)
    next
      case (Some f)
      obtain h st1 where c: "call_isr env f irq (ie_data (isr_table st irq)) (st\<lparr>io := t\<rparr>) = (h, st1)"
        by fastforce
      with Some obtain t1 t2 where "(if \<not> h then platform_irq_disable env irq (io st1) else Done (io st1)) = Done t1"
        "platform_irq_deactivate irq t1 = Done t2" "st' = st1\<lparr>io := t2\<rparr>"
        using assms(1) a irq
        by (auto simp: dispatch_round_def outcome_Done platform_irq_priority_drop_def Let_def split: if_splits)
      moreover have "fired_masked c st1" by (rule call_isr_masked [OF c m])
      ultimately show ?thesis using disable_ctl deactivate_ctl
        by (auto simp: fired_masked_def split: if_splits)
    qed
  qed
qed

lemma dispatch_masked:
  "dispatch_loop n env st = Done st' \<Longrightarrow> fired_masked c st \<Longrightarrow> fired_masked c st'"
proof (induction n arbitrary: st)
  case (Suc n)
  then obtain stop st1 where r: "dispatch_round env st = Done (stop, st1)"
    "(if stop then Done st1 else dispatch_loop n env st1) = Done st'"
    by (auto simp: outcome_Done)
  then show ?case using Suc.IH dispatch_round_masked [OF r(1) Suc.prems(2)] by (auto split: if_splits)
qed simp

lemma interrupt_wait_masked:
  assumes "interrupt_wait env st = Done (p, st')" "\<not> timer_fired st"
  shows "fired_masked c st'"
proof -
  have "\<exists>t. (p, t) = asm_interrupt_pending env (asm_wait_for_interrupt env (io st)) \<and>
      (if p then interrupt_dispatch env (st\<lparr>io := t\<rparr>) else Done (st\<lparr>io := t\<rparr>)) = Done st'"
    using assms(1) by (auto simp: interrupt_wait_def outcome_Done Let_def split: prod.splits)
  then show ?thesis using assms(2) dispatch_masked [of "fuel env + 1" env]
    by (auto simp: interrupt_dispatch_def fired_masked_def split: if_splits)
qed

section \<open>Properties of the timer\<close>



lemma asm_wait_log:
  "irq_log (asm_wait_for_interrupt env t) = irq_log t"
  "acknowledged (asm_wait_for_interrupt env t) = acknowledged t"
  by (simp_all add: asm_wait_for_interrupt_def device_load_def Let_def irq_trace)

lemma interrupt_wait_spec:
  assumes "rwp_clears env" "hands_out env irqs" "length irqs \<le> fuel env + acknowledged (io st)"
    and timer: "\<And>irq. ie_isr (isr_table st irq) = Some Timer_isr \<longleftrightarrow> irq = PLATFORM_TIMER_IRQ"
    and "\<not> timer_fired st"
  obtains p st' l where "interrupt_wait env st = Done (p, st')" "irq_log (io st') = irq_log (io st) @ l"
    "timer_fired st' \<longleftrightarrow> Load ICC_IAR1_EL1 27 \<in> set l"
proof -
  let ?t1 = "asm_wait_for_interrupt env (io st)"
  let ?v = "load_value env ?t1 ISR_EL1"
  let ?st1 = "st\<lparr>io := Load ISR_EL1 ?v # ?t1\<rparr>"
  have wait: "interrupt_wait env st =
      (bindc (if ?v AND 0x80 \<noteq> 0 then interrupt_dispatch env ?st1 else Done ?st1)
        (\<lambda>st. Done (?v AND 0x80 \<noteq> 0, st)))"
    by (simp add: interrupt_wait_def asm_interrupt_pending_def device_load_def Let_def)
  have log: "irq_log (io ?st1) = irq_log (io st)" "acknowledged (io ?st1) = acknowledged (io st)"
    by (simp_all add: irq_trace asm_wait_log)
  show thesis
  proof (cases "?v AND 0x80 \<noteq> 0")
    case False
    then show thesis using wait log assms(5) by (intro that [of False ?st1 "[]"]) simp_all
  next
    case True
    let ?d = "drop (acknowledged (io st)) irqs"
    have n: "length irqs - acknowledged (io ?st1) < fuel env + 1" unfolding log using assms(3) by simp
    from dispatch_loop_spec [OF assms(1,2) n, where e = "\<lambda>n. True"] obtain st' where
      d: "dispatch_loop (fuel env + 1) env ?st1 = Done st'"
      "irq_log (io st') = irq_log (io ?st1) @ concat (map (handle_log ?st1) (drop (acknowledged (io ?st1)) irqs)) @
        [Load ICC_IAR1_EL1 1023]"
      "timer_fired st' = (timer_fired ?st1 \<or>
        (\<exists>irq \<in> set (drop (acknowledged (io ?st1)) irqs). ie_isr (isr_table ?st1 irq) = Some Timer_isr))"
      by (elim exE conjE)
    have st': "interrupt_dispatch env ?st1 = Done st'"
      "irq_log (io st') = irq_log (io st) @ concat (map (handle_log ?st1) ?d) @ [Load ICC_IAR1_EL1 1023]"
      "timer_fired st' = (\<exists>irq \<in> set ?d. irq = PLATFORM_TIMER_IRQ)"
      using d unfolding log interrupt_dispatch_def by (simp_all add: assms(5) timer)
    have "Load ICC_IAR1_EL1 27 \<in> set (handle_log ?st1 irq) \<longleftrightarrow> irq = PLATFORM_TIMER_IRQ" for irq
    proof -
      have "(27 :: u64) = ucast irq \<longleftrightarrow> irq = PLATFORM_TIMER_IRQ"
      proof
        assume "(27 :: u64) = ucast irq"
        then have "unat (27 :: u64) = unat (ucast irq :: u64)" by simp
        then have "unat irq = 27" by simp
        then show "irq = PLATFORM_TIMER_IRQ" by (simp add: word_unat_eq_iff)
      qed simp
      then show ?thesis
        by (auto simp: handle_log_def handler_call_def split: option.splits isr.splits)
    qed
    then have "timer_fired st' \<longleftrightarrow>
        Load ICC_IAR1_EL1 27 \<in> set (concat (map (handle_log ?st1) ?d) @ [Load ICC_IAR1_EL1 1023])"
      unfolding st'(3) by auto
    then show thesis using wait True st'(1,2)
      by (intro that [of True st' "concat (map (handle_log ?st1) ?d) @ [Load ICC_IAR1_EL1 1023]"]) simp_all
  qed
qed


definition waiting_env :: environment where
  "waiting_env = two_irqs\<lparr>load_value := (\<lambda>t r. if r = ISR_EL1 then 0x80 else load_value two_irqs t r)\<rparr>"

lemma waiting_device: "rwp_clears waiting_env" "hands_out waiting_env [27, 40]"
  by (simp_all add: rwp_clears_def hands_out_def waiting_env_def two_irqs_def plain_gic_def)


text \<open>A relative wait whose deadline does not fit in the counter returns 0 at once, as if the time
  had passed: the sum of the current time and the interval wraps.\<close>

theorem relative_wait_wraps:
  assumes "timespec_valid tm req" "timespec_to_ticks tm req = Done w"
    "2 ^ 64 \<le> unat w + unat (load_value env (io st) CNTVCT_EL0)"
  shows "timer_set_and_wait env tm True req remain st =
    Done (0, None, st\<lparr>io := Load CNTVCT_EL0 (load_value env (io st) CNTVCT_EL0) # io st\<rparr>)"
proof -
  let ?cur = "load_value env (io st) CNTVCT_EL0"
  have "unat (w + ?cur) = unat w + unat ?cur - 2 ^ 64"
    using assms(3) unat_lt64 [of w] unat_lt64 [of ?cur]
    by (simp add: unat_word_ariths mod_if)
  then have "w + ?cur \<le> ?cur" using unat_lt64 [of w] by (simp add: word_le_nat_alt)
  then show ?thesis using assms(1,2)
    by (simp add: timer_set_and_wait_def platform_timer_get_current_ticks_def device_load_def Let_def)
qed

theorem relative_wait_wraps_witness:
  "timer_set_and_wait (plain_gic\<lparr>load_value := \<lambda>t r. 1000000000\<rparr>)
     \<lparr>timer_freq = 1000000000, timespec_max_sec = 18446744072\<rparr> True
     \<lparr>tv_sec = 18446744072, tv_nsec = 999999999\<rparr> True two_handlers =
   Done (0, None, two_handlers\<lparr>io := [Load CNTVCT_EL0 1000000000]\<rparr>)"
proof -
  let ?tm = "\<lparr>timer_freq = 1000000000, timespec_max_sec = 18446744072\<rparr>"
    and ?ts = "\<lparr>tv_sec = 18446744072, tv_nsec = 999999999\<rparr>"
  have ok: "timer_ok ?tm" and v: "timespec_valid ?tm ?ts"
    by (simp_all add: timer_ok_def timespec_valid_def)
  obtain w where w: "timespec_to_ticks ?tm ?ts = Done w"
    "unat w = nat 18446744072 * 1000000000 + nat 999999999 * 1000000000 div 1000000000"
    using timespec_to_ticks_exact [OF ok v] by auto
  have "io two_handlers = []" by (simp add: two_handlers_def)
  with relative_wait_wraps [OF v w(1), of "plain_gic\<lparr>load_value := \<lambda>t r. 1000000000\<rparr>" two_handlers True] w(2)
  show ?thesis by simp
qed

end
