(* ===== verification/ExitDev.thy ===== *)
theory ExitDev
  imports Registry UserMem Device
begin

text \<open>
  The exit device of \<^verbatim>\<open>src/exit_dev.c\<close>: the function the application registers to be
  called when it exits. The state of the file is the address of the function; the call is an
  event of the trace.
\<close>

section \<open>The model\<close>

type_synonym exit_state = uintptr_t

definition exit_trigger :: "int \<Rightarrow> exit_state \<Rightarrow> trace \<Rightarrow> trace" where
  "exit_trigger exit_code exit_func t =
     (if exit_func \<noteq> 0 then Call_exit exit_func exit_code # t else t)"

definition exit_register :: "uintptr_t \<Rightarrow> exit_state \<Rightarrow> int \<times> exit_state" where
  "exit_register new_exit_func exit_func =
     (if exit_func \<noteq> 0 then (- EBUSY, exit_func)
      else if new_exit_func \<noteq> 0 then (0, new_exit_func)
      else (- EINVAL, exit_func))"

definition exit_deregister :: "exit_state \<Rightarrow> int \<times> exit_state" where
  "exit_deregister exit_func = (if exit_func = 0 then (- ENOENT, exit_func) else (0, 0))"

definition IOCTL_REGISTER_EXIT :: u32 where "IOCTL_REGISTER_EXIT = IOW 0x44 0 8"
definition IOCTL_DEREGISTER_EXIT :: u32 where "IOCTL_DEREGISTER_EXIT = IOW 0x44 1 4"

definition exit_ioctl :: "memory \<Rightarrow> u32 \<Rightarrow> uintptr_t \<Rightarrow> exit_state \<Rightarrow> int \<times> exit_state" where
  "exit_ioctl m cmd arg exit_func =
     (if cmd = IOCTL_REGISTER_EXIT then exit_register (load64 m arg) exit_func
      else if cmd = IOCTL_DEREGISTER_EXIT then exit_deregister exit_func
      else (- ENOSYS, exit_func))"

section \<open>The slot\<close>

interpretation exit_slot: slot 0 "\<lambda>s. s" exit_register exit_deregister
  by unfold_locales (simp_all add: exit_register_def exit_deregister_def)

text \<open>The calls of the device as one function.\<close>

fun exit_call :: "uintptr_t slot_call \<Rightarrow> exit_state \<Rightarrow> int \<times> exit_state" where
  "exit_call (Register f) s = exit_register f s"
| "exit_call Deregister s = exit_deregister s"

lemma exit_call_slot: "exit_call = exit_slot.slot_call"
  by (rule ext)+ (simp add: exit_slot.slot_call_def split: slot_call.splits)

text \<open>Every sequence of registrations and deregistrations of an exit function, none of them
  null, gives the results of a slot that holds one function: \<open>EBUSY\<close> while it is
  occupied, \<open>ENOENT\<close> while it is empty.\<close>

theorem exit_calls_refine:
  assumes "Register 0 \<notin> set cs"
  shows "run_calls exit_call cs s = run_calls (slot_spec 0) cs s"
  using exit_slot.calls_refine [OF assms, of s] unfolding exit_call_slot by (simp add: prod_eq_iff)

theorem exit_calls_refine_witness:
  "run_calls exit_call [Deregister, Register 0x1000, Register 0x2000, Deregister] 0 =
     ([- ENOENT, 0, - EBUSY, 0], 0)"
proof -
  have "Register 0 \<notin> set [Deregister, Register 0x1000, Register 0x2000, Deregister :: uintptr_t slot_call]"
    by simp
  from exit_calls_refine [OF this, of 0] show ?thesis by simp
qed

end
