(* ===== verification/Console.thy ===== *)
theory Console
  imports Registry UserMem Device CString
begin

text \<open>
  The console device of \<^verbatim>\<open>src/console.c\<close>: the output function that the application registers,
  and the prefix the runtime prints at the start of a line. The call of the output function is
  an event with the bytes it is given.
\<close>

section \<open>The model\<close>

record console_state =
  prefix :: string
  prefix_len :: int
  console :: uintptr_t

definition console_initial :: console_state where
  "console_initial = \<lparr>prefix = replicate 16 NUL, prefix_len = 0, console = 0\<rparr>"

definition console_write :: "string option \<Rightarrow> size_t \<Rightarrow> console_state \<Rightarrow> trace \<Rightarrow> trace outcome" where
  "console_write msg sz st t =
     (if console st \<noteq> 0 then
        (case msg of
           None \<Rightarrow>
             (if prefix_len st > 0
              then bindc (fetch (prefix st) 0 (nat (prefix_len st))) (\<lambda>b. Done (Call_console (console st) b # t))
              else Done t)
         | Some m \<Rightarrow> bindc (fetch m 0 (unat sz)) (\<lambda>b. Done (Call_console (console st) b # t)))
      else Done t)"

definition console_register :: "uintptr_t \<Rightarrow> console_state \<Rightarrow> int \<times> console_state" where
  "console_register new_console st =
     (if console st \<noteq> 0 then (- EBUSY, st) else (0, st\<lparr>console := new_console\<rparr>))"

definition console_deregister :: "console_state \<Rightarrow> int \<times> console_state" where
  "console_deregister st =
     (if console st = 0 then (- ENOENT, st) else (0, st\<lparr>console := 0\<rparr>))"

definition IOCTL_REGISTER_CONSOLE :: u32 where "IOCTL_REGISTER_CONSOLE = IOW 0x43 0 8"
definition IOCTL_DEREGISTER_CONSOLE :: u32 where "IOCTL_DEREGISTER_CONSOLE = IOW 0x43 1 4"
definition IOCTL_SET_PREFIX_CONSOLE :: u32 where "IOCTL_SET_PREFIX_CONSOLE = IOW 0x43 2 8"

text \<open>
  The C string at an address, of which at most \<open>n\<close> characters are read: \<open>strscpy\<close> with a count
  of 16 looks at 16 characters.
\<close>

definition c_string_at :: "memory \<Rightarrow> uintptr_t \<Rightarrow> nat \<Rightarrow> string" where
  "c_string_at m a n = takeWhile (\<lambda>c. c \<noteq> NUL) (load_chars m a n)"

definition set_prefix :: "string \<Rightarrow> console_state \<Rightarrow> (int \<times> console_state) outcome" where
  "set_prefix uprefix st =
     bindc (strscpy (prefix st) uprefix 16) (\<lambda>(buf, len).
       Done (if len < 0 then (len, st\<lparr>prefix := buf, prefix_len := 0\<rparr>)
             else (0, st\<lparr>prefix := buf, prefix_len := len\<rparr>)))"

definition console_ioctl ::
  "memory \<Rightarrow> u32 \<Rightarrow> uintptr_t \<Rightarrow> console_state \<Rightarrow> (int \<times> console_state) outcome" where
  "console_ioctl m cmd arg st =
     (if cmd = IOCTL_REGISTER_CONSOLE then Done (console_register (load64 m arg) st)
      else if cmd = IOCTL_DEREGISTER_CONSOLE then Done (console_deregister st)
      else if cmd = IOCTL_SET_PREFIX_CONSOLE then set_prefix (c_string_at m arg 16) st
      else Done (- ENOSYS, st))"

section \<open>The slot\<close>

interpretation console_slot: slot 0 console console_register console_deregister
  by unfold_locales (simp_all add: console_register_def console_deregister_def)

fun console_call :: "uintptr_t slot_call \<Rightarrow> console_state \<Rightarrow> int \<times> console_state" where
  "console_call (Register f) s = console_register f s"
| "console_call Deregister s = console_deregister s"

lemma console_call_slot: "console_call = console_slot.slot_call"
  by (rule ext)+ (simp add: console_slot.slot_call_def split: slot_call.splits)

section \<open>Properties of the console\<close>

text \<open>A console that is registered keeps its output function, and every further registration
  fails with \<open>EBUSY\<close>, until it is deregistered; over every sequence of calls the results are
  those of a slot.\<close>

theorem console_calls_refine:
  assumes "Register 0 \<notin> set cs"
  shows "fst (run_calls console_call cs st) = fst (run_calls (slot_spec 0) cs (console st)) \<and>
    console (snd (run_calls console_call cs st)) = snd (run_calls (slot_spec 0) cs (console st)) \<and>
    (console st \<noteq> 0 \<and> Deregister \<notin> set cs \<longrightarrow> snd (run_calls console_call cs st) = st)"
  using console_slot.calls_refine [OF assms, of st] console_slot.owner_stays [of st cs]
  unfolding console_call_slot by blast

theorem console_calls_refine_witness:
  "fst (run_calls console_call [Register 0x1000, Register 0x2000, Deregister, Deregister] console_initial) =
     [0, - EBUSY, 0, - ENOENT]"
proof -
  have "Register 0 \<notin> set [Register 0x1000, Register 0x2000, Deregister, Deregister :: uintptr_t slot_call]"
    by simp
  from console_calls_refine [OF this, of console_initial] show ?thesis
    by (simp add: console_initial_def)
qed

text \<open>Setting the prefix stores a string of fewer than 16 characters, which \<open>console_write\<close> then
  prints at the start of a line, and refuses a longer one with \<open>E2BIG\<close>, after which no prefix
  is printed; the buffer of the prefix is never exceeded.\<close>

theorem set_prefix_spec:
  assumes "c_string s" "length (prefix st) = 16" "console st \<noteq> 0"
  shows "\<exists>ret st'. set_prefix s st = Done (ret, st') \<and> length (prefix st') = 16 \<and>
    console st' = console st \<and>
    (if length s < 16
     then ret = 0 \<and> console_write None 0 st' t = Done (if s = [] then t else Call_console (console st) s # t)
     else ret = - E2BIG \<and> console_write None 0 st' t = Done t)"
proof -
  have "strscpy (prefix st) s 16 =
      (let k = min (length s) 15 in
       Done (take k s @ [NUL] @ drop (k + 1) (prefix st), if length s < 16 then int (length s) else - E2BIG))"
    using strscpy_text [OF assms(1), of 16 "prefix st"] assms(2) by simp
  then show ?thesis
    using assms(2,3)
    by (cases "length s < 16")
      (auto simp: set_prefix_def Let_def console_write_def fetch_def min_def)
qed

theorem set_prefix_spec_witness:
  "\<exists>ret st'. set_prefix ''VM2: '' (console_initial\<lparr>console := 0x1000\<rparr>) = Done (ret, st') \<and>
     console_write None 0 st' [] = Done [Call_console 0x1000 ''VM2: '']"
  using set_prefix_spec [of "''VM2: ''" "console_initial\<lparr>console := 0x1000\<rparr>" "[]"]
  by (auto simp: c_string_def console_initial_def)

end
