(* ===== verification/Log.thy ===== *)
theory Log
  imports StringPrint LogBuf Console
begin

text \<open>
  Logging: \<open>log_msg\<close> of \<^verbatim>\<open>src/log.c\<close> formats a message into a buffer on its stack and sends
  it to the console and to the log buffer; \<open>dump_trap_frame\<close> of
  \<^verbatim>\<open>arch/generic/src/panic.c\<close> is a series of messages. \<open>tmp_log\<close> stands for the bytes
  that were on the stack before.
\<close>

section \<open>The model\<close>

record log_out =
  out_console :: console_state
  out_log :: log_s
  out_io :: trace

abbreviation (input) "SINGLE_LOG_MSG_SIZE \<equiv> (256 :: size_t)"

text \<open>The level and the action are ignored; \<open>args\<close> are the five arguments.\<close>

definition log_msg ::
  "(register_t \<Rightarrow> string) \<Rightarrow> string \<Rightarrow> string \<Rightarrow> register_t list \<Rightarrow> log_out \<Rightarrow> log_out outcome" where
  "log_msg str_at tmp_log fmt args out =
     bindc (snprint str_at tmp_log SINGLE_LOG_MSG_SIZE fmt args) (\<lambda>(tmp_log, e, r).
     bindc (console_write (Some tmp_log) r (out_console out) (out_io out)) (\<lambda>t.
     bindc (log_append tmp_log r (out_log out)) (\<lambda>log.
       Done (out\<lparr>out_log := log, out_io := t\<rparr>))))"

text \<open>
  A call of the macro \<open>LOG\<close>: its arguments are numbers and constant strings. A string is passed
  by its address; the model numbers the strings of a call, and \<open>log_str_at\<close> finds them back.
\<close>

definition log_regs :: "log_arg list \<Rightarrow> register_t list" where
  "log_regs args =
     map (\<lambda>i. if i < length args then (case args ! i of LogNum n \<Rightarrow> n | LogStr s \<Rightarrow> of_nat (i + 1)) else 0) [0..<5]"

definition log_str_at :: "log_arg list \<Rightarrow> register_t \<Rightarrow> string" where
  "log_str_at args a =
     (if 0 < unat a \<and> unat a \<le> length args
      then (case args ! (unat a - 1) of LogStr s \<Rightarrow> s | LogNum n \<Rightarrow> []) else [])"

definition log_macro :: "string \<Rightarrow> log_call \<Rightarrow> log_out \<Rightarrow> log_out outcome" where
  "log_macro tmp_log c out = log_msg (log_str_at (snd c)) tmp_log (fst c) (log_regs (snd c)) out"

fun log_calls :: "string \<Rightarrow> log_call list \<Rightarrow> log_out \<Rightarrow> log_out outcome" where
  "log_calls tmp_log [] out = Done out"
| "log_calls tmp_log (c # cs) out = bindc (log_macro tmp_log c out) (log_calls tmp_log cs)"

section \<open>The trap frame\<close>

abbreviation (input) "TAB \<equiv> [CHR 0x09]"

record trap_frame =
  tf_x :: "u64 list"
  tf_x30 :: u64
  tf_spsr :: u64
  tf_esr :: u64
  tf_sp_el0 :: u64
  tf_sp_el1 :: u64
  tf_x29 :: u64
  tf_elr :: u64

definition dump_trap_frame_logs :: "trap_frame \<Rightarrow> log_call list" where
  "dump_trap_frame_logs frame =
     (let x = (\<lambda>i. LogNum (tf_x frame ! i)) in
      [(''trap frame dump:\<newline>'', []),
       (''x0: {:#8x}'' @ TAB @ '' x1: {:#8x}'' @ TAB @ '' x2: {:#8x}'' @ TAB @ '' x3: {:#8x}\<newline>'', [x 0, x 1, x 2, x 3]),
       (''x4: {:#8x}'' @ TAB @ '' x5: {:#8x}'' @ TAB @ '' x6: {:#8x}'' @ TAB @ '' x7: {:#8x}\<newline>'', [x 4, x 5, x 6, x 7]),
       (''x8: {:#8x}'' @ TAB @ '' x9: {:#8x}'' @ TAB @ '' x10:{:#8x}'' @ TAB @ '' x11:{:#8x}\<newline>'', [x 8, x 9, x 10, x 11]),
       (''x12:{:#8x}'' @ TAB @ '' x13:{:#8x}'' @ TAB @ '' x14:{:#8x}'' @ TAB @ '' x15:{:#8x}\<newline>'', [x 12, x 13, x 14, x 15]),
       (''x16:{:#8x}'' @ TAB @ '' x17:{:#8x}'' @ TAB @ '' x18:{:#8x}'' @ TAB @ '' x19:{:#8x}\<newline>'', [x 16, x 17, x 18, x 19]),
       (''x20:{:#8x}'' @ TAB @ '' x21:{:#8x}'' @ TAB @ '' x22:{:#8x}'' @ TAB @ '' x23:{:#8x}\<newline>'', [x 20, x 21, x 22, x 23]),
       (''x24:{:#8x}'' @ TAB @ '' x25:{:#8x}'' @ TAB @ '' x26:{:#8x}'' @ TAB @ '' x27:{:#8x}\<newline>'', [x 24, x 25, x 26, x 27]),
       (''x28:{:#8x}'' @ TAB @ '' x29:{:#8x}'' @ TAB @ '' x30:{:#8x}\<newline>'',
          [x 28, LogNum (tf_x29 frame), LogNum (tf_x30 frame)]),
       (''spsr_el1:{:#8x}'' @ TAB @ '' elr_el1:{:#8x}'' @ TAB @ '' esr_el1:{:#8x}\<newline>'',
          [LogNum (tf_spsr frame), LogNum (tf_elr frame), LogNum (tf_esr frame)]),
       (''sp_el0:{:#8x}'' @ TAB @ '' sp_el1:{:#8x}\<newline>'',
          [LogNum (tf_sp_el0 frame), LogNum (tf_sp_el1 frame)])])"

definition dump_trap_frame :: "string \<Rightarrow> trap_frame \<Rightarrow> log_out \<Rightarrow> log_out outcome" where
  "dump_trap_frame tmp_log frame out = log_calls tmp_log (dump_trap_frame_logs frame) out"

section \<open>Logging does not stop the runtime\<close>

text \<open>The console and the log buffer take any message in the temporary buffer.\<close>

lemma emit_ok:
  assumes "log_ok (out_log out)" "unat r \<le> length mem"
  obtains log t where "console_write (Some mem) r (out_console out) (out_io out) = Done t"
    "t = (if console (out_console out) \<noteq> 0
          then Call_console (console (out_console out)) (take (unat r) mem) # out_io out else out_io out)"
    "log_append mem r (out_log out) = Done log" "log_ok log" "log_terminated log"
    "log_text log = drop (unat r) (log_text (out_log out) @ take (unat r) mem)"
  using log_append_text [OF assms] assms(2)
  by (auto simp: console_write_def fetch_def)

lemma log_msg_done:
  assumes "no_side_align fmt" "length tmp_log = 256" "log_ok (out_log out)"
  shows "\<exists>out'. log_msg str_at tmp_log fmt args out = Done out' \<and> log_ok (out_log out') \<and>
    log_terminated (out_log out') \<and> out_console out' = out_console out"
proof -
  have "length tmp_log = unat SINGLE_LOG_MSG_SIZE" using assms(2) by simp
  from snprint_stays [OF assms(1) this] obtain mem e r where
    p: "snprint str_at tmp_log SINGLE_LOG_MSG_SIZE fmt args = Done (mem, e, r)" "length mem = 256"
      "e \<noteq> ERROR_STRING_TRUNCATED \<longrightarrow> unat r < 256"
    using assms(2) by fastforce
  have "unat r \<le> 256"
  proof (cases "e = ERROR_STRING_TRUNCATED")
    case True
    then have "r = 256" using p(1) by (auto simp: snprint_def outcome_Done)
    then show ?thesis by simp
  qed (use p(3) in simp)
  then have "unat r \<le> length mem" using p(2) by simp
  then obtain log t where "console_write (Some mem) r (out_console out) (out_io out) = Done t"
    "log_append mem r (out_log out) = Done log" "log_ok log" "log_terminated log"
    by (rule emit_ok [OF assms(3)]) (rule that)
  with p(1) show ?thesis by (simp add: log_msg_def)
qed

lemma no_side_align_iff:
  "no_side_align fmt \<longleftrightarrow> list_all (\<lambda>c. c \<noteq> CHR ''<'' \<and> c \<noteq> CHR ''^'') fmt"
  by (auto simp: no_side_align_def list_all_iff)

lemma log_calls_done:
  "list_all (\<lambda>c. no_side_align (fst c)) cs \<Longrightarrow> length tmp_log = 256 \<Longrightarrow> log_ok (out_log out) \<Longrightarrow>
     \<exists>out'. log_calls tmp_log cs out = Done out' \<and> log_ok (out_log out') \<and>
       out_console out' = out_console out"
proof (induction cs arbitrary: out)
  case (Cons c cs)
  obtain o1 where o1: "log_macro tmp_log c out = Done o1" "log_ok (out_log o1)"
    "out_console o1 = out_console out"
    using log_msg_done [of "fst c" tmp_log out "log_str_at (snd c)" "log_regs (snd c)"] Cons.prems
    unfolding log_macro_def by auto
  with Cons.IH [OF _ Cons.prems(2) o1(2)] Cons.prems(1) show ?case by auto
qed simp

definition example_out :: log_out where
  "example_out =
     \<lparr>out_console = console_initial\<lparr>console := 0x1000\<rparr>, out_log = early_log_buf, out_io = []\<rparr>"

lemma example_out_ok: "log_ok (out_log example_out)" "console (out_console example_out) = 0x1000"
  by (simp_all add: example_out_def log_ok_def early_log_buf_def)

section \<open>Properties of logging\<close>



text \<open>Dumping a trap frame always succeeds and keeps the log buffer well formed: no message of it,
  whatever the registers hold, leads outside a buffer.\<close>

theorem dump_trap_frame_done:
  assumes "length tmp_log = 256" "log_ok (out_log out)"
  shows "\<exists>out'. dump_trap_frame tmp_log frame out = Done out' \<and> log_ok (out_log out') \<and>
    out_console out' = out_console out"
  unfolding dump_trap_frame_def
  by (rule log_calls_done [OF _ assms])
    (simp add: dump_trap_frame_logs_def no_side_align_iff Let_def)

theorem dump_trap_frame_done_witness:
  "\<exists>out'. dump_trap_frame (replicate 256 (CHR ''?''))
     \<lparr>tf_x = replicate 29 7, tf_x30 = 1, tf_spsr = 2, tf_esr = 3, tf_sp_el0 = 4, tf_sp_el1 = 5,
      tf_x29 = 6, tf_elr = 8\<rparr> example_out = Done out' \<and> log_ok (out_log out')"
  using dump_trap_frame_done [of "replicate 256 (CHR ''?'')", OF _ example_out_ok(1)] by fastforce

text \<open>A literal message longer than the buffer of \<open>log_msg\<close> comes out damaged: \<open>snprint\<close> overwrites
  its first character with the terminator and reports the size of the buffer, so that 256
  bytes are sent to the console, the first one \<open>NUL\<close> and the last one a byte that was on the
  stack before.\<close>

theorem log_msg_overlong:
  assumes "plain_literal lit" "255 < length lit" "length tmp_log = 256" "log_ok (out_log out)"
    "console (out_console out) \<noteq> 0"
  shows "\<exists>out'. log_msg str_at tmp_log lit args out = Done out' \<and>
    out_io out' = Call_console (console (out_console out))
      ([NUL] @ take 254 (drop 1 lit) @ [tmp_log ! 255]) # out_io out"
proof -
  let ?st = "\<lparr>ps_mem = tmp_log, ps_buf = 0, ps_remaining = SINGLE_LOG_MSG_SIZE - 1, ps_fmt = 0, ps_arg = 0\<rparr>"
  let ?m1 = "take 255 lit @ drop 255 tmp_log"
  have d255: "drop 255 tmp_log = [tmp_log ! 255]"
    using assms(3) Cons_nth_drop_Suc [of 255 tmp_log] by simp
  have fmt: "get_next_fmt lit 0 = Done (OK, fmt_info_zero, length lit + 1, length lit, True)"
    using get_next_fmt_end [OF assms(1), of "[]"] by simp
  have "store tmp_log 0 (take 255 lit) = Done ?m1"
    using assms(2,3) by (simp add: store_fits)
  then have round: "snprint_round str_at lit args ?st = Done (ERROR_STRING_TRUNCATED, True, ?st\<lparr>ps_mem := ?m1\<rparr>)"
    using assms(2) by (simp add: snprint_round_def fmt Let_def min_def)
  have "store ?m1 0 [NUL] = Done ([NUL] @ drop 1 ?m1)"
    using assms(2,3) by (simp add: store_fits)
  then have p: "snprint str_at tmp_log SINGLE_LOG_MSG_SIZE lit args =
      Done ([NUL] @ drop 1 ?m1, ERROR_STRING_TRUNCATED, 256)"
    using round by (simp add: snprint_def)
  have "drop 1 ?m1 = take 254 (drop 1 lit) @ [tmp_log ! 255]"
    using assms(2) by (simp add: d255 drop_take)
  then have mem: "[NUL] @ drop 1 ?m1 = [NUL] @ take 254 (drop 1 lit) @ [tmp_log ! 255]" by simp
  have len: "length ([NUL] @ take 254 (drop 1 lit) @ [tmp_log ! 255]) = 256" using assms(2) by simp
  then have "unat SINGLE_LOG_MSG_SIZE \<le> length ([NUL] @ take 254 (drop 1 lit) @ [tmp_log ! 255])" by simp
  then obtain log t where
    "console_write (Some ([NUL] @ take 254 (drop 1 lit) @ [tmp_log ! 255])) SINGLE_LOG_MSG_SIZE (out_console out) (out_io out) = Done t"
    "t = (if console (out_console out) \<noteq> 0
          then Call_console (console (out_console out)) (take (unat SINGLE_LOG_MSG_SIZE) ([NUL] @ take 254 (drop 1 lit) @ [tmp_log ! 255])) # out_io out
          else out_io out)"
    "log_append ([NUL] @ take 254 (drop 1 lit) @ [tmp_log ! 255]) SINGLE_LOG_MSG_SIZE (out_log out) = Done log"
    by (rule emit_ok [OF assms(4)]) (rule that)
  then show ?thesis using p len assms(5) unfolding mem by (simp add: log_msg_def)
qed

theorem log_msg_overlong_witness:
  "\<exists>out'. log_msg (\<lambda>a. []) (replicate 256 (CHR ''?'')) (replicate 300 (CHR ''a'')) [0, 0, 0, 0, 0] example_out =
       Done out' \<and>
     out_io out' = [Call_console 0x1000 ([NUL] @ replicate 254 (CHR ''a'') @ ''?'')]"
proof -
  have "plain_literal (replicate 300 (CHR ''a''))" by (simp add: plain_literal_def)
  from log_msg_overlong [OF this, of "replicate 256 (CHR ''?'')" example_out "\<lambda>a. []" "[0, 0, 0, 0, 0]"]
  show ?thesis using example_out_ok by (simp add: example_out_def)
qed

end
