(* ===== verification/BitAllocator.thy ===== *)
theory BitAllocator
  imports Bitmap
begin

text \<open>
  A bitmap as an allocator of small numbers: a set of numbers in use, from which a client takes
  the least free one and to which it returns one. The locale states what a client such as
  the file table relies on; the interpretation is the one-word bitmap of 32 numbers.
\<close>

locale bit_allocator =
  fixes valid :: "'b \<Rightarrow> bool"
    and used :: "'b \<Rightarrow> nat \<Rightarrow> bool"
    and limit :: nat
    and set_bit :: "'b \<Rightarrow> index_t \<Rightarrow> 'b outcome"
    and clear_bit :: "'b \<Rightarrow> index_t \<Rightarrow> 'b outcome"
    and first_free :: "'b \<Rightarrow> index_t option outcome"
  assumes limit: "limit < 2 ^ 32"
    and set_bit: "valid b \<Longrightarrow> unat i < limit \<Longrightarrow>
      \<exists>b'. set_bit b i = Done b' \<and> valid b' \<and> (\<forall>n. used b' n \<longleftrightarrow> n = unat i \<or> used b n)"
    and clear_bit: "valid b \<Longrightarrow> unat i < limit \<Longrightarrow>
      \<exists>b'. clear_bit b i = Done b' \<and> valid b' \<and> (\<forall>n. used b' n \<longleftrightarrow> n \<noteq> unat i \<and> used b n)"
    and first_free: "valid b \<Longrightarrow>
      (\<exists>i. first_free b = Done (Some i) \<and> unat i < limit \<and> \<not> used b (unat i) \<and> (\<forall>n < unat i. used b n)) \<or>
      first_free b = Done None \<and> (\<forall>n < limit. used b n)"
begin

definition take_first :: "'b \<Rightarrow> (index_t option \<times> 'b) outcome" where
  "take_first b =
     bindc (first_free b) (\<lambda>r.
       case r of
         None \<Rightarrow> Done (None, b)
       | Some i \<Rightarrow> bindc (set_bit b i) (\<lambda>b. Done (Some i, b)))"

text \<open>Taking a number fails only when all are in use, and otherwise gives the least free one.\<close>

lemma take_first_cases:
  assumes "valid b"
  obtains (full) "first_free b = Done None" "take_first b = Done (None, b)" "\<forall>n < limit. used b n"
  | (taken) i b' where "first_free b = Done (Some i)" "set_bit b i = Done b'"
      "take_first b = Done (Some i, b')" "valid b'"
      "unat i < limit" "\<not> used b (unat i)" "\<forall>n < unat i. used b n"
      "\<forall>n. used b' n \<longleftrightarrow> n = unat i \<or> used b n"
proof -
  from first_free [OF assms] show thesis
  proof (elim disjE exE conjE)
    fix i
    assume i: "first_free b = Done (Some i)" "unat i < limit" "\<not> used b (unat i)" "\<forall>n < unat i. used b n"
    from set_bit [OF assms i(2)] obtain b' where
      "set_bit b i = Done b'" "valid b'" "\<forall>n. used b' n \<longleftrightarrow> n = unat i \<or> used b n"
      by blast
    then show thesis using i taken [of i b'] by (simp add: take_first_def)
  next
    assume "first_free b = Done None" "\<forall>n < limit. used b n"
    then show thesis using full by (simp add: take_first_def)
  qed
qed

text \<open>A number that is taken and returned leaves the set as it was.\<close>

lemma take_release:
  assumes "valid b" "take_first b = Done (Some i, b1)"
  shows "\<exists>b2. clear_bit b1 i = Done b2 \<and> valid b2 \<and> (\<forall>n. used b2 n = used b n)"
proof (rule take_first_cases [OF assms(1)])
  fix j b'
  assume *: "take_first b = Done (Some j, b')" "valid b'" "unat j < limit" "\<not> used b (unat j)"
    "\<forall>n. used b' n \<longleftrightarrow> n = unat j \<or> used b n"
  then have "j = i" "b' = b1" using assms(2) by simp_all
  with clear_bit [of b1 i] * show ?thesis by auto
qed (use assms(2) in simp)

end

interpretation fd_bits: bit_allocator "\<lambda>b. length b = 1" bm_test 32 bitmap_set bitmap_clear
  "\<lambda>b. bitmap_ffc b 0 31"
proof unfold_locales
  fix b :: bitmap and i :: index_t
  assume b: "length b = 1" and i: "unat i < 32"
  then have bits: "unat i < bm_bits b" by (simp add: bm_bits_def)
  show "\<exists>b'. bitmap_set b i = Done b' \<and> length b' = 1 \<and> (\<forall>n. bm_test b' n \<longleftrightarrow> n = unat i \<or> bm_test b n)"
    by (rule bitmap_set_eq [OF bits]) (use b in auto)
  show "\<exists>b'. bitmap_clear b i = Done b' \<and> length b' = 1 \<and> (\<forall>n. bm_test b' n \<longleftrightarrow> n \<noteq> unat i \<and> bm_test b n)"
    by (rule bitmap_clear_eq [OF bits]) (use b in auto)
next
  fix b :: bitmap
  assume b: "length b = 1"
  have ffc: "bitmap_ffc b 0 31 = Done (bm_first b 0 31 False)"
    by (rule bitmap_ffc_eq) (simp_all add: b bm_bits_def)
  show "(\<exists>i. bitmap_ffc b 0 31 = Done (Some i) \<and> unat i < 32 \<and> \<not> bm_test b (unat i) \<and>
      (\<forall>n < unat i. bm_test b n)) \<or> bitmap_ffc b 0 31 = Done None \<and> (\<forall>n < 32. bm_test b n)"
  proof (cases "bm_first b 0 31 False")
    case None
    have "bm_test b n" if "n < 32" for n
      using bm_first_NoneD [OF None, of n] that by simp
    then show ?thesis using ffc None by simp
  next
    case (Some i)
    note found = bm_first_SomeD [OF Some]
    have "unat i < 32" using found(2) by simp
    moreover have "bm_test b n" if "n < unat i" for n using found(4) [of n] that by simp
    ultimately show ?thesis using ffc Some found(3) by simp
  qed
qed simp

section \<open>The word-wise search\<close>

text \<open>C36: the search for the first set or clear bit, which works a word at a time with masks and
  \<open>ctz\<close>, gives the same result as testing the bits one after the other from the first to the
  last one of the range, and never reads outside the bitmap.\<close>

theorem bitmap_search_equiv:
  assumes "unat s \<le> unat e" "unat e < 64 * length bm" "64 * length bm < 2 ^ 32"
  shows "bitmap_ffs bm s e = Done (map_option of_nat (find (bm_test bm) [unat s..<unat e + 1])) \<and>
    bitmap_ffc bm s e = Done (map_option of_nat (find (\<lambda>n. \<not> bm_test bm n) [unat s..<unat e + 1]))"
proof -
  have "bm_bits bm = 64 * length bm" by (simp add: bm_bits_def)
  then show ?thesis
    using bitmap_ffs_eq [of s e bm] bitmap_ffc_eq [of s e bm] assms
    by (simp add: bm_first_def mult.commute del: upt_Suc)
qed

theorem bitmap_search_equiv_witness:
  "bitmap_ffc [0xffffffffffffffff, 0x7] 3 100 = Done (Some 67)"
proof -
  have "find (\<lambda>n. \<not> bm_test [0xffffffffffffffff, 0x7] n) [3..<101] = Some 67" by code_simp
  with bitmap_search_equiv [of 3 100 "[0xffffffffffffffff, 0x7]"] show ?thesis by simp
qed

end
