(* ===== verification/Fs.thy ===== *)
theory Fs
  imports BitAllocator Console
begin

unbundle bit_operations_syntax

text \<open>
  The file table of \<^verbatim>\<open>src/fs.c\<close>: 32 descriptors, a bitmap of those in use, and \<open>openat\<close>,
  \<open>close\<close> and the lookup of a descriptor. The static \<open>struct file_s\<close> objects of the devices are
  the values of \<open>file_s\<close>. The constants \<open>O_ACCMODE\<close> and \<open>O_LARGEFILE\<close> come from the C library
  of the build and are a parameter.
\<close>

section \<open>State\<close>

datatype file_s = Ttyin | Ttyout | Irq_file | Console_file | Exit_file | Mem_file

record file_p =
  fp_file :: "file_s option"
  fp_flags :: u64

record fs_state =
  fd_alloc :: bitmap
  file_table :: "file_p list"

record fcntl =
  O_ACCMODE :: u32
  O_LARGEFILE :: u32

abbreviation (input) "NUM_FDS \<equiv> (32 :: u32)"
abbreviation (input) "FS_READ \<equiv> (1 :: u64)"
abbreviation (input) "FS_WRITE \<equiv> (2 :: u64)"
abbreviation (input) "O_RDONLY \<equiv> (0 :: u32)"
abbreviation (input) "O_WRONLY \<equiv> (1 :: u32)"
abbreviation (input) "O_RDWR \<equiv> (2 :: u32)"
abbreviation (input) "AT_FDCWD \<equiv> (- 100 :: int)"
abbreviation (input) "STDIN_FILENO \<equiv> (0 :: u32)"
abbreviation (input) "STDOUT_FILENO \<equiv> (1 :: u32)"
abbreviation (input) "STDERR_FILENO \<equiv> (2 :: u32)"

definition no_file :: file_p where
  "no_file = \<lparr>fp_file = None, fp_flags = 0\<rparr>"

text \<open>The static variables before \<open>fs_init\<close>.\<close>

definition fs_zero :: fs_state where
  "fs_zero = \<lparr>fd_alloc = [0], file_table = replicate 32 no_file\<rparr>"

definition set_file :: "u32 \<Rightarrow> file_s \<Rightarrow> u64 \<Rightarrow> fs_state \<Rightarrow> fs_state outcome" where
  "set_file fd f flags st =
     in_object (unat fd < length (file_table st))
      (Done (st\<lparr>file_table := (file_table st)[unat fd := \<lparr>fp_file = Some f, fp_flags = flags\<rparr>]\<rparr>))"

definition fs_init :: "fs_state \<Rightarrow> fs_state outcome" where
  "fs_init st =
     bindc (bitmap_set (fd_alloc st) STDIN_FILENO) (\<lambda>b.
     bindc (bitmap_set b STDOUT_FILENO) (\<lambda>b.
     bindc (bitmap_set b STDERR_FILENO) (\<lambda>b.
     bindc (set_file STDIN_FILENO Ttyin FS_READ (st\<lparr>fd_alloc := b\<rparr>)) (\<lambda>st.
     bindc (set_file STDOUT_FILENO Ttyout FS_WRITE st) (\<lambda>st.
       set_file STDERR_FILENO Ttyout FS_WRITE st)))))"

section \<open>Operations\<close>

definition open_flags :: "fcntl \<Rightarrow> u32 \<Rightarrow> u64" where
  "open_flags fc o_flags =
     (let accmode = o_flags AND O_ACCMODE fc;
          flags = 0;
          flags = (if accmode = O_RDONLY \<or> accmode = O_RDWR then flags OR FS_READ else flags)
      in if accmode = O_WRONLY \<or> accmode = O_RDWR then flags OR FS_WRITE else flags)"

definition fs_alloc_fd :: "fcntl \<Rightarrow> file_s \<Rightarrow> u32 \<Rightarrow> fs_state \<Rightarrow> (int \<times> fs_state) outcome" where
  "fs_alloc_fd fc f o_flags st =
     bindc (bitmap_ffc (fd_alloc st) 0 (NUM_FDS - 1)) (\<lambda>r.
       case r of
         None \<Rightarrow> Done (- ENFILE, st)
       | Some fd \<Rightarrow>
           bindc (bitmap_set (fd_alloc st) fd) (\<lambda>b.
           bindc (set_file fd f (open_flags fc o_flags) (st\<lparr>fd_alloc := b\<rparr>)) (\<lambda>st.
             Done (int (unat fd), st))))"

definition fs_lookup_file :: "u32 \<Rightarrow> fs_state \<Rightarrow> file_p option outcome" where
  "fs_lookup_file fd st =
     (if fd < NUM_FDS
      then in_object (unat fd < length (file_table st))
        (let fp = file_table st ! unat fd
         in Done (if fp_file fp \<noteq> None then Some fp else None))
      else Done None)"

definition interrupt_open :: "fcntl \<Rightarrow> u32 \<Rightarrow> fs_state \<Rightarrow> (int \<times> fs_state) outcome" where
  "interrupt_open fc flags st = fs_alloc_fd fc Irq_file flags st"

definition console_open :: "fcntl \<Rightarrow> u32 \<Rightarrow> fs_state \<Rightarrow> (int \<times> fs_state) outcome" where
  "console_open fc flags st = fs_alloc_fd fc Console_file flags st"

definition exit_open :: "fcntl \<Rightarrow> u32 \<Rightarrow> fs_state \<Rightarrow> (int \<times> fs_state) outcome" where
  "exit_open fc flags st = fs_alloc_fd fc Exit_file flags st"

definition mem_open :: "fcntl \<Rightarrow> u32 \<Rightarrow> fs_state \<Rightarrow> (int \<times> fs_state) outcome" where
  "mem_open fc flags st = fs_alloc_fd fc Mem_file flags st"

definition sys_openat ::
  "fcntl \<Rightarrow> int \<Rightarrow> string \<Rightarrow> u32 \<Rightarrow> u32 \<Rightarrow> fs_state \<Rightarrow> (int \<times> fs_state) outcome" where
  "sys_openat fc dirfd pathname flags mode st =
     (if dirfd \<noteq> AT_FDCWD then Done (- EINVAL, st)
      else if flags AND NOT (O_ACCMODE fc OR O_LARGEFILE fc) \<noteq> 0 \<or> mode \<noteq> 0 then Done (- EINVAL, st)
      else
        bindc (strcmp pathname ''/dev/gicv3'') (\<lambda>d. if d = 0 then interrupt_open fc flags st else
        bindc (strcmp pathname ''/dev/console'') (\<lambda>d. if d = 0 then console_open fc flags st else
        bindc (strcmp pathname ''/dev/exit'') (\<lambda>d. if d = 0 then exit_open fc flags st else
        bindc (strcmp pathname ''/dev/mem'') (\<lambda>d. if d = 0 then mem_open fc flags st else
          Done (- ENOENT, st))))))"

definition sys_close :: "u32 \<Rightarrow> fs_state \<Rightarrow> (int \<times> fs_state) outcome" where
  "sys_close fd st =
     bindc (fs_lookup_file fd st) (\<lambda>fp.
       case fp of
         None \<Rightarrow> Done (- EBADF, st)
       | Some p \<Rightarrow>
           let st = st\<lparr>file_table := (file_table st)[unat fd := no_file]\<rparr>
           in bindc (bitmap_clear (fd_alloc st) fd) (\<lambda>b. Done (0, st\<lparr>fd_alloc := b\<rparr>)))"

end
