(* ===== verification/FsSpec.thy ===== *)
theory FsSpec
  imports Fs
begin

unbundle bit_operations_syntax

text \<open>
  What the file table achieves: the bitmap and the table agree in every reachable state, and
  on the map from descriptors to open files, \<open>openat\<close> adds the least free descriptor and
  \<open>close\<close> removes one. The bitmap is used through the locale of bit allocators.
\<close>

section \<open>The invariant and the abstraction\<close>

definition fs_ok :: "fs_state \<Rightarrow> bool" where
  "fs_ok st \<longleftrightarrow>
     length (fd_alloc st) = 1 \<and> length (file_table st) = 32 \<and>
     (\<forall>n < 32. bm_test (fd_alloc st) n \<longleftrightarrow> fp_file (file_table st ! n) \<noteq> None)"

definition open_files :: "fs_state \<Rightarrow> nat \<Rightarrow> (file_s \<times> u64) option" where
  "open_files st n =
     (if n < 32 then map_option (\<lambda>f. (f, fp_flags (file_table st ! n))) (fp_file (file_table st ! n))
      else None)"

lemma open_files_used: "fs_ok st \<Longrightarrow> n < 32 \<Longrightarrow> open_files st n \<noteq> None \<longleftrightarrow> bm_test (fd_alloc st) n"
  by (simp add: fs_ok_def open_files_def)

lemma set_file_ok:
  assumes "length b = 1" "length (file_table st) = 32" "unat fd < 32"
    "\<forall>n < 32. bm_test b n \<longleftrightarrow> n = unat fd \<or> fp_file (file_table st ! n) \<noteq> None"
  obtains st' where "set_file fd f fl (st\<lparr>fd_alloc := b\<rparr>) = Done st'" "fs_ok st'"
    "open_files st' = (open_files st)(unat fd \<mapsto> (f, fl))"
proof -
  let ?st' = "st\<lparr>fd_alloc := b, file_table := (file_table st)[unat fd := \<lparr>fp_file = Some f, fp_flags = fl\<rparr>]\<rparr>"
  have "set_file fd f fl (st\<lparr>fd_alloc := b\<rparr>) = Done ?st'"
    using assms by (simp add: set_file_def)
  moreover have "fs_ok ?st'" using assms by (auto simp: fs_ok_def nth_list_update)
  moreover have "open_files ?st' = (open_files st)(unat fd \<mapsto> (f, fl))"
    using assms by (intro ext) (auto simp: open_files_def nth_list_update)
  ultimately show thesis by (rule that)
qed

text \<open>Allocating a descriptor.\<close>

lemma fs_alloc_fd_cases:
  assumes "fs_ok st"
  obtains (full) "fs_alloc_fd fc f fl st = Done (- ENFILE, st)" "\<forall>n < 32. open_files st n \<noteq> None"
  | (opened) fd :: u32 and st' where "fs_alloc_fd fc f fl st = Done (int (unat fd), st')" "fs_ok st'"
      "unat fd < 32" "open_files st (unat fd) = None" "\<forall>n < unat fd. open_files st n \<noteq> None"
      "open_files st' = (open_files st)(unat fd \<mapsto> (f, open_flags fc fl))"
proof -
  have ok: "length (fd_alloc st) = 1" "length (file_table st) = 32"
    "\<forall>n < 32. bm_test (fd_alloc st) n \<longleftrightarrow> fp_file (file_table st ! n) \<noteq> None"
    using assms by (simp_all add: fs_ok_def)
  show thesis
  proof (rule fd_bits.take_first_cases [OF ok(1)])
    assume "bitmap_ffc (fd_alloc st) 0 31 = Done None" "\<forall>n < 32. bm_test (fd_alloc st) n"
    then show thesis using full open_files_used [OF assms] by (simp add: fs_alloc_fd_def)
  next
    fix fd b'
    assume a: "bitmap_ffc (fd_alloc st) 0 31 = Done (Some fd)" "bitmap_set (fd_alloc st) fd = Done b'"
      "length b' = 1" "unat fd < 32" "\<not> bm_test (fd_alloc st) (unat fd)"
      "\<forall>n < unat fd. bm_test (fd_alloc st) n"
      "\<forall>n. bm_test b' n \<longleftrightarrow> n = unat fd \<or> bm_test (fd_alloc st) n"
    obtain st' where st': "set_file fd f (open_flags fc fl) (st\<lparr>fd_alloc := b'\<rparr>) = Done st'" "fs_ok st'"
      "open_files st' = (open_files st)(unat fd \<mapsto> (f, open_flags fc fl))"
      by (rule set_file_ok [OF a(3) ok(2) a(4)]) (use a(7) ok(3) in auto)
    have "fs_alloc_fd fc f fl st = Done (int (unat fd), st')"
      using a(1,2) st'(1) by (simp add: fs_alloc_fd_def)
    moreover have "open_files st (unat fd) = None"
      using open_files_used [OF assms a(4)] a(5) by blast
    moreover have "\<forall>n < unat fd. open_files st n \<noteq> None"
    proof (intro allI impI)
      fix n assume "n < unat fd"
      with a(4,6) open_files_used [OF assms, of n] show "open_files st n \<noteq> None" by simp
    qed
    ultimately show thesis using st'(2,3) a(4) by (intro opened [of fd st'])
  qed
qed

lemma sys_close_cases:
  assumes "fs_ok st"
  shows "\<exists>ret st'. sys_close fd st = Done (ret, st') \<and> fs_ok st' \<and>
    (if open_files st (unat fd) \<noteq> None
     then ret = 0 \<and> open_files st' = (open_files st)(unat fd := None)
     else ret = - EBADF \<and> st' = st)"
proof -
  have ok: "length (fd_alloc st) = 1" "length (file_table st) = 32"
    "\<forall>n < 32. bm_test (fd_alloc st) n \<longleftrightarrow> fp_file (file_table st ! n) \<noteq> None"
    using assms by (simp_all add: fs_ok_def)
  show ?thesis
  proof (cases "open_files st (unat fd)")
    case None
    then have "sys_close fd st = Done (- EBADF, st)"
      using ok(2) by (auto simp: sys_close_def fs_lookup_file_def open_files_def word_less_nat_alt Let_def)
    then show ?thesis using None assms by simp
  next
    case (Some p)
    then have fd: "unat fd < 32" "fp_file (file_table st ! unat fd) \<noteq> None"
      by (auto simp: open_files_def split: if_splits)
    from fd_bits.clear_bit [OF ok(1) fd(1)] obtain b' where b': "bitmap_clear (fd_alloc st) fd = Done b'"
      "length b' = 1" "\<forall>n. bm_test b' n \<longleftrightarrow> n \<noteq> unat fd \<and> bm_test (fd_alloc st) n"
      by blast
    let ?st' = "st\<lparr>file_table := (file_table st)[unat fd := no_file], fd_alloc := b'\<rparr>"
    have "sys_close fd st = Done (0, ?st')"
      using fd ok(2) b'(1) by (auto simp: sys_close_def fs_lookup_file_def word_less_nat_alt Let_def)
    moreover have "fp_file ((file_table st)[unat fd := no_file] ! n) =
        (if n = unat fd then None else fp_file (file_table st ! n))" if "n < 32" for n
      using that ok(2) by (simp add: nth_list_update no_file_def)
    then have "fs_ok ?st'"
      using b'(2,3) ok by (simp add: fs_ok_def)
    moreover have "open_files ?st' = (open_files st)(unat fd := None)"
      using ok(2) fd(1) by (intro ext) (auto simp: open_files_def nth_list_update no_file_def)
    ultimately show ?thesis using Some by (intro exI [of _ 0] exI [of _ ?st']) simp
  qed
qed

section \<open>openat\<close>

definition device_files :: "(string \<times> file_s) list" where
  "device_files =
     [(''/dev/gicv3'', Irq_file), (''/dev/console'', Console_file), (''/dev/exit'', Exit_file),
      (''/dev/mem'', Mem_file)]"

lemma device_paths: "c_string ''/dev/gicv3''" "c_string ''/dev/console''" "c_string ''/dev/exit''"
  "c_string ''/dev/mem''"
  by (simp_all add: c_string_def)

lemma sys_openat_device:
  assumes "c_string path"
  shows "sys_openat fc dirfd path flags mode st =
    (if dirfd \<noteq> AT_FDCWD \<or> flags AND NOT (O_ACCMODE fc OR O_LARGEFILE fc) \<noteq> 0 \<or> mode \<noteq> 0
     then Done (- EINVAL, st)
     else case map_of device_files path of
            None \<Rightarrow> Done (- ENOENT, st) | Some f \<Rightarrow> fs_alloc_fd fc f flags st)"
proof -
  obtain d1 d2 d3 d4 where "strcmp path ''/dev/gicv3'' = Done d1" "d1 = 0 \<longleftrightarrow> path = ''/dev/gicv3''"
    "strcmp path ''/dev/console'' = Done d2" "d2 = 0 \<longleftrightarrow> path = ''/dev/console''"
    "strcmp path ''/dev/exit'' = Done d3" "d3 = 0 \<longleftrightarrow> path = ''/dev/exit''"
    "strcmp path ''/dev/mem'' = Done d4" "d4 = 0 \<longleftrightarrow> path = ''/dev/mem''"
    using strcmp_zero [OF assms device_paths(1)] strcmp_zero [OF assms device_paths(2)]
      strcmp_zero [OF assms device_paths(3)] strcmp_zero [OF assms device_paths(4)] by metis
  then show ?thesis
    by (auto simp: sys_openat_def device_files_def interrupt_open_def console_open_def exit_open_def
        mem_open_def)
qed

lemma sys_openat_cases:
  assumes "fs_ok st" "c_string path"
  shows "\<exists>ret st'. sys_openat fc dirfd path flags mode st = Done (ret, st') \<and> fs_ok st' \<and>
    (if dirfd \<noteq> AT_FDCWD \<or> flags AND NOT (O_ACCMODE fc OR O_LARGEFILE fc) \<noteq> 0 \<or> mode \<noteq> 0
     then ret = - EINVAL \<and> st' = st
     else case map_of device_files path of
        None \<Rightarrow> ret = - ENOENT \<and> st' = st
      | Some f \<Rightarrow>
          if \<forall>n < 32. open_files st n \<noteq> None then ret = - ENFILE \<and> st' = st
          else \<exists>n < 32. ret = int n \<and> open_files st n = None \<and> (\<forall>m < n. open_files st m \<noteq> None) \<and>
            open_files st' = (open_files st)(n \<mapsto> (f, open_flags fc flags)))"
proof (cases "dirfd \<noteq> AT_FDCWD \<or> flags AND NOT (O_ACCMODE fc OR O_LARGEFILE fc) \<noteq> 0 \<or> mode \<noteq> 0")
  case True
  then show ?thesis unfolding sys_openat_device [OF assms(2)] using assms(1) by simp
next
  case False
  show ?thesis
  proof (cases "map_of device_files path")
    case None
    then show ?thesis unfolding sys_openat_device [OF assms(2)] using False assms(1) by simp
  next
    case (Some f)
    show ?thesis
    proof (rule fs_alloc_fd_cases [OF assms(1), of fc f flags])
      assume "fs_alloc_fd fc f flags st = Done (- ENFILE, st)" "\<forall>n < 32. open_files st n \<noteq> None"
      then show ?thesis unfolding sys_openat_device [OF assms(2)] using False Some assms(1) by simp
    next
      fix fd st'
      assume a: "fs_alloc_fd fc f flags st = Done (int (unat fd), st')" "fs_ok st'" "unat fd < 32"
        "open_files st (unat fd) = None" "\<forall>n < unat fd. open_files st n \<noteq> None"
        "open_files st' = (open_files st)(unat fd \<mapsto> (f, open_flags fc flags))"
      then have "\<not> (\<forall>n < 32. open_files st n \<noteq> None)" by blast
      then show ?thesis unfolding sys_openat_device [OF assms(2)] using False Some a
        by (intro exI [of _ "int (unat fd)"] exI [of _ st']) auto
    qed
  qed
qed

text \<open>Only the last case of \<open>openat\<close> returns a descriptor.\<close>

lemma openat_opened:
  assumes "if bad then int n = - EINVAL \<and> A else case found of None \<Rightarrow> int n = - ENOENT \<and> A
    | Some f \<Rightarrow> if full then int n = - ENFILE \<and> A else \<exists>k < 32. int n = int k \<and> Q k f"
  obtains f where "Q n f"
  using assms by (auto split: if_splits option.splits)

section \<open>Reachable states\<close>

lemma bm_test_word: "bm_test [w] n \<longleftrightarrow> bit w n"
  by (cases "n < 64") (auto simp: bm_test_def bm_bits_def dest: bit_imp_le_length)

definition fs_start :: fs_state where
  "fs_start =
     \<lparr>fd_alloc = [7], file_table = [\<lparr>fp_file = Some Ttyin, fp_flags = FS_READ\<rparr>,
        \<lparr>fp_file = Some Ttyout, fp_flags = FS_WRITE\<rparr>, \<lparr>fp_file = Some Ttyout, fp_flags = FS_WRITE\<rparr>] @
        replicate 29 no_file\<rparr>"

lemma fs_init_start: "fs_init fs_zero = Done fs_start"
  by code_simp

lemma fs_start_ok: "fs_ok fs_start"
proof -
  have bits: "bm_test (fd_alloc fs_start) n \<longleftrightarrow> n < 3" for n
  proof -
    have "(7 :: u64) = mask 3" by (simp add: mask_eq_exp_minus_1)
    then have "bit (7 :: u64) n = bit (mask 3 :: u64) n" by (simp only:)
    also have "\<dots> \<longleftrightarrow> n < 3" by (auto simp: bit_mask_iff)
    finally show ?thesis unfolding fs_start_def fs_state.select_convs bm_test_word .
  qed
  have "fp_file (file_table fs_start ! n) \<noteq> None \<longleftrightarrow> n < 3" if "n < 32" for n
  proof (cases "n < 3")
    case True
    then have "n \<in> {0, 1, 2}" by auto
    then show ?thesis by (auto simp: fs_start_def)
  next
    case False
    then show ?thesis using that by (simp add: fs_start_def nth_append no_file_def)
  qed
  moreover have "length (fd_alloc fs_start) = 1" "length (file_table fs_start) = 32"
    by (simp_all add: fs_start_def)
  ultimately show ?thesis unfolding fs_ok_def bits by blast
qed

text \<open>The states that calls of \<open>openat\<close> and \<open>close\<close>, with any arguments, lead to.\<close>

inductive fs_reachable :: "fcntl \<Rightarrow> fs_state \<Rightarrow> bool" for fc where
  start: "fs_init fs_zero = Done st \<Longrightarrow> fs_reachable fc st"
| openat: "fs_reachable fc st \<Longrightarrow> c_string path \<Longrightarrow>
    sys_openat fc dirfd path flags mode st = Done (ret, st') \<Longrightarrow> fs_reachable fc st'"
| close: "fs_reachable fc st \<Longrightarrow> sys_close fd st = Done (ret, st') \<Longrightarrow> fs_reachable fc st'"

inductive_cases fs_reachableE: "fs_reachable fc st"

lemma fs_reachable_ok: "fs_reachable fc st \<Longrightarrow> fs_ok st"
proof (induction rule: fs_reachable.induct)
  case (start st)
  then show ?case using fs_start_ok by (simp add: fs_init_start)
next
  case (openat st path dirfd flags mode ret st')
  then show ?case using sys_openat_cases [OF openat.IH openat.hyps(2), of fc dirfd flags mode] by auto
next
  case (close st fd ret st')
  then show ?case using sys_close_cases [OF close.IH, of fd] by auto
qed

section \<open>Properties of the file table\<close>

text \<open>C12: in every state that calls of \<open>openat\<close> and \<open>close\<close> lead to, the bitmap marks exactly the
  descriptors whose table entry has a file, and a lookup finds exactly those.\<close>

theorem fs_reachable_consistent:
  assumes "fs_reachable fc st"
  shows "(\<forall>n < 32. bm_test (fd_alloc st) n \<longleftrightarrow> open_files st n \<noteq> None) \<and>
    (\<exists>fp. fs_lookup_file fd st = Done fp \<and> (fp \<noteq> None \<longleftrightarrow> open_files st (unat fd) \<noteq> None))"
proof -
  have ok: "fs_ok st" using assms by (rule fs_reachable_ok)
  then have "length (file_table st) = 32" by (simp add: fs_ok_def)
  then have "\<exists>fp. fs_lookup_file fd st = Done fp \<and> (fp \<noteq> None \<longleftrightarrow> open_files st (unat fd) \<noteq> None)"
    by (auto simp: fs_lookup_file_def open_files_def word_less_nat_alt Let_def)
  then show ?thesis using open_files_used [OF ok] by simp
qed

theorem fs_reachable_consistent_witness:
  "\<exists>fp. fs_lookup_file 1 fs_start = Done fp \<and> fp \<noteq> None"
proof -
  have "fs_reachable \<lparr>O_ACCMODE = 3, O_LARGEFILE = 0x20000\<rparr> fs_start"
    by (rule fs_reachable.start) (rule fs_init_start)
  moreover have "open_files fs_start (unat (1 :: u32)) \<noteq> None" by (simp add: open_files_def fs_start_def)
  ultimately show ?thesis using fs_reachable_consistent [of _ fs_start 1] by blast
qed

text \<open>C11: \<open>openat\<close> refuses a directory, unknown flags or a mode with \<open>EINVAL\<close> and an unknown path
  with \<open>ENOENT\<close>, and otherwise opens the device at the least free descriptor, with the access
  the flags ask for, or fails with \<open>ENFILE\<close> when all are in use; it changes nothing else.\<close>

theorem sys_openat_spec:
  assumes "fs_ok st" "c_string path"
  shows "\<exists>ret st'. sys_openat fc dirfd path flags mode st = Done (ret, st') \<and> fs_ok st' \<and>
    (if dirfd \<noteq> AT_FDCWD \<or> flags AND NOT (O_ACCMODE fc OR O_LARGEFILE fc) \<noteq> 0 \<or> mode \<noteq> 0
     then ret = - EINVAL \<and> st' = st
     else case map_of device_files path of
        None \<Rightarrow> ret = - ENOENT \<and> st' = st
      | Some f \<Rightarrow>
          if \<forall>n < 32. open_files st n \<noteq> None then ret = - ENFILE \<and> st' = st
          else \<exists>n < 32. ret = int n \<and> open_files st n = None \<and> (\<forall>m < n. open_files st m \<noteq> None) \<and>
            open_files st' = (open_files st)(n \<mapsto> (f, open_flags fc flags)))"
  using assms by (rule sys_openat_cases)

theorem sys_openat_spec_witness:
  "\<exists>ret st'. sys_openat \<lparr>O_ACCMODE = 3, O_LARGEFILE = 0x20000\<rparr> (- 100) ''/dev/null'' 2 0 fs_start = Done (ret, st') \<and>
     ret = - ENOENT \<and> st' = fs_start"
proof -
  have "c_string ''/dev/null''" by (simp add: c_string_def)
  moreover have "map_of device_files ''/dev/null'' = None" by (simp add: device_files_def)
  moreover have "(2 :: u32) AND NOT (3 OR 0x20000) = 0" by simp
  ultimately show ?thesis
    using sys_openat_spec [OF fs_start_ok, of "''/dev/null''" "\<lparr>O_ACCMODE = 3, O_LARGEFILE = 0x20000\<rparr>" "- 100" 2 0]
    by auto
qed

text \<open>C13: a descriptor that \<open>openat\<close> returned is closed by \<open>close\<close>, after which exactly the files that
  were open before are open, and a second \<open>close\<close> fails with \<open>EBADF\<close>.\<close>

theorem open_close_roundtrip:
  assumes "fs_ok st" "c_string path" "sys_openat fc dirfd path flags mode st = Done (int n, st1)"
    "n < 32"
  shows "\<exists>st2. sys_close (of_nat n) st1 = Done (0, st2) \<and> open_files st2 = open_files st \<and>
    sys_close (of_nat n) st2 = Done (- EBADF, st2)"
proof -
  obtain f where o: "fs_ok st1"
    "open_files st n = None" "open_files st1 = (open_files st)(n \<mapsto> (f, open_flags fc flags))"
  proof -
    obtain ret st' where "sys_openat fc dirfd path flags mode st = Done (ret, st')" "fs_ok st'"
      and c: "if dirfd \<noteq> AT_FDCWD \<or> flags AND NOT (O_ACCMODE fc OR O_LARGEFILE fc) \<noteq> 0 \<or> mode \<noteq> 0
       then ret = - EINVAL \<and> st' = st
       else case map_of device_files path of None \<Rightarrow> ret = - ENOENT \<and> st' = st
        | Some f \<Rightarrow> if \<forall>n < 32. open_files st n \<noteq> None then ret = - ENFILE \<and> st' = st
            else \<exists>n < 32. ret = int n \<and> open_files st n = None \<and> (\<forall>m < n. open_files st m \<noteq> None) \<and>
              open_files st' = (open_files st)(n \<mapsto> (f, open_flags fc flags))"
      using sys_openat_cases [OF assms(1,2), of fc dirfd flags mode] by (elim exE conjE)
    with assms(3) have r: "ret = int n" "st' = st1" "fs_ok st1" by simp_all
    show thesis by (rule openat_opened [OF c [unfolded r]]) (use r(3) that in blast)
  qed
  have n: "unat (of_nat n :: u32) = n" using assms(4) by simp
  from sys_close_cases [OF o(1), of "of_nat n"] o(3) obtain st2 where c: "sys_close (of_nat n) st1 = Done (0, st2)"
    "fs_ok st2" "open_files st2 = (open_files st1)(n := None)"
    unfolding n by auto
  have "open_files st2 = open_files st" unfolding c(3) o(3) using o(2) by auto
  moreover from this sys_close_cases [OF c(2), of "of_nat n"] o(2)
  have "sys_close (of_nat n) st2 = Done (- EBADF, st2)" unfolding n by auto
  ultimately show ?thesis using c(1) by blast
qed

theorem open_close_roundtrip_witness:
  "\<exists>st1 st2. sys_openat \<lparr>O_ACCMODE = 3, O_LARGEFILE = 0x20000\<rparr> (- 100) ''/dev/mem'' 2 0 fs_start = Done (3, st1) \<and>
     sys_close 3 st1 = Done (0, st2) \<and> open_files st2 = open_files fs_start"
proof -
  let ?fc = "\<lparr>O_ACCMODE = 3, O_LARGEFILE = 0x20000\<rparr>"
  obtain st1 where o: "sys_openat ?fc (- 100) ''/dev/mem'' 2 0 fs_start = Done (int 3, st1)"
  proof -
    have "\<exists>st1. sys_openat ?fc (- 100) ''/dev/mem'' 2 0 fs_start = Done (3, st1)"
      by (rule exI [of _ "case sys_openat ?fc (- 100) ''/dev/mem'' 2 0 fs_start of Done (r, s) \<Rightarrow> s | Fault e \<Rightarrow> fs_start"])
        code_simp
    then show thesis using that by auto
  qed
  have "c_string ''/dev/mem''" by (simp add: c_string_def)
  from open_close_roundtrip [OF fs_start_ok this o] o show ?thesis by auto
qed

end
