(* ===== verification/Tty.thy ===== *)
theory Tty
  imports Log Timer
begin

unbundle bit_operations_syntax

text \<open>
  The terminal of \<^verbatim>\<open>src/tty.c\<close>: \<open>writev\<close> splits what is written into lines, puts a time stamp
  in front of each line in the log buffer and the prefix in front of it on the console;
  \<open>ioctl\<close> answers the size of the window and moves the log buffer. The static variable \<open>eol\<close>
  and the outputs are the state.
\<close>

section \<open>State\<close>

record tty_state =
  tty_out :: log_out
  tty_eol :: bool

section \<open>Time stamps\<close>

text \<open>
  The bytes on the stack where \<open>stamp\<close> is stored are a parameter. \<open>strlen\<close> reads them up to the
  first terminator; without one it would read beyond the array.
\<close>

definition make_stamp :: "string \<Rightarrow> timespec \<Rightarrow> string outcome" where
  "make_stamp stack ts =
     bindc (snprint (\<lambda>a. []) stack 16 ''{:d}.{:06d}: ''
              [of_int (tv_sec ts), of_int (tv_nsec ts) div 1000, 0, 0, 0])
       (\<lambda>(stamp, e, r). Done stamp)"

definition stamp_text :: "string \<Rightarrow> string outcome" where
  "stamp_text stamp = in_object (NUL \<in> set stamp) (Done (takeWhile (\<lambda>c. c \<noteq> NUL) stamp))"

definition begin_line ::
  "environment \<Rightarrow> timer_state \<Rightarrow> string \<Rightarrow> tty_state \<Rightarrow> tty_state outcome" where
  "begin_line env tm stack st =
     (let out = tty_out st;
          (curticks, t) = platform_timer_get_current_ticks env (out_io out)
      in bindc (ticks_to_timespec tm curticks) (\<lambda>ts.
         bindc (make_stamp stack ts) (\<lambda>stamp.
         bindc (stamp_text stamp) (\<lambda>s.
         bindc (strlen (Some s)) (\<lambda>len.
         bindc (log_append stamp len (out_log out)) (\<lambda>log.
         bindc (console_write None 0 (out_console out) t) (\<lambda>t.
           Done (st\<lparr>tty_out := out\<lparr>out_log := log, out_io := t\<rparr>, tty_eol := False\<rparr>))))))))"

section \<open>writev\<close>

text \<open>
  One round of the inner loop on the \<open>remain\<close> bytes at \<open>head\<close>: the number of bytes it writes and
  the new state.
\<close>

definition write_piece ::
  "environment \<Rightarrow> timer_state \<Rightarrow> string \<Rightarrow> string \<Rightarrow> size_t \<Rightarrow> tty_state \<Rightarrow> (size_t \<times> tty_state) outcome" where
  "write_piece env tm stack head remain st =
     bindc (if tty_eol st then begin_line env tm stack st else Done st) (\<lambda>st.
     bindc (memchr head (CHR ''\<newline>'') remain) (\<lambda>next_nl.
       let (len, st) =
             (case next_nl of
                None \<Rightarrow> (remain, st)
              | Some next \<Rightarrow> (of_nat next + 1, st\<lparr>tty_eol := True\<rparr>));
           out = tty_out st
       in bindc (console_write (Some head) len (out_console out) (out_io out)) (\<lambda>t.
          bindc (log_append head len (out_log out)) (\<lambda>log.
            Done (len, st\<lparr>tty_out := out\<lparr>out_log := log, out_io := t\<rparr>\<rparr>)))))"

text \<open>A round writes at least one byte of a nonempty rest, and no more than the rest.\<close>

lemma memchr_loop_bound:
  "memchr_loop s i c n = Done (Some j) \<Longrightarrow> i \<le> j \<and> j < i + unat n"
proof (induction s i c n rule: memchr_loop.induct)
  case (1 s str delim remain)
  from 1(2) have pos: "0 < remain" by (subst (asm) memchr_loop.simps) (auto split: if_splits)
  then have r: "unat (remain - 1) = unat remain - 1" "0 < unat remain"
    by (auto simp: unat_gt_0 unat_pred word_less_nat_alt)
  from 1(2) pos obtain ch where ch: "fetch s str 1 = Done ch"
    "(if ch = [delim] then Done (Some str) else memchr_loop s (str + 1) delim (remain - 1)) = Done (Some j)"
    by (subst (asm) memchr_loop.simps) (auto simp: outcome_Done)
  then show ?case using 1(1) [OF pos ch(1)] r by (auto split: if_splits)
qed

lemma write_piece_len:
  assumes "write_piece env tm stack head remain st = Done (len, st')"
  shows "unat len \<le> unat remain" "0 < remain \<Longrightarrow> 0 < unat len"
proof -
  have "len = remain \<or> (\<exists>j. len = of_nat j + 1 \<and> j < unat remain)"
    using assms memchr_loop_bound [of head 0 "CHR ''\<newline>''" remain]
    by (auto simp: write_piece_def outcome_Done memchr_def Let_def split: option.splits)
  moreover have "unat (of_nat j + 1 :: size_t) = j + 1" if "j < unat remain" for j
  proof -
    have "unat (of_nat (j + 1) :: size_t) = j + 1"
      using that unat_lt64 [of remain] by (simp add: unat_of_nat take_bit_nat_eq_self del: of_nat_Suc of_nat_add)
    then show ?thesis by (simp add: add.commute)
  qed
  ultimately show "unat len \<le> unat remain" "0 < remain \<Longrightarrow> 0 < unat len"
    by (auto simp: word_less_nat_alt)
qed

lemma write_piece_decr:
  assumes "write_piece env tm stack head remain st = Done (len, st')" "0 < remain - len"
  shows "unat (remain - len) < unat remain"
proof -
  have "unat (remain - len) = unat remain - unat len"
    using write_piece_len(1) [OF assms(1)] by (simp add: unat_sub word_le_nat_alt)
  then show ?thesis using write_piece_len(2) [OF assms(1)] assms(2)
    by (simp add: word_less_nat_alt)
qed

text \<open>The inner loop on the bytes of one \<open>iovec\<close>.\<close>

function write_loop ::
  "environment \<Rightarrow> timer_state \<Rightarrow> string \<Rightarrow> string \<Rightarrow> size_t \<Rightarrow> tty_state \<Rightarrow> tty_state outcome" where
  "write_loop env tm stack head remain st =
     bindc (write_piece env tm stack head remain st) (\<lambda>(len, st).
       let remain = remain - len;
           head = drop (unat len) head
       in if remain > 0 then write_loop env tm stack head remain st else Done st)"
  by pat_completeness auto
termination
  by (relation "measure (\<lambda>(env, tm, stack, head, remain, st). unat remain)")
    (auto dest: write_piece_decr)

declare write_loop.simps [simp del]

lemma next_index:
  fixes i :: index_t
  assumes "i \<noteq> 0xffffffff"
  shows "unat (i + 1) = Suc (unat i)"
proof -
  have "i < 0xffffffff" using assms unat_lt32 [of i] by (simp add: word_less_nat_alt word_unat_eq_iff)
  then show ?thesis by (rule unat_Suc_fits)
qed

lemma next_index_decr:
  fixes i :: index_t
  assumes "i \<noteq> 0xffffffff"
  shows "2 ^ 32 - unat (i + 1) < 2 ^ 32 - unat i"
  using unat_lt32 [of i] unfolding next_index [OF assms] by simp

text \<open>
  The loop over the vector; \<open>struct iovec\<close> has the base at 0 and the length at 8. The counter
  \<open>i\<close> is a 32-bit number and \<open>vlen\<close> a 64-bit one: past the largest \<open>i\<close> it would start
  again at 0 and never end, which is \<open>OutOfFuel\<close> here.
\<close>

function writev_loop ::
  "environment \<Rightarrow> timer_state \<Rightarrow> string \<Rightarrow> memory \<Rightarrow> uintptr_t \<Rightarrow> size_t \<Rightarrow> index_t \<Rightarrow> size_t \<Rightarrow>
     tty_state \<Rightarrow> (size_t \<times> tty_state) outcome" where
  "writev_loop env tm stack m vecp vlen i ret_len st =
     (if ucast i < vlen then
        let v = vecp + 16 * ucast i;
            remain = load64 m (v + 8);
            head = load64 m v
        in bindc (write_loop env tm stack (load_chars m head (unat remain)) remain st) (\<lambda>st.
             if i = 0xffffffff then Fault OutOfFuel
             else writev_loop env tm stack m vecp vlen (i + 1) (ret_len + load64 m (v + 8)) st)
      else Done (ret_len, st))"
  by pat_completeness auto
termination
  by (relation "measure (\<lambda>(env, tm, stack, m, vecp, vlen, i, ret_len, st). 2 ^ 32 - unat i)")
    (auto dest: next_index_decr)

declare writev_loop.simps [simp del]

text \<open>The result is a \<open>ssize_t\<close>.\<close>

definition tty_writev ::
  "environment \<Rightarrow> timer_state \<Rightarrow> string \<Rightarrow> memory \<Rightarrow> uintptr_t \<Rightarrow> size_t \<Rightarrow> tty_state \<Rightarrow>
     (u64 \<times> tty_state) outcome" where
  "tty_writev env tm stack m vecp vlen st = writev_loop env tm stack m vecp vlen 0 0 st"

section \<open>ioctl\<close>

abbreviation (input) "TIOCGWINSZ \<equiv> (0x5413 :: u32)"
abbreviation (input) "TIOCSETBUF \<equiv> (0x547f :: u32)"

text \<open>
  \<open>struct winsize\<close> has four 16-bit fields; \<open>struct tty_set_buffer_req\<close> has the address at 0 and
  the size at 8. \<open>tmp_log\<close> are the bytes on the stack where \<open>log_msg\<close> builds its message.
\<close>

definition tty_ioctl ::
  "string \<Rightarrow> u32 \<Rightarrow> uintptr_t \<Rightarrow> memory \<Rightarrow> log_out \<Rightarrow> (int \<times> memory \<times> log_out) outcome" where
  "tty_ioctl tmp_log cmd arg m out =
     (if cmd = TIOCGWINSZ then
        let m = store16 m arg 64;
            m = store16 m (arg + 2) 96;
            m = store16 m (arg + 4) 1280;
            m = store16 m (arg + 6) 760
        in Done (0, m, out)
      else if cmd = TIOCSETBUF then
        bindc (log_set_buffer m (load64 m arg) (load64 m (arg + 8))) (\<lambda>log.
          Done (0, m, out\<lparr>out_log := log\<rparr>))
      else
        bindc (log_macro tmp_log
                (''{:s}: invalid tty ioctl cmd{:#x}\<newline>'', [LogStr ''tty_ioctl'', LogNum (ucast cmd)]) out)
          (\<lambda>out. Done (- EINVAL, m, out)))"

end
