(* ===== verification/TtySpec.thy ===== *)
theory TtySpec
  imports Tty TimerSpec
begin

text \<open>
  What \<open>writev\<close> on the terminal achieves: the console and the log buffer both receive the bytes
  of the vector unchanged and in order, with something in front of each line: the prefix on
  the console, a time stamp in the log buffer.
\<close>

section \<open>Lines\<close>

text \<open>
  \<open>marked P e s e' t\<close>: \<open>t\<close> is \<open>s\<close> with a mark, a string that \<open>P\<close> allows, in front of the first
  character of each line; \<open>e\<close> says whether a line is about to begin before \<open>s\<close>, and \<open>e'\<close> after
  it. A mark may stand at the end, before a line that has no character yet.
\<close>

inductive marked :: "(string \<Rightarrow> bool) \<Rightarrow> bool \<Rightarrow> string \<Rightarrow> bool \<Rightarrow> string \<Rightarrow> bool" for P where
  stop: "marked P e [] e []"
| char: "marked P (c = CHR ''\<newline>'') s e' t \<Longrightarrow> marked P False (c # s) e' (c # t)"
| mark: "P p \<Longrightarrow> marked P False s e' t \<Longrightarrow> marked P True s e' (p @ t)"

inductive_cases marked_NilE: "marked P e [] e' t"
inductive_cases marked_FalseE: "marked P False (c # s) e' t"
inductive_cases marked_TrueE: "marked P True (c # s) e' t"

lemma marked_append:
  "marked P e s1 e1 t1 \<Longrightarrow> marked P e1 s2 e2 t2 \<Longrightarrow> marked P e (s1 @ s2) e2 (t1 @ t2)"
  by (induction rule: marked.induct) (auto intro: marked.intros)

lemma marked_plain: "CHR ''\<newline>'' \<notin> set s \<Longrightarrow> marked P False s False s"
  by (induction s) (auto intro: marked.intros simp: marked.char)

lemma marked_line:
  assumes "CHR ''\<newline>'' \<notin> set s"
  shows "marked P False (s @ [CHR ''\<newline>'']) True (s @ [CHR ''\<newline>''])"
proof (rule marked_append [OF marked_plain [OF assms]])
  have "marked P (CHR ''\<newline>'' = CHR ''\<newline>'') [] True []" by (simp add: marked.stop)
  then show "marked P False [CHR ''\<newline>''] True [CHR ''\<newline>'']" by (rule marked.char)
qed

section \<open>What has been printed\<close>

definition console_text :: "trace \<Rightarrow> string" where
  "console_text t = concat (map (\<lambda>e. case e of Call_console a s \<Rightarrow> s | _ \<Rightarrow> []) (rev t))"

lemma console_text_Cons [simp]:
  "console_text (e # t) = console_text t @ (case e of Call_console a s \<Rightarrow> s | _ \<Rightarrow> [])"
  by (simp add: console_text_def)

definition ticks_small :: "environment \<Rightarrow> bool" where
  "ticks_small env \<longleftrightarrow> (\<forall>t. unat (load_value env t CNTVCT_EL0) < 2 ^ 63)"

definition console_ok :: "console_state \<Rightarrow> bool" where
  "console_ok c \<longleftrightarrow> length (prefix c) = 16 \<and> prefix_len c \<le> 16"

definition prefix_text :: "console_state \<Rightarrow> string" where
  "prefix_text c = take (nat (prefix_len c)) (prefix c)"

text \<open>The text of a stamp, for some time.\<close>

definition is_stamp :: "timer_state \<Rightarrow> string \<Rightarrow> string \<Rightarrow> bool" where
  "is_stamp tm stack s \<longleftrightarrow> (\<exists>ts stamp. timespec_valid tm ts \<and> make_stamp stack ts = Done stamp \<and>
     stamp_text stamp = Done s)"

definition newest :: "string \<Rightarrow> string \<Rightarrow> string" where
  "newest old new = drop (length new) (old @ new)"

lemma newest_append: "newest (newest old s) t = newest old (s @ t)"
proof -
  have "drop (length s) ((old @ s) @ t) = drop (length s) (old @ s) @ t"
    unfolding drop_append [of "length s" "old @ s"] by simp
  then have "newest (newest old s) t = drop (length t) (drop (length s) ((old @ s) @ t))"
    by (simp add: newest_def)
  then show ?thesis by (simp only: newest_def drop_drop append_assoc length_append add.commute)
qed

text \<open>
  \<open>printed env tm stack st s st'\<close>: from \<open>st\<close> to \<open>st'\<close>, exactly \<open>s\<close> has been printed.
\<close>

definition printed :: "timer_state \<Rightarrow> string \<Rightarrow> tty_state \<Rightarrow> string \<Rightarrow> tty_state \<Rightarrow> bool" where
  "printed tm stack st s st' \<longleftrightarrow>
     out_console (tty_out st') = out_console (tty_out st) \<and> log_ok (out_log (tty_out st')) \<and>
     log_size (out_log (tty_out st')) = log_size (out_log (tty_out st)) \<and>
     (\<exists>tc tl.
        marked (\<lambda>p. p = prefix_text (out_console (tty_out st))) (tty_eol st) s (tty_eol st') tc \<and>
        console_text (out_io (tty_out st')) = console_text (out_io (tty_out st)) @
          (if console (out_console (tty_out st)) \<noteq> 0 then tc else []) \<and>
        marked (is_stamp tm stack) (tty_eol st) s (tty_eol st') tl \<and>
        log_text (out_log (tty_out st')) = newest (log_text (out_log (tty_out st))) tl)"

lemma printed_trans:
  assumes "printed tm stack st s1 st1" "printed tm stack st1 s2 st2"
  shows "printed tm stack st (s1 @ s2) st2"
proof -
  let ?P = "\<lambda>p. p = prefix_text (out_console (tty_out st))"
  have c: "out_console (tty_out st1) = out_console (tty_out st)"
    using assms(1) by (simp add: printed_def)
  obtain tc1 tl1 where 1: "marked ?P (tty_eol st) s1 (tty_eol st1) tc1"
    "console_text (out_io (tty_out st1)) = console_text (out_io (tty_out st)) @
       (if console (out_console (tty_out st)) \<noteq> 0 then tc1 else [])"
    "marked (is_stamp tm stack) (tty_eol st) s1 (tty_eol st1) tl1"
    "log_text (out_log (tty_out st1)) = newest (log_text (out_log (tty_out st))) tl1"
    using assms(1) unfolding printed_def by blast
  obtain tc2 tl2 where 2: "marked ?P (tty_eol st1) s2 (tty_eol st2) tc2"
    "console_text (out_io (tty_out st2)) = console_text (out_io (tty_out st1)) @
       (if console (out_console (tty_out st)) \<noteq> 0 then tc2 else [])"
    "marked (is_stamp tm stack) (tty_eol st1) s2 (tty_eol st2) tl2"
    "log_text (out_log (tty_out st2)) = newest (log_text (out_log (tty_out st1))) tl2"
    using assms(2) unfolding printed_def c by blast
  have "marked ?P (tty_eol st) (s1 @ s2) (tty_eol st2) (tc1 @ tc2)"
    "marked (is_stamp tm stack) (tty_eol st) (s1 @ s2) (tty_eol st2) (tl1 @ tl2)"
    using 1(1,3) 2(1,3) by (auto intro: marked_append)
  moreover have "log_text (out_log (tty_out st2)) = newest (log_text (out_log (tty_out st))) (tl1 @ tl2)"
    by (simp add: 1(4) 2(4) newest_append)
  ultimately show ?thesis using assms c 1(2) 2(2)
    unfolding printed_def by (intro conjI exI [of _ "tc1 @ tc2"] exI [of _ "tl1 @ tl2"]) auto
qed

section \<open>Beginning a line\<close>

lemma make_stamp_text:
  assumes "length stack = 16"
  obtains stamp s where "make_stamp stack ts = Done stamp" "stamp_text stamp = Done s"
    "strlen (Some s) = Done (of_nat (length s))" "length s < 16" "take (length s) stamp = s"
    "length stamp = 16"
proof -
  have "no_side_align ''{:d}.{:06d}: ''" by (simp add: no_side_align_def)
  from snprint_stays [OF this, of stack 16 "\<lambda>a. []" "[of_int (tv_sec ts), of_int (tv_nsec ts) div 1000, 0, 0, 0]"]
  obtain stamp where m: "make_stamp stack ts = Done stamp" "length stamp = 16" "NUL \<in> set stamp"
    using assms by (auto simp: make_stamp_def)
  let ?s = "takeWhile (\<lambda>c. c \<noteq> NUL) stamp"
  have "c_string ?s" by (auto simp: c_string_def dest: set_takeWhileD)
  then have "strlen (Some ?s) = Done (of_nat (length ?s))" by (rule strlen_length)
  moreover have "length ?s < length stamp"
  proof (rule ccontr)
    assume "\<not> length ?s < length stamp"
    then have "length ?s = length stamp" using length_takeWhile_le [of _ stamp] by (simp add: le_antisym)
    then have "?s = stamp" by (metis takeWhile_eq_take take_all order_refl)
    then show False using m(3) by (metis (mono_tags, lifting) set_takeWhileD)
  qed
  moreover have "take (length ?s) stamp = ?s" by (metis takeWhile_eq_take)
  ultimately show thesis
    using that [of stamp ?s] m by (simp add: stamp_text_def)
qed

definition tty_ok :: "tty_state \<Rightarrow> bool" where
  "tty_ok st \<longleftrightarrow> log_ok (out_log (tty_out st)) \<and> console_ok (out_console (tty_out st))"

lemma printed_ok: "printed tm stack st s st' \<Longrightarrow> tty_ok st \<Longrightarrow> tty_ok st'"
  by (simp add: printed_def tty_ok_def)

lemma printed_refl: "tty_ok st \<Longrightarrow> printed tm stack st [] st"
  unfolding printed_def tty_ok_def
  by (intro conjI exI [of _ "[]"]) (auto intro: marked.stop simp: newest_def)

lemma console_prefix:
  assumes "console_ok c"
  obtains t' where "console_write None sz c t = Done t'"
    "console_text t' = console_text t @ (if console c \<noteq> 0 then prefix_text c else [])"
proof (cases "console c \<noteq> 0 \<and> 0 < prefix_len c")
  case True
  then have "console_write None sz c t = Done (Call_console (console c) (prefix_text c) # t)"
    using assms by (simp add: console_write_def console_ok_def prefix_text_def fetch_fits nat_le_iff)
  then show thesis by (rule that) (use True in simp)
next
  case False
  then have "console_write None sz c t = Done t" by (auto simp: console_write_def)
  then show thesis by (rule that) (use False in \<open>auto simp: prefix_text_def\<close>)
qed

lemma console_prints:
  assumes "unat len \<le> length s"
  obtains t' where "console_write (Some s) len c t = Done t'"
    "console_text t' = console_text t @ (if console c \<noteq> 0 then take (unat len) s else [])"
  using assms by (cases "console c = 0") (simp_all add: console_write_def fetch_def)

lemma begin_line_prints:
  assumes "timer_ok tm" "ticks_small env" "length stack = 16" "tty_ok st" "tty_eol st"
  obtains st' where "begin_line env tm stack st = Done st'" "printed tm stack st [] st'" "\<not> tty_eol st'"
proof -
  let ?out = "tty_out st" and ?c = "out_console (tty_out st)"
  let ?v = "load_value env (out_io ?out) CNTVCT_EL0"
  let ?t = "Load CNTVCT_EL0 ?v # out_io ?out"
  have "unat ?v < 2 ^ 63" using assms(2) by (simp add: ticks_small_def)
  from ticks_to_timespec_eq [OF assms(1) this] obtain ts where ts: "ticks_to_timespec tm ?v = Done ts"
    by blast
  then have v: "timespec_valid tm ts" by (auto simp: ticks_to_timespec_def Let_def outcome_Done)
  obtain stamp s where s: "make_stamp stack ts = Done stamp" "stamp_text stamp = Done s"
    "strlen (Some s) = Done (of_nat (length s))" "length s < 16" "take (length s) stamp = s"
    "length stamp = 16"
    by (rule make_stamp_text [OF assms(3)])
  have len: "unat (of_nat (length s) :: size_t) = length s" using s(4) by simp
  have lok: "log_ok (out_log ?out)" and cok: "console_ok ?c" using assms(4) by (simp_all add: tty_ok_def)
  have "unat (of_nat (length s) :: size_t) \<le> length stamp" using len s(4,6) by simp
  from log_append_text [OF lok this] obtain log where log: "log_append stamp (of_nat (length s)) (out_log ?out) = Done log"
    "log_ok log" "log_size log = log_size (out_log ?out)"
    "log_text log = newest (log_text (out_log ?out)) s"
    unfolding len s(5) newest_def by blast
  obtain t' where t': "console_write None 0 ?c ?t = Done t'"
    "console_text t' = console_text ?t @ (if console ?c \<noteq> 0 then prefix_text ?c else [])"
    by (rule console_prefix [OF cok])
  let ?st' = "st\<lparr>tty_out := ?out\<lparr>out_log := log, out_io := t'\<rparr>, tty_eol := False\<rparr>"
  have "begin_line env tm stack st = Done ?st'"
    using ts s log(1) t'(1)
    by (simp add: begin_line_def platform_timer_get_current_ticks_def device_load_def Let_def)
  moreover have "printed tm stack st [] ?st'"
  proof -
    have "marked (\<lambda>p. p = prefix_text ?c) True [] False (prefix_text ?c @ [])"
      by (intro marked.intros) simp
    moreover have "marked (is_stamp tm stack) True [] False (s @ [])"
      by (intro marked.intros) (use v s(1,2) in \<open>auto simp: is_stamp_def\<close>)
    ultimately show ?thesis using assms(5) log(2-4) t'(2) unfolding printed_def
      by (intro conjI exI [of _ "prefix_text ?c"] exI [of _ s]) auto
  qed
  ultimately show thesis using that by simp
qed

section \<open>Pieces\<close>

text \<open>The piece that is written next ends with the first newline, if there is one.\<close>

lemma line_end:
  fixes remain :: size_t
  assumes "unat remain = length head"
  defines "nl \<equiv> find (\<lambda>j. head ! j = CHR ''\<newline>'') [0..<unat remain]"
  defines "len \<equiv> (case nl of None \<Rightarrow> remain | Some next \<Rightarrow> of_nat next + 1)"
  shows "unat len \<le> length head \<and> marked P False (take (unat len) head) (nl \<noteq> None) (take (unat len) head)"
proof (cases nl)
  case None
  then have "CHR ''\<newline>'' \<notin> set head"
    using assms(1) by (auto simp: nl_def find_None_iff in_set_conv_nth)
  then show ?thesis using None assms(1) by (simp add: len_def marked_plain)
next
  case (Some j)
  then have j: "j < length head" "head ! j = CHR ''\<newline>''" "\<forall>i < j. head ! i \<noteq> CHR ''\<newline>''"
    using assms(1) by (auto simp: nl_def find_Some_iff)
  have "unat (of_nat (j + 1) :: size_t) = j + 1"
    by (rule unat_of_nat64) (use j(1) assms(1) unat_lt64 [where x = remain] in simp)
  then have l: "unat len = j + 1" using Some by (simp add: len_def add.commute)
  have "CHR ''\<newline>'' \<notin> set (take j head)" using j by (auto simp: in_set_conv_nth)
  then have "marked P False (take j head @ [CHR ''\<newline>'']) True (take j head @ [CHR ''\<newline>''])"
    by (rule marked_line)
  moreover have "take (j + 1) head = take j head @ [CHR ''\<newline>'']"
    using j(1,2) by (simp add: take_Suc_conv_app_nth)
  ultimately show ?thesis using Some j(1) l by simp
qed

lemma write_piece_prints:
  assumes "timer_ok tm" "ticks_small env" "length stack = 16" "tty_ok st" "unat remain = length head"
  obtains len st' where "write_piece env tm stack head remain st = Done (len, st')"
    "printed tm stack st (take (unat len) head) st'" "unat len \<le> length head"
proof -
  obtain st1 where st1: "(if tty_eol st then begin_line env tm stack st else Done st) = Done st1"
    "printed tm stack st [] st1" "\<not> tty_eol st1"
  proof (cases "tty_eol st")
    case True
    obtain st' where "begin_line env tm stack st = Done st'" "printed tm stack st [] st'" "\<not> tty_eol st'"
      by (rule begin_line_prints [OF assms(1-4) True])
    with True show thesis by (intro that) simp_all
  next
    case False
    with printed_refl [OF assms(4)] show thesis by (intro that) simp_all
  qed
  let ?out = "tty_out st1" and ?c = "out_console (tty_out st1)"
  let ?nl = "find (\<lambda>j. head ! j = CHR ''\<newline>'') [0..<unat remain]"
  define len where "len = (case ?nl of None \<Rightarrow> remain | Some next \<Rightarrow> of_nat next + 1)"
  define e where "e = (?nl \<noteq> None)"
  have nl: "memchr head (CHR ''\<newline>'') remain = Done ?nl"
    by (rule memchr_find) (simp add: assms(5))
  note line = line_end [OF assms(5), folded len_def e_def]
  have ok1: "tty_ok st1" by (rule printed_ok [OF st1(2) assms(4)])
  obtain log where log: "log_append head len (out_log ?out) = Done log" "log_ok log"
    "log_size log = log_size (out_log ?out)"
    "log_text log = newest (log_text (out_log ?out)) (take (unat len) head)"
  proof -
    have "log_ok (out_log ?out)" "unat len \<le> length head" using ok1 line by (simp_all add: tty_ok_def)
    note a = log_append_text [OF this]
    have "newest old (take (unat len) head) = drop (unat len) (old @ take (unat len) head)" for old
      using line by (simp add: newest_def min_absorb2)
    then show thesis using a that by auto
  qed
  obtain t where t: "console_write (Some head) len ?c (out_io ?out) = Done t"
    "console_text t = console_text (out_io ?out) @ (if console ?c \<noteq> 0 then take (unat len) head else [])"
    by (rule console_prints [of len head]) (use line that in blast)+
  let ?st' = "st1\<lparr>tty_out := ?out\<lparr>out_log := log, out_io := t\<rparr>, tty_eol := e\<rparr>"
  have "write_piece env tm stack head remain st = Done (len, ?st')"
    using st1(1,3) nl log(1) t(1)
    by (cases ?nl) (auto simp: write_piece_def len_def e_def)
  moreover have "printed tm stack st1 (take (unat len) head) ?st'"
    using line st1(3) log(2-4) t(2) unfolding printed_def
    by (intro conjI exI [of _ "take (unat len) head"]) auto
  then have "printed tm stack st ([] @ take (unat len) head) ?st'"
    by (rule printed_trans [OF st1(2)])
  ultimately show thesis using that line by simp
qed

lemma write_loop_prints:
  assumes "timer_ok tm" "ticks_small env" "length stack = 16"
  shows "tty_ok st \<Longrightarrow> unat remain = length head \<Longrightarrow>
    \<exists>st'. write_loop env tm stack head remain st = Done st' \<and> printed tm stack st head st'"
proof (induction "length head" arbitrary: head remain st rule: less_induct)
  case less
  obtain len st1 where p: "write_piece env tm stack head remain st = Done (len, st1)"
    "printed tm stack st (take (unat len) head) st1" "unat len \<le> length head"
    by (rule write_piece_prints [OF assms less.prems])
  have r: "unat (remain - len) = length (drop (unat len) head)"
    using p(3) less.prems(2) by (simp add: unat_sub word_le_nat_alt)
  show ?case
  proof (cases "0 < remain - len")
    case True
    then have "length (drop (unat len) head) < length head"
      using write_piece_decr [OF p(1)] r less.prems(2) by simp
    from less.hyps [OF this printed_ok [OF p(2) less.prems(1)] r] obtain st2 where
      st2: "write_loop env tm stack (drop (unat len) head) (remain - len) st1 = Done st2"
      "printed tm stack st1 (drop (unat len) head) st2" by blast
    have "write_loop env tm stack head remain st = Done st2"
      using p(1) st2(1) True by (subst write_loop.simps) simp
    moreover have "printed tm stack st (take (unat len) head @ drop (unat len) head) st2"
      by (rule printed_trans [OF p(2) st2(2)])
    ultimately show ?thesis by auto
  next
    case False
    then have "drop (unat len) head = []" using r by (simp add: word_less_nat_alt)
    then have "printed tm stack st head st1" using p(2) by simp
    then show ?thesis using p(1) False by (subst write_loop.simps) simp
  qed
qed

section \<open>Vectors\<close>

text \<open>The bytes that the entries of a vector from the \<open>i\<close>th one on point to.\<close>

definition iov_bytes :: "memory \<Rightarrow> uintptr_t \<Rightarrow> nat \<Rightarrow> string" where
  "iov_bytes m vecp i =
     load_chars m (load64 m (vecp + 16 * of_nat i)) (unat (load64 m (vecp + 16 * of_nat i + 8)))"

definition vec_bytes :: "memory \<Rightarrow> uintptr_t \<Rightarrow> nat list \<Rightarrow> string" where
  "vec_bytes m vecp is = concat (map (iov_bytes m vecp) is)"

lemma length_iov_bytes: "length (iov_bytes m vecp i) = unat (load64 m (vecp + 16 * of_nat i + 8))"
  by (simp add: iov_bytes_def load_chars_def)

lemma writev_loop_prints:
  assumes "timer_ok tm" "ticks_small env" "length stack = 16" "unat vlen < 2 ^ 32"
  shows "tty_ok st \<Longrightarrow> unat i \<le> unat vlen \<Longrightarrow>
    \<exists>st'. writev_loop env tm stack m vecp vlen i ret st =
       Done (ret + of_nat (length (vec_bytes m vecp [unat i..<unat vlen])), st') \<and>
       printed tm stack st (vec_bytes m vecp [unat i..<unat vlen]) st'"
proof (induction "unat vlen - unat i" arbitrary: i ret st)
  case 0
  then have "\<not> ucast i < vlen" by (simp add: word_less_nat_alt)
  moreover have "vec_bytes m vecp [unat i..<unat vlen] = []" using 0(1) by (simp add: vec_bytes_def)
  ultimately show ?case using printed_refl [OF 0(2)] by (subst writev_loop.simps) simp
next
  case (Suc n)
  have lt: "unat i < unat vlen" using Suc(2) by simp
  then have "ucast i < vlen" by (simp add: word_less_nat_alt)
  moreover have last: "i \<noteq> 0xffffffff" using lt assms(4) by auto
  note nx = next_index [OF last]
  let ?b = "iov_bytes m vecp (unat i)" and ?l = "load64 m (vecp + 16 * of_nat (unat i) + 8)"
  have up: "(ucast i :: u64) = of_nat (unat i)" by simp
  from write_loop_prints [OF assms(1-3) Suc(3) length_iov_bytes [symmetric]] obtain st1 where
    st1: "write_loop env tm stack ?b ?l st = Done st1" "printed tm stack st ?b st1" by blast
  have n: "n = unat vlen - unat (i + 1)" "unat (i + 1) \<le> unat vlen" using Suc(2) lt nx by simp_all
  from Suc(1) [OF n(1) printed_ok [OF st1(2) Suc(3)] n(2), of "ret + ?l"] obtain st2 where
    st2: "writev_loop env tm stack m vecp vlen (i + 1) (ret + ?l) st1 =
      Done (ret + ?l + of_nat (length (vec_bytes m vecp [unat (i + 1)..<unat vlen])), st2)"
    "printed tm stack st1 (vec_bytes m vecp [unat (i + 1)..<unat vlen]) st2" by blast
  have split: "vec_bytes m vecp [unat i..<unat vlen] = ?b @ vec_bytes m vecp [unat (i + 1)..<unat vlen]"
    using lt nx by (simp add: vec_bytes_def upt_conv_Cons del: upt_Suc)
  have len: "of_nat (length ?b) = ?l" unfolding length_iov_bytes by simp
  have "writev_loop env tm stack m vecp vlen i ret st =
      Done (ret + of_nat (length (vec_bytes m vecp [unat i..<unat vlen])), st2)"
    unfolding split length_append of_nat_add len
    using \<open>ucast i < vlen\<close> last st1(1) st2(1)
    by (subst writev_loop.simps) (simp add: iov_bytes_def add.assoc)
  moreover have "printed tm stack st (vec_bytes m vecp [unat i..<unat vlen]) st2"
    unfolding split by (rule printed_trans [OF st1(2) st2(2)])
  ultimately show ?case by blast
qed

lemma tty_writev_prints:
  assumes "timer_ok tm" "ticks_small env" "length stack = 16" "unat vlen < 2 ^ 32" "tty_ok st"
  shows "\<exists>st'. tty_writev env tm stack m vecp vlen st =
      Done (of_nat (length (vec_bytes m vecp [0..<unat vlen])), st') \<and>
    printed tm stack st (vec_bytes m vecp [0..<unat vlen]) st'"
  using writev_loop_prints [OF assms(1-5), of 0 m vecp 0] by (simp add: tty_writev_def)

text \<open>C14: \<open>writev\<close> on the terminal returns the number of bytes of the vector. The console receives
  exactly these bytes with the prefix in front of each line, and the log buffer keeps the
  newest characters of the same bytes with a time stamp in front of each line; whether a line
  is under way is remembered for the next call.\<close>

theorem tty_writev_lines:
  assumes "timer_ok tm" "ticks_small env" "length stack = 16" "unat vlen < 2 ^ 32" "tty_ok st"
  shows "\<exists>st' tc tl. let s = vec_bytes m vecp [0..<unat vlen]; out = tty_out st; out' = tty_out st' in
    tty_writev env tm stack m vecp vlen st = Done (of_nat (length s), st') \<and> tty_ok st' \<and>
    marked (\<lambda>p. p = prefix_text (out_console out)) (tty_eol st) s (tty_eol st') tc \<and>
    console_text (out_io out') = console_text (out_io out) @ (if console (out_console out) \<noteq> 0 then tc else []) \<and>
    marked (is_stamp tm stack) (tty_eol st) s (tty_eol st') tl \<and>
    log_text (out_log out') = newest (log_text (out_log out)) tl"
proof -
  obtain st' where w: "tty_writev env tm stack m vecp vlen st =
      Done (of_nat (length (vec_bytes m vecp [0..<unat vlen])), st')"
    and p: "printed tm stack st (vec_bytes m vecp [0..<unat vlen]) st'"
    using tty_writev_prints [OF assms, of m vecp] by blast
  then show ?thesis using printed_ok [OF p assms(5)] unfolding printed_def Let_def by blast
qed

text \<open>An application that writes two lines at once, on a console with a prefix.\<close>

definition hello_memory :: memory where
  "hello_memory a =
     (if a = 0x101 then 2 else if a = 0x108 then 6
      else if 0x200 \<le> a \<and> a < 0x206 then of_nat (of_char (''hi\<newline>you'' ! unat (a - 0x200))) else 0)"

definition hello_tty :: tty_state where
  "hello_tty =
     \<lparr>tty_out = \<lparr>out_console = \<lparr>prefix = ''VM2: '' @ replicate 11 NUL, prefix_len = 5, console = 0x1000\<rparr>,
         out_log = early_log_buf, out_io = []\<rparr>,
      tty_eol = True\<rparr>"

theorem tty_writev_lines_witness:
  "\<exists>st'. tty_writev (\<lparr>load_value = \<lambda>t r. 1000, isr_handled = \<lambda>t. True, fuel = 0\<rparr>)
       \<lparr>timer_freq = 19200000, timespec_max_sec = 960767920453\<rparr> (replicate 16 NUL) hello_memory 0x100 1 hello_tty =
     Done (6, st') \<and> console_text (out_io (tty_out st')) = ''VM2: hi\<newline>VM2: you''"
proof -
  let ?env = "\<lparr>load_value = \<lambda>t r. 1000, isr_handled = \<lambda>t. True, fuel = 0\<rparr> :: environment"
  let ?tm = "\<lparr>timer_freq = 19200000, timespec_max_sec = 960767920453\<rparr> :: timer_state"
  have b: "vec_bytes hello_memory 0x100 [0..<unat (1 :: size_t)] = ''hi\<newline>you''"
    by code_simp
  have "timer_ok ?tm" by (simp add: timer_ok_def)
  moreover have "ticks_small ?env" by (simp add: ticks_small_def)
  moreover have ok: "tty_ok hello_tty"
    by (simp add: tty_ok_def hello_tty_def console_ok_def log_ok_def early_log_buf_def)
  ultimately obtain st' tc where w: "tty_writev ?env ?tm (replicate 16 NUL) hello_memory 0x100 1 hello_tty =
      Done (of_nat (length ''hi\<newline>you''), st')"
    "marked (\<lambda>p. p = prefix_text (out_console (tty_out hello_tty))) (tty_eol hello_tty) ''hi\<newline>you'' (tty_eol st') tc"
    "console_text (out_io (tty_out st')) = console_text (out_io (tty_out hello_tty)) @
      (if console (out_console (tty_out hello_tty)) \<noteq> 0 then tc else [])"
    using tty_writev_lines [where tm = ?tm and env = ?env and stack = "replicate 16 NUL" and vlen = 1
        and st = hello_tty and m = hello_memory and vecp = "0x100"]
    unfolding b Let_def by auto
  from w(2) have "tc = ''VM2: hi\<newline>VM2: you''"
    by (simp add: hello_tty_def prefix_text_def) (auto elim!: marked_TrueE marked_FalseE marked_NilE)
  with w(1,3) show ?thesis by (simp add: hello_tty_def console_text_def)
qed

text \<open>
  The stamp has room for six digits of seconds. After a million seconds, about eleven and a half
  days, the separator is lost, and after ten million everything from the point on.
\<close>

lemma stamp_truncated:
  "bindc (make_stamp (replicate 16 NUL) \<lparr>tv_sec = 999999, tv_nsec = 5000\<rparr>) stamp_text = Done ''999999.000005: ''"
  "bindc (make_stamp (replicate 16 NUL) \<lparr>tv_sec = 1000000, tv_nsec = 5000\<rparr>) stamp_text = Done ''1000000.000005''"
  "bindc (make_stamp (replicate 16 NUL) \<lparr>tv_sec = 10000000, tv_nsec = 5000\<rparr>) stamp_text = Done ''10000000.''"
  by code_simp+

end
