(* ===== verification/Mem.thy ===== *)
theory Mem
  imports Mmap UserMem
begin

text \<open>
  The memory device of \<^verbatim>\<open>src/mem.c\<close>: the requests of the application to add, remove and test
  heaps and to read the statistics of the allocator. The argument is the address of a
  \<open>mem_range_t\<close>, with the base at 0 and the size at 8, or of an \<open>allocator_stats_t\<close>.
\<close>

definition IOCTL_ADD_HEAP :: u32 where "IOCTL_ADD_HEAP = IOW 0x4D 0 16"
definition IOCTL_REMOVE_HEAP :: u32 where "IOCTL_REMOVE_HEAP = IOW 0x4D 1 16"
definition IOCTL_HEAP_IS_FREE :: u32 where "IOCTL_HEAP_IS_FREE = IOW 0x4D 2 16"
definition IOCTL_HEAP_GET_STATS :: u32 where "IOCTL_HEAP_GET_STATS = IOR 0x4D 3 40"

record mem_range =
  mr_base :: uintptr_t
  mr_size :: size_t

definition load_range :: "memory \<Rightarrow> uintptr_t \<Rightarrow> mem_range" where
  "load_range m a = \<lparr>mr_base = load64 m a, mr_size = load64 m (a + 8)\<rparr>"

definition mem_range_is_valid :: "uintptr_t \<Rightarrow> memory \<Rightarrow> bool outcome" where
  "mem_range_is_valid rng m =
     ensure (rng \<noteq> 0)
      (let base = mr_base (load_range m rng);
           sz = mr_size (load_range m rng)
       in Done (base \<noteq> 0 \<and> sz \<noteq> 0 \<and> util_is_baligned base PAGE_SIZE \<and>
                util_is_baligned sz PAGE_SIZE \<and> \<not> util_add_overflows base sz))"

definition mem_add_heap :: "uintptr_t \<Rightarrow> mmap_state \<Rightarrow> (int \<times> mmap_state) outcome" where
  "mem_add_heap rng st =
     bindc (mem_range_is_valid rng (mm_mem st)) (\<lambda>valid.
       let r = load_range (mm_mem st) rng
       in if valid then mmap_add_heap (mr_base r) (mr_size r) False st else Done (- EINVAL, st))"

definition mem_remove_heap :: "uintptr_t \<Rightarrow> mmap_state \<Rightarrow> (int \<times> mmap_state) outcome" where
  "mem_remove_heap rng st =
     bindc (mem_range_is_valid rng (mm_mem st)) (\<lambda>valid.
       let r = load_range (mm_mem st) rng
       in if valid then mmap_remove_heap (mr_base r) (mr_size r) st else Done (- EINVAL, st))"

definition mem_heap_is_free :: "uintptr_t \<Rightarrow> mmap_state \<Rightarrow> (int \<times> mmap_state) outcome" where
  "mem_heap_is_free rng st =
     bindc (mem_range_is_valid rng (mm_mem st)) (\<lambda>valid.
       let r = load_range (mm_mem st) rng
       in if valid then bindc (mmap_heap_is_free (mr_base r) (mr_size r) st) (\<lambda>ret. Done (ret, st))
          else Done (- EINVAL, st))"

text \<open>
  The assignments to the fields of \<open>*stats\<close>: \<open>info\<close> at 0, \<open>total\<close> at 8, \<open>allocated\<close> at 16,
  \<open>reserved\<close> at 24 and \<open>largest_free\<close> at 32.
\<close>

definition store_stats :: "uintptr_t \<Rightarrow> allocator_stats \<Rightarrow> memory \<Rightarrow> memory" where
  "store_stats a s m =
     (let m = store32 m a (as_info s);
          m = store64 m (a + 8) (as_total s);
          m = store64 m (a + 16) (as_allocated s);
          m = store64 m (a + 24) (as_reserved s)
      in store64 m (a + 32) (as_largest_free s))"

definition mem_get_stats :: "uintptr_t \<Rightarrow> mmap_state \<Rightarrow> (int \<times> mmap_state) outcome" where
  "mem_get_stats stats st =
     ensure (stats \<noteq> 0)
      (bindc (mmap_heap_get_stats st) (\<lambda>s.
         Done (0, st\<lparr>mm_mem := store_stats stats s (mm_mem st)\<rparr>)))"

definition mem_ioctl :: "u32 \<Rightarrow> uintptr_t \<Rightarrow> mmap_state \<Rightarrow> (int \<times> mmap_state) outcome" where
  "mem_ioctl cmd arg st =
     (if cmd = IOCTL_ADD_HEAP then mem_add_heap arg st
      else if cmd = IOCTL_REMOVE_HEAP then mem_remove_heap arg st
      else if cmd = IOCTL_HEAP_IS_FREE then mem_heap_is_free arg st
      else if cmd = IOCTL_HEAP_GET_STATS then mem_get_stats arg st
      else Done (- EINVAL, st))"

end
