(* ===== verification/MemSpec.thy ===== *)
theory MemSpec
  imports Mem MmapSpec
begin

text \<open>
  The requests of the memory device never stop in an assertion of the allocator: \<open>mem.c\<close> checks
  what \<open>mmap.c\<close> asserts. What each of them answers.
\<close>

section \<open>Ranges\<close>

lemma mmap_inv_mem [simp]: "mmap_inv (st\<lparr>mm_mem := m\<rparr>) = mmap_inv st"
  by (simp add: mmap_inv_def brk_ok_def mapped_pages_def)

lemma mapped_pages_mem [simp]: "mapped_pages (st\<lparr>mm_mem := m\<rparr>) = mapped_pages st"
  by (simp add: mapped_pages_def)

definition range_ok :: "mem_range \<Rightarrow> bool" where
  "range_ok r \<longleftrightarrow>
     mr_base r \<noteq> 0 \<and> mr_size r \<noteq> 0 \<and> unat (mr_base r) mod 4096 = 0 \<and> unat (mr_size r) mod 4096 = 0 \<and>
     unat (mr_base r) + unat (mr_size r) < 2 ^ 64"

lemma mem_range_is_valid_eq:
  "rng \<noteq> 0 \<Longrightarrow> mem_range_is_valid rng m = Done (range_ok (load_range m rng))"
  by (auto simp: mem_range_is_valid_def range_ok_def Let_def util_is_baligned_page util_add_overflows_iff)

lemma mem_range_null: "mem_range_is_valid 0 m = Fault AssertionFailed"
  by (simp add: mem_range_is_valid_def)

text \<open>The heap that a range names, if it is one that can be removed.\<close>

definition range_heap :: "mmap_state \<Rightarrow> mem_range \<Rightarrow> mmap_node \<Rightarrow> bool" where
  "range_heap st r node \<longleftrightarrow>
     node \<in> set (mmap_node_list st) \<and> nd_base node = mr_base r \<and> nd_size node = mr_size r \<and>
     nd_base node \<noteq> mmap_brk_node st"

lemma range_heap_unique:
  assumes "mmap_inv st" "range_heap st r node"
  shows "range_heap st r k \<longleftrightarrow> k = node"
proof
  assume "range_heap st r k"
  then show "k = node" using same_base_unique [OF assms(1), of k node] assms(2) by (simp add: range_heap_def)
qed (use assms(2) in simp)

lemma is_mmap_node_free_unknown:
  assumes "range_ok r" "\<nexists>node. range_heap st r node"
  shows "is_mmap_node_free (mr_base r) (mr_size r) st = Done (- EINVAL, None)"
proof -
  have "\<forall>node \<in> set (mmap_node_list st).
      nd_base node \<noteq> mr_base r \<or> nd_size node \<noteq> mr_size r \<or> nd_base node = mmap_brk_node st"
    using assms(2) by (auto simp: range_heap_def)
  then have "mmap_remove_heap (mr_base r) (mr_size r) st = Done (- EINVAL, st)"
    using remove_heap_unknown [of "mr_size r" "mr_base r" st] assms(1) by (simp add: range_ok_def)
  then show ?thesis
    by (auto simp: mmap_remove_heap_def is_mmap_node_free_def outcome_Done split: option.splits if_splits)
qed

text \<open>What the test of a heap answers.\<close>

definition heap_answer :: "mmap_state \<Rightarrow> mem_range \<Rightarrow> int" where
  "heap_answer st r =
     (if \<not> range_ok r \<or> (\<nexists>node. range_heap st r node) then - EINVAL
      else if \<exists>node. range_heap st r node \<and> node_pages_mapped st node \<noteq> {} then - EBUSY else 0)"

lemma heap_answer_node:
  assumes "range_ok r" "\<And>k. range_heap st r k \<longleftrightarrow> k = node"
  shows "heap_answer st r = (if node_pages_mapped st node = {} then 0 else - EBUSY)"
  using assms by (simp add: heap_answer_def)

lemma mem_heap_is_free_eq:
  assumes "mmap_inv st" "rng \<noteq> 0"
  shows "mem_heap_is_free rng st = Done (heap_answer st (load_range (mm_mem st) rng), st)"
proof -
  let ?r = "load_range (mm_mem st) rng"
  consider "\<not> range_ok ?r" | "range_ok ?r" "\<nexists>node. range_heap st ?r node"
    | node where "range_ok ?r" "range_heap st ?r node" by blast
  then show ?thesis
  proof cases
    case 1
    then show ?thesis
      by (simp add: mem_heap_is_free_def mem_range_is_valid_eq [OF assms(2)] heap_answer_def)
  next
    case 2
    then show ?thesis
      using is_mmap_node_free_unknown [OF 2]
      by (simp add: mem_heap_is_free_def mem_range_is_valid_eq [OF assms(2)] heap_answer_def
          mmap_heap_is_free_def)
  next
    case 3
    then have n: "node \<in> set (mmap_node_list st)" "nd_base node \<noteq> mmap_brk_node st"
      "nd_base node = mr_base ?r" "nd_size node = mr_size ?r" by (auto simp: range_heap_def)
    note uniq = range_heap_unique [OF assms(1) 3(2)]
    have "is_mmap_node_free (mr_base ?r) (mr_size ?r) st =
        (if node_pages_mapped st node = {} then Done (0, Some node) else Done (- EBUSY, None))"
      using is_mmap_node_free_eq [OF assms(1) n(1,2)] unfolding n(3,4) .
    moreover note heap_answer_node [OF 3(1) uniq]
    ultimately show ?thesis using 3(1)
      by (simp add: mem_heap_is_free_def mem_range_is_valid_eq [OF assms(2)] mmap_heap_is_free_def)
  qed
qed

lemma mem_remove_heap_eq:
  assumes "mmap_inv st" "rng \<noteq> 0"
  shows "\<exists>st'. mem_remove_heap rng st = Done (heap_answer st (load_range (mm_mem st) rng), st') \<and>
    mmap_inv st' \<and> mapped_pages st' = mapped_pages st \<and>
    (if heap_answer st (load_range (mm_mem st) rng) = 0
     then \<nexists>node. range_heap st' (load_range (mm_mem st) rng) node else st' = st)"
proof -
  let ?r = "load_range (mm_mem st) rng"
  note def = mem_remove_heap_def mem_range_is_valid_eq [OF assms(2)]
  consider "\<not> range_ok ?r" | "range_ok ?r" "\<nexists>node. range_heap st ?r node"
    | node where "range_ok ?r" "range_heap st ?r node" by blast
  then show ?thesis
  proof cases
    case 1
    then show ?thesis using assms(1) by (simp add: def heap_answer_def)
  next
    case 2
    then show ?thesis using is_mmap_node_free_unknown [OF 2] assms(1)
      by (simp add: def heap_answer_def mmap_remove_heap_def)
  next
    case 3
    then have n: "node \<in> set (mmap_node_list st)" "nd_base node \<noteq> mmap_brk_node st"
      "nd_base node = mr_base ?r" "nd_size node = mr_size ?r" by (auto simp: range_heap_def)
    note uniq = range_heap_unique [OF assms(1) 3(2)]
    show ?thesis
    proof (cases "node_pages_mapped st node = {}")
      case True
      obtain st' where st': "mmap_remove_heap (nd_base node) (nd_size node) st = Done (0, st')" "mmap_inv st'"
        "mapped_pages st' = mapped_pages st" "mmap_node_list st' = remove1 node (mmap_node_list st)"
        "node \<notin> set (mmap_node_list st')"
        using remove_heap_free [OF assms(1) n(1,2) True] by blast
      have "\<not> range_heap st' ?r k" for k
      proof
        assume k: "range_heap st' ?r k"
        then have "k \<in> set (mmap_node_list st)" using st'(4) set_remove1_subset by (fastforce simp: range_heap_def)
        then have "k = node" using same_base_unique [OF assms(1) _ n(1)] k n(3) by (simp add: range_heap_def)
        with k st'(5) show False by (simp add: range_heap_def)
      qed
      moreover have "mmap_remove_heap (mr_base ?r) (mr_size ?r) st = Done (0, st')"
        using st'(1) unfolding n(3,4) .
      moreover note heap_answer_node [OF 3(1) uniq]
      ultimately show ?thesis using st'(2,3) 3(1) True by (simp add: def)
    next
      case False
      have "mmap_remove_heap (mr_base ?r) (mr_size ?r) st = Done (- EBUSY, st)"
        using remove_heap_busy [OF assms(1) n(1,2) False] unfolding n(3,4) .
      moreover note heap_answer_node [OF 3(1) uniq]
      ultimately show ?thesis using False assms(1) 3(1) by (simp add: def)
    qed
  qed
qed

lemma mem_add_heap_eq:
  assumes "mmap_inv st" "rng \<noteq> 0"
  defines "r \<equiv> load_range (mm_mem st) rng"
  assumes "range_ok r \<Longrightarrow> new_heap (mr_base r) (mr_size r) st"
  shows "\<exists>st'. mem_add_heap rng st =
      Done (if \<not> range_ok r then - EINVAL else if mr_size r \<le> aligned_meta (mr_size r) then - ENOMEM else 0, st') \<and>
    mmap_inv st' \<and> mapped_pages st' = mapped_pages st \<and>
    (\<not> range_ok r \<or> mr_size r \<le> aligned_meta (mr_size r) \<longrightarrow> st' = st)"
proof -
  note def = mem_add_heap_def mem_range_is_valid_eq [OF assms(2), of "mm_mem st", folded r_def] r_def [symmetric]
  consider "\<not> range_ok r" | "range_ok r" "mr_size r \<le> aligned_meta (mr_size r)"
    | "range_ok r" "aligned_meta (mr_size r) < mr_size r" by fastforce
  then show ?thesis
  proof cases
    case 1
    then show ?thesis using assms(1) by (simp add: def)
  next
    case 2
    then show ?thesis using add_heap_small [OF assms(4) [OF 2(1)] 2(2)] assms(1) by (simp add: def)
  next
    case 3
    note heap = assms(4) [OF 3(1)]
    obtain st' where "mmap_add_heap (mr_base r) (mr_size r) False st = Done (0, st')" "mmap_inv st'"
      "mapped_pages st' = mapped_pages st"
      using add_heap_plain [OF assms(1) heap 3(2) new_heap_not_brk [OF assms(1) heap]] by blast
    then show ?thesis using 3 by (simp add: def)
  qed
qed

lemma mem_get_stats_eq:
  assumes "mmap_inv st" "arg \<noteq> 0"
  shows "\<exists>stats m. mmap_heap_get_stats st = Done stats \<and>
    mem_get_stats arg st = Done (0, st\<lparr>mm_mem := m\<rparr>) \<and>
    load64 m (arg + 8) = as_total stats \<and> load64 m (arg + 16) = as_allocated stats \<and>
    load64 m (arg + 24) = as_reserved stats \<and> load64 m (arg + 32) = as_largest_free stats"
proof -
  obtain stats where s: "mmap_heap_get_stats st = Done stats"
    using mmap_heap_get_stats_eq [OF assms(1)] by metis
  let ?m = "store_stats arg stats (mm_mem st)"
  have "load64 ?m (arg + 8) = as_total stats" "load64 ?m (arg + 16) = as_allocated stats"
    "load64 ?m (arg + 24) = as_reserved stats" "load64 ?m (arg + 32) = as_largest_free stats"
    by (simp_all add: store_stats_def Let_def load64_store64 load64_store64_other)
  then show ?thesis using s assms(2) by (auto simp: mem_get_stats_def)
qed

lemma mem_requests_distinct:
  "IOCTL_ADD_HEAP \<noteq> IOCTL_REMOVE_HEAP" "IOCTL_ADD_HEAP \<noteq> IOCTL_HEAP_IS_FREE"
  "IOCTL_ADD_HEAP \<noteq> IOCTL_HEAP_GET_STATS" "IOCTL_REMOVE_HEAP \<noteq> IOCTL_HEAP_IS_FREE"
  "IOCTL_REMOVE_HEAP \<noteq> IOCTL_HEAP_GET_STATS" "IOCTL_HEAP_IS_FREE \<noteq> IOCTL_HEAP_GET_STATS"
  by code_simp+

lemmas mem_requests_neq = mem_requests_distinct mem_requests_distinct [symmetric]

section \<open>Properties of the memory device\<close>

lemma mem_ioctl_answers:
  assumes "mmap_inv st" "arg \<noteq> 0"
  defines "r \<equiv> load_range (mm_mem st) arg"
  assumes "cmd = IOCTL_ADD_HEAP \<Longrightarrow> range_ok r \<Longrightarrow> new_heap (mr_base r) (mr_size r) st"
  shows "\<exists>ret st'. mem_ioctl cmd arg st = Done (ret, st') \<and> mmap_inv st' \<and>
    mapped_pages st' = mapped_pages st \<and> (ret \<noteq> 0 \<longrightarrow> st' = st) \<and>
    (cmd = IOCTL_ADD_HEAP \<longrightarrow> ret = (if \<not> range_ok r then - EINVAL
       else if mr_size r \<le> aligned_meta (mr_size r) then - ENOMEM else 0)) \<and>
    (cmd = IOCTL_REMOVE_HEAP \<longrightarrow> ret = heap_answer st r \<and>
       (ret = 0 \<longrightarrow> (\<nexists>node. range_heap st' r node))) \<and>
    (cmd = IOCTL_HEAP_IS_FREE \<longrightarrow> ret = heap_answer st r \<and> st' = st) \<and>
    (cmd = IOCTL_HEAP_GET_STATS \<longrightarrow> ret = 0 \<and>
       (\<exists>stats. mmap_heap_get_stats st = Done stats \<and>
          load64 (mm_mem st') (arg + 8) = as_total stats \<and>
          load64 (mm_mem st') (arg + 16) = as_allocated stats \<and>
          load64 (mm_mem st') (arg + 24) = as_reserved stats \<and>
          load64 (mm_mem st') (arg + 32) = as_largest_free stats)) \<and>
    (cmd \<notin> {IOCTL_ADD_HEAP, IOCTL_REMOVE_HEAP, IOCTL_HEAP_IS_FREE, IOCTL_HEAP_GET_STATS} \<longrightarrow>
       ret = - EINVAL)"
proof -
  note d = mem_requests_neq
  consider "cmd = IOCTL_ADD_HEAP" | "cmd = IOCTL_REMOVE_HEAP" | "cmd = IOCTL_HEAP_IS_FREE"
    | "cmd = IOCTL_HEAP_GET_STATS"
    | "cmd \<notin> {IOCTL_ADD_HEAP, IOCTL_REMOVE_HEAP, IOCTL_HEAP_IS_FREE, IOCTL_HEAP_GET_STATS}" by blast
  then show ?thesis
  proof cases
    case 1
    with mem_add_heap_eq [OF assms(1,2)] assms(4) show ?thesis
      unfolding r_def using d by (auto simp: mem_ioctl_def)
  next
    case 2
    with mem_remove_heap_eq [OF assms(1,2)] show ?thesis
      unfolding r_def using d by (auto simp: mem_ioctl_def split: if_splits)
  next
    case 3
    with mem_heap_is_free_eq [OF assms(1,2)] assms(1) show ?thesis
      unfolding r_def using d by (simp add: mem_ioctl_def)
  next
    case 4
    from mem_get_stats_eq [OF assms(1,2)] obtain stats m where "mmap_heap_get_stats st = Done stats"
      "mem_get_stats arg st = Done (0, st\<lparr>mm_mem := m\<rparr>)"
      "load64 m (arg + 8) = as_total stats" "load64 m (arg + 16) = as_allocated stats"
      "load64 m (arg + 24) = as_reserved stats" "load64 m (arg + 32) = as_largest_free stats" by blast
    moreover from this(2) have "mem_ioctl cmd arg st = Done (0, st\<lparr>mm_mem := m\<rparr>)"
      using 4 d by (simp add: mem_ioctl_def)
    moreover have "cmd \<noteq> IOCTL_ADD_HEAP" "cmd \<noteq> IOCTL_REMOVE_HEAP" "cmd \<noteq> IOCTL_HEAP_IS_FREE"
      using 4 d by simp_all
    ultimately show ?thesis using assms(1) 4 by auto
  next
    case 5
    then show ?thesis using assms(1) by (simp add: mem_ioctl_def)
  qed
qed


text \<open>Two heaps, and the range of the second one in memory at \<open>0x10\<close>.\<close>

definition range_in_memory :: mmap_state where
  "range_in_memory =
     two_heaps\<lparr>mm_mem := store64 (store64 (mm_mem two_heaps) 0x10 0x200000) 0x18 0x8000\<rparr>"


end
