(* ===== verification/Runtime.thy ===== *)
theory Runtime
  imports Tty Fs Mem ExitDev
begin

unbundle bit_operations_syntax

text \<open>
  The runtime as a whole: the static variables of all components in one record, the end of the
  application (\<^verbatim>\<open>src/exit.c\<close>, \<open>panic\<close>, \<open>assert_failed\<close>), the calls on open files
  (\<^verbatim>\<open>src/ioctl.c\<close>, \<^verbatim>\<open>src/read_write.c\<close>), the remaining system calls
  (\<^verbatim>\<open>src/syscall.c\<close>) and their dispatch (\<^verbatim>\<open>arch/armv8/src/syscall.c\<close>).
\<close>

section \<open>State\<close>

text \<open>
  One trace records what the runtime does to the outside, the field \<open>io\<close> of the interrupt
  state. The memory of the application is the field \<open>mm_mem\<close> of the allocator's state. The
  allocator notes its messages in \<open>mm_logs\<close>; the wrapper \<open>mm_call\<close> prints them.
\<close>

record runtime =
  rt_mm :: mmap_state
  rt_irq :: irq_state
  rt_timer :: timer_state
  rt_console :: console_state
  rt_log :: log_s
  rt_exit :: exit_state
  rt_fs :: fs_state
  rt_eol :: bool

text \<open>
  What comes from the headers of the C library of the build: the numbers of the system calls,
  two constants of \<^verbatim>\<open>time.h\<close>, and the layout of \<open>struct timespec\<close>.
\<close>

record libc =
  lc_fcntl :: fcntl
  SYS_writev :: register_t
  SYS_ppoll :: register_t
  SYS_clock_nanosleep :: register_t
  SYS_ioctl :: register_t
  SYS_openat :: register_t
  SYS_close :: register_t
  SYS_brk :: register_t
  SYS_mmap :: register_t
  SYS_munmap :: register_t
  SYS_set_tid_address :: register_t
  SYS_tkill :: register_t
  SYS_exit :: register_t
  SYS_exit_group :: register_t
  CLOCK_MONOTONIC :: int
  TIMER_ABSTIME :: int
  load_timespec :: "memory \<Rightarrow> uintptr_t \<Rightarrow> timespec"
  store_timespec :: "timespec \<Rightarrow> uintptr_t \<Rightarrow> memory \<Rightarrow> memory"

text \<open>
  The rest of the world: the devices, the C library, and the bytes found on the stack where
  \<open>log_msg\<close> and \<open>tty_writev\<close> put their buffers.
\<close>

record platform =
  pf_env :: environment
  pf_libc :: libc
  pf_tmp_log :: string
  pf_stamp :: string

text \<open>A call returns a value, or the application has ended and the processor waits for ever.\<close>

datatype 'a completion = Returned 'a runtime | Halted runtime

definition rt_mem :: "runtime \<Rightarrow> memory" where
  "rt_mem st = mm_mem (rt_mm st)"

definition rt_out :: "runtime \<Rightarrow> log_out" where
  "rt_out st = \<lparr>out_console = rt_console st, out_log = rt_log st, out_io = io (rt_irq st)\<rparr>"

definition set_out :: "log_out \<Rightarrow> runtime \<Rightarrow> runtime" where
  "set_out out st =
     st\<lparr>rt_console := out_console out, rt_log := out_log out, rt_irq := (rt_irq st)\<lparr>io := out_io out\<rparr>\<rparr>"

definition rt_print :: "platform \<Rightarrow> log_call list \<Rightarrow> runtime \<Rightarrow> runtime outcome" where
  "rt_print pf cs st = bindc (log_calls (pf_tmp_log pf) cs (rt_out st)) (\<lambda>out. Done (set_out out st))"

text \<open>A call of the allocator, with the messages it prints.\<close>

definition mm_call ::
  "platform \<Rightarrow> (mmap_state \<Rightarrow> ('a \<times> mmap_state) outcome) \<Rightarrow> runtime \<Rightarrow> ('a \<times> runtime) outcome" where
  "mm_call pf f st =
     bindc (f (rt_mm st)) (\<lambda>(ret, mm).
     bindc (rt_print pf (mm_logs mm) (st\<lparr>rt_mm := mm\<lparr>mm_logs := []\<rparr>\<rparr>)) (\<lambda>st. Done (ret, st)))"

section \<open>The end of the application\<close>

text \<open>The state is the one after the first round of the endless loop.\<close>

definition exit_loop :: "platform \<Rightarrow> int \<Rightarrow> runtime \<Rightarrow> 'a completion outcome" where
  "exit_loop pf ec st =
     bindc (rt_print pf [(''sys_exit/sys_exit_group: called\<newline>'', [])] st) (\<lambda>st.
       let t = platform_irq_disable_all (io (rt_irq st));
           t = exit_trigger ec (rt_exit st) t
       in Done (Halted (st\<lparr>rt_irq := (rt_irq st)\<lparr>io := Wfe # t\<rparr>\<rparr>)))"

definition sys_exit :: "platform \<Rightarrow> int \<Rightarrow> runtime \<Rightarrow> 'a completion outcome" where
  "sys_exit pf ec st = exit_loop pf ec st"

definition sys_exit_group :: "platform \<Rightarrow> int \<Rightarrow> runtime \<Rightarrow> 'a completion outcome" where
  "sys_exit_group pf ec st = exit_loop pf ec st"

text \<open>\<open>return_to\<close> and \<open>frame\<close> are the values of the two builtins.\<close>

definition panic ::
  "platform \<Rightarrow> string \<Rightarrow> register_t \<Rightarrow> register_t \<Rightarrow> runtime \<Rightarrow> 'a completion outcome" where
  "panic pf str return_to frame st =
     bindc (rt_print pf [(''Panic: {:s} from PC {:#x}, FP {:#x}\<newline>'',
              [LogStr str, LogNum return_to, LogNum frame])] st)
       (sys_exit pf 1)"

definition assert_failed ::
  "platform \<Rightarrow> string \<Rightarrow> int \<Rightarrow> string \<Rightarrow> string \<Rightarrow> register_t \<Rightarrow> register_t \<Rightarrow> runtime \<Rightarrow>
     'a completion outcome" where
  "assert_failed pf pfile line func err return_to frame st =
     bindc (rt_print pf [(''assertion: {:s} in func({:s}) file({:s}:{:d})\<newline>'',
              [LogStr err, LogStr func, LogStr pfile, LogNum (of_int line)])] st)
       (panic pf ''Failure for assertion\<newline>'' return_to frame)"

section \<open>Calls on open files\<close>

text \<open>The tables \<open>fs_ops\<close> of the files: only the terminal's output has \<open>writev\<close>, all have \<open>ioctl\<close>.\<close>

fun has_writev :: "file_s \<Rightarrow> bool" where
  "has_writev Ttyout = True"
| "has_writev _ = False"

fun has_ioctl :: "file_s \<Rightarrow> bool" where
  "has_ioctl _ = True"

text \<open>The call through \<open>f->ops->ioctl\<close>.\<close>

fun file_ioctl :: "platform \<Rightarrow> file_s \<Rightarrow> u32 \<Rightarrow> uintptr_t \<Rightarrow> runtime \<Rightarrow> (int \<times> runtime) outcome" where
  "file_ioctl pf Irq_file cmd arg st =
     bindc (interrupt_ioctl (pf_env pf) (rt_mem st) cmd arg (rt_irq st)) (\<lambda>(ret, irq).
       Done (ret, st\<lparr>rt_irq := irq\<rparr>))"
| "file_ioctl pf Console_file cmd arg st =
     bindc (console_ioctl (rt_mem st) cmd arg (rt_console st)) (\<lambda>(ret, c).
       Done (ret, st\<lparr>rt_console := c\<rparr>))"
| "file_ioctl pf Exit_file cmd arg st =
     (let (ret, e) = exit_ioctl (rt_mem st) cmd arg (rt_exit st) in Done (ret, st\<lparr>rt_exit := e\<rparr>))"
| "file_ioctl pf Mem_file cmd arg st = mm_call pf (mem_ioctl cmd arg) st"
| "file_ioctl pf _ cmd arg st =
     bindc (tty_ioctl (pf_tmp_log pf) cmd arg (rt_mem st) (rt_out st)) (\<lambda>(ret, m, out).
       Done (ret, set_out out (st\<lparr>rt_mm := (rt_mm st)\<lparr>mm_mem := m\<rparr>\<rparr>)))"

definition sys_ioctl ::
  "platform \<Rightarrow> u32 \<Rightarrow> u32 \<Rightarrow> uintptr_t \<Rightarrow> runtime \<Rightarrow> (int \<times> runtime) outcome" where
  "sys_ioctl pf fd cmd arg st =
     bindc (fs_lookup_file fd (rt_fs st)) (\<lambda>fp.
       case fp of
         None \<Rightarrow> Done (- EBADF, st)
       | Some p \<Rightarrow>
           (case fp_file p of
              None \<Rightarrow> Fault AssertionFailed
            | Some f \<Rightarrow>
                if \<not> has_ioctl f then Done (- EINVAL, st) else file_ioctl pf f cmd arg st))"

text \<open>The result is an \<open>int64_t\<close>, here as the word of its bits.\<close>

definition sys_writev ::
  "platform \<Rightarrow> u32 \<Rightarrow> uintptr_t \<Rightarrow> size_t \<Rightarrow> runtime \<Rightarrow> (u64 \<times> runtime) outcome" where
  "sys_writev pf fd vec vlen st =
     bindc (fs_lookup_file fd (rt_fs st)) (\<lambda>fp.
       case fp of
         None \<Rightarrow> Done (of_int (- EBADF), st)
       | Some p \<Rightarrow>
           if fp_flags p AND FS_WRITE = 0 then Done (of_int (- EBADF), st)
           else
             (case fp_file p of
                None \<Rightarrow> Fault AssertionFailed
              | Some f \<Rightarrow>
                  if \<not> has_writev f then Done (of_int (- EINVAL), st)
                  else
                    bindc (tty_writev (pf_env pf) (rt_timer st) (pf_stamp pf) (rt_mem st) vec vlen
                            \<lparr>tty_out = rt_out st, tty_eol = rt_eol st\<rparr>) (\<lambda>(ret, tty).
                      Done (ret, set_out (tty_out tty) (st\<lparr>rt_eol := tty_eol tty\<rparr>)))))"

section \<open>The remaining system calls\<close>

abbreviation (input) "APP_TID \<equiv> (1234 :: int)"

definition sys_set_tid_address :: "uintptr_t \<Rightarrow> int" where
  "sys_set_tid_address tid_ptr = APP_TID"

text \<open>\<open>remain\<close> is the address for the remaining time, 0 for none.\<close>

definition wait_for ::
  "platform \<Rightarrow> bool \<Rightarrow> uintptr_t \<Rightarrow> uintptr_t \<Rightarrow> runtime \<Rightarrow> (int \<times> runtime) outcome" where
  "wait_for pf relative req remain st =
     bindc (timer_set_and_wait (pf_env pf) (rt_timer st) relative
              (load_timespec (pf_libc pf) (rt_mem st) req) (remain \<noteq> 0) (rt_irq st)) (\<lambda>(ret, ts, irq).
       Done (ret, (case ts of
                     None \<Rightarrow> st
                   | Some t \<Rightarrow>
                       st\<lparr>rt_mm := (rt_mm st)\<lparr>mm_mem := store_timespec (pf_libc pf) t remain (rt_mem st)\<rparr>\<rparr>)
                  \<lparr>rt_irq := irq\<rparr>))"

definition sys_ppoll ::
  "platform \<Rightarrow> uintptr_t \<Rightarrow> u32 \<Rightarrow> uintptr_t \<Rightarrow> uintptr_t \<Rightarrow> size_t \<Rightarrow> runtime \<Rightarrow> (int \<times> runtime) outcome" where
  "sys_ppoll pf ufds nfds timeout sigmask sigsetsize st =
     (if nfds \<noteq> 0 then Done (- EINVAL, st)
      else if timeout \<noteq> 0 then wait_for pf True timeout 0 st
      else
        bindc (interrupt_wait (pf_env pf) (rt_irq st)) (\<lambda>(pending, irq).
          Done (- EINTR, st\<lparr>rt_irq := irq\<rparr>)))"

definition sys_clock_nanosleep ::
  "platform \<Rightarrow> int \<Rightarrow> int \<Rightarrow> uintptr_t \<Rightarrow> uintptr_t \<Rightarrow> runtime \<Rightarrow> (int \<times> runtime) outcome" where
  "sys_clock_nanosleep pf clock_id flags request remain st =
     (if clock_id \<noteq> CLOCK_MONOTONIC (pf_libc pf) then Done (- EINVAL, st)
      else if flags = 0 then wait_for pf True request remain st
      else if flags = TIMER_ABSTIME (pf_libc pf) then wait_for pf False request 0 st
      else Done (- EINVAL, st))"

definition sys_tkill :: "platform \<Rightarrow> int \<Rightarrow> int \<Rightarrow> runtime \<Rightarrow> int completion outcome" where
  "sys_tkill pf tid sig st =
     (if tid = APP_TID then sys_exit pf 1 st else Done (Returned (- EINVAL) st))"

section \<open>Dispatch\<close>

text \<open>
  The conversions of the arguments: \<open>(uint32_t)\<close> is \<open>ucast\<close>, \<open>(int32_t)\<close> the signed reading of
  the low half. \<open>int32_t\<close> results are sign-extended.
\<close>

definition int32_of :: "register_t \<Rightarrow> int" where
  "int32_of r = sint (ucast r :: u32)"

definition answer :: "(int \<times> runtime) outcome \<Rightarrow> register_t completion outcome" where
  "answer r = bindc r (\<lambda>(ret, st). Done (Returned (of_int ret) st))"

definition answer_word :: "(u64 \<times> runtime) outcome \<Rightarrow> register_t completion outcome" where
  "answer_word r = bindc r (\<lambda>(ret, st). Done (Returned ret st))"

text \<open>
  The path of \<open>openat\<close> is a C string in memory. It is only compared with strings of at most 12
  characters, so its first 16 characters decide.
\<close>

definition aarch64_do_syscall ::
  "platform \<Rightarrow> register_t \<Rightarrow> register_t \<Rightarrow> register_t \<Rightarrow> register_t \<Rightarrow> register_t \<Rightarrow> register_t \<Rightarrow>
     register_t \<Rightarrow> runtime \<Rightarrow> register_t completion outcome" where
  "aarch64_do_syscall pf arg0 arg1 arg2 arg3 arg4 arg5 sys_num st =
     (let lc = pf_libc pf in
      if sys_num = SYS_writev lc then answer_word (sys_writev pf (ucast arg0) arg1 arg2 st)
      else if sys_num = SYS_ppoll lc then
        answer (sys_ppoll pf arg0 (ucast arg1) arg2 arg3 arg4 st)
      else if sys_num = SYS_clock_nanosleep lc then
        answer (sys_clock_nanosleep pf (int32_of arg0) (int32_of arg1) arg2 arg3 st)
      else if sys_num = SYS_ioctl lc then answer (sys_ioctl pf (ucast arg0) (ucast arg1) arg2 st)
      else if sys_num = SYS_openat lc then
        answer (bindc (sys_openat (lc_fcntl lc) (int32_of arg0) (c_string_at (rt_mem st) arg1 16)
                        (ucast arg2) (ucast arg3) (rt_fs st))
                 (\<lambda>(ret, fs). Done (ret, st\<lparr>rt_fs := fs\<rparr>)))
      else if sys_num = SYS_close lc then
        answer (bindc (sys_close (ucast arg0) (rt_fs st)) (\<lambda>(ret, fs). Done (ret, st\<lparr>rt_fs := fs\<rparr>)))
      else if sys_num = SYS_brk lc then answer_word (mm_call pf (\<lambda>mm. Done (sys_brk arg0 mm)) st)
      else if sys_num = SYS_mmap lc then
        answer_word (mm_call pf (sys_mmap arg0 arg1 (ucast arg2) (ucast arg3) (int32_of arg4) arg5) st)
      else if sys_num = SYS_munmap lc then answer (mm_call pf (sys_munmap arg0 arg1) st)
      else if sys_num = SYS_set_tid_address lc then
        Done (Returned (of_int (sys_set_tid_address arg0)) st)
      else if sys_num = SYS_tkill lc then
        bindc (sys_tkill pf (int32_of arg0) (int32_of arg1) st) (\<lambda>c.
          case c of Returned ret st \<Rightarrow> Done (Returned (of_int ret) st) | Halted st \<Rightarrow> Done (Halted st))
      else if sys_num = SYS_exit lc then sys_exit pf (int32_of arg0) st
      else if sys_num = SYS_exit_group lc then sys_exit_group pf (int32_of arg0) st
      else
        bindc (rt_print pf [(''Unhandled syscall {:d}\<newline>'', [LogNum sys_num])] st) (\<lambda>st.
          Done (Returned (of_int (- ENOSYS)) st)))"

end
