(* ===== verification/RuntimeSpec.thy ===== *)
theory RuntimeSpec
  imports Runtime TtySpec MemSpec FsSpec
begin

unbundle bit_operations_syntax

text \<open>
  The invariant of the whole runtime and its preservation by the system calls: each component
  keeps its own part, whatever the arguments are, and the calls that can stop in an assertion
  or access an object out of bounds are named.
\<close>

section \<open>The invariant\<close>

definition rt_ok :: "runtime \<Rightarrow> bool" where
  "rt_ok st \<longleftrightarrow>
     mmap_inv (rt_mm st) \<and> mm_logs (rt_mm st) = [] \<and> timer_ok (rt_timer st) \<and>
     console_ok (rt_console st) \<and> log_ok (rt_log st) \<and> fs_ok (rt_fs st)"

definition pf_ok :: "platform \<Rightarrow> bool" where
  "pf_ok pf \<longleftrightarrow> ticks_small (pf_env pf) \<and> length (pf_tmp_log pf) = 256 \<and> length (pf_stamp pf) = 16"

lemmas rt_defs = rt_ok_def set_out_def rt_out_def rt_mem_def

section \<open>Printing\<close>

definition plain_logs :: "log_call list \<Rightarrow> bool" where
  "plain_logs cs \<longleftrightarrow> list_all (\<lambda>c. no_side_align (fst c)) cs"

lemma plain_logs_simps [simp]: "plain_logs []" "plain_logs (c # cs) \<longleftrightarrow> no_side_align (fst c) \<and> plain_logs cs"
  "plain_logs (cs @ ds) \<longleftrightarrow> plain_logs cs \<and> plain_logs ds"
  by (simp_all add: plain_logs_def)

lemma rt_print_ok:
  assumes "pf_ok pf" "rt_ok st" "plain_logs cs"
  obtains st' where "rt_print pf cs st = Done st'" "rt_ok st'" "rt_mm st' = rt_mm st" "rt_exit st' = rt_exit st"
proof -
  have "list_all (\<lambda>c. no_side_align (fst c)) cs" "length (pf_tmp_log pf) = 256" "log_ok (out_log (rt_out st))"
    using assms by (simp_all add: plain_logs_def pf_ok_def rt_defs)
  from log_calls_done [OF this] obtain out where "log_calls (pf_tmp_log pf) cs (rt_out st) = Done out"
    "log_ok (out_log out)" "out_console out = rt_console st"
    by (auto simp: rt_out_def)
  then show thesis using assms(2) by (intro that [of "set_out out st"]) (auto simp: rt_print_def rt_defs)
qed

lemma rt_print_done: "rt_print pf cs st = Done st' \<Longrightarrow> pf_ok pf \<Longrightarrow> rt_ok st \<Longrightarrow> plain_logs cs \<Longrightarrow> rt_ok st'"
  by (erule rt_print_ok [of pf st cs]) auto

section \<open>The allocator\<close>

lemma mm_call_done:
  assumes "pf_ok pf" "rt_ok st" "f (rt_mm st) = Done (ret, mm)" "mmap_inv mm" "plain_logs (mm_logs mm)"
  shows "\<exists>st'. mm_call pf f st = Done (ret, st') \<and> rt_ok st'"
proof -
  have "rt_ok (st\<lparr>rt_mm := mm\<lparr>mm_logs := []\<rparr>\<rparr>)" using assms(2,4) by (simp add: rt_ok_def)
  then obtain st' where "rt_print pf (mm_logs mm) (st\<lparr>rt_mm := mm\<lparr>mm_logs := []\<rparr>\<rparr>) = Done st'" "rt_ok st'"
    by (rule rt_print_ok [OF assms(1) _ assms(5)])
  then show ?thesis using assms(3) by (simp add: mm_call_def)
qed

lemma mm_call_keeps:
  assumes "pf_ok pf" "rt_ok st" "mm_call pf f st = Done (ret, st')"
    "\<And>mm. f (rt_mm st) = Done (ret, mm) \<Longrightarrow> mmap_inv mm \<and> plain_logs (mm_logs mm)"
  shows "rt_ok st'"
proof -
  obtain mm where mm: "f (rt_mm st) = Done (ret, mm)"
    using assms(3) by (auto simp: mm_call_def outcome_Done)
  with mm_call_done [of pf st f ret mm] assms show ?thesis by auto
qed

lemma alloc_plain: "alloc_mmap len mm = Done (r, mm') \<Longrightarrow> plain_logs (mm_logs mm) \<Longrightarrow> plain_logs (mm_logs mm')"
  by (auto simp: alloc_mmap_def finish_alloc_def outcome_Done mm_log_def no_side_align_def Let_def
      split: if_splits option.splits)

lemma sys_mmap_plain:
  "sys_mmap addr len prot flags fd off mm = Done (r, mm') \<Longrightarrow> plain_logs (mm_logs mm) \<Longrightarrow>
    plain_logs (mm_logs mm')"
  by (auto simp: sys_mmap_def mm_log_def no_side_align_def split: if_splits dest: alloc_plain)

lemma sys_brk_plain: "plain_logs (mm_logs mm) \<Longrightarrow> plain_logs (mm_logs (snd (sys_brk brk mm)))"
  by (auto simp: sys_brk_def mm_log_def no_side_align_def Let_def)

lemma sys_munmap_logs: "sys_munmap addr len mm = Done (r, mm') \<Longrightarrow> mm_logs mm' = mm_logs mm"
  by (auto simp: sys_munmap_def free_mmap_def outcome_Done split: if_splits option.splits)

lemma mem_ioctl_logs: "mem_ioctl cmd arg mm = Done (r, mm') \<Longrightarrow> mm_logs mm' = mm_logs mm"
  by (auto simp: mem_ioctl_def mem_add_heap_def mmap_add_heap_def mem_remove_heap_def mmap_remove_heap_def
      mem_heap_is_free_def mem_get_stats_def outcome_Done Let_def split: if_splits option.splits)

section \<open>Open files\<close>

lemma c_string_at_ok: "c_string (c_string_at m a n)" "length (c_string_at m a n) \<le> n"
  using length_takeWhile_le [of "\<lambda>c. c \<noteq> NUL" "load_chars m a n"]
  by (auto simp: c_string_at_def c_string_def load_chars_def dest: set_takeWhileD)

lemma console_ioctl_ok:
  assumes "console_ok c"
  shows "\<exists>ret c'. console_ioctl m cmd arg c = Done (ret, c') \<and> console_ok c'"
proof -
  let ?s = "c_string_at m arg 16"
  have "strscpy (prefix c) ?s 16 =
      (let k = min (length ?s) (unat (16 :: size_t) - 1) in
       Done (take k ?s @ [NUL] @ drop (k + 1) (prefix c),
         if length ?s < unat (16 :: size_t) then int (length ?s) else - E2BIG))"
    by (rule strscpy_text [OF c_string_at_ok(1)]) (use assms in \<open>simp_all add: console_ok_def\<close>)
  then have "\<exists>ret c'. set_prefix ?s c = Done (ret, c') \<and> console_ok c'"
    using assms c_string_at_ok(2) [of m arg 16]
    by (auto simp: set_prefix_def Let_def console_ok_def)
  then show ?thesis using assms
    by (auto simp: console_ioctl_def console_register_def console_deregister_def console_ok_def)
qed

lemma tty_ioctl_keeps:
  assumes "tty_ioctl tmp_log cmd arg m out = Done (ret, m', out')" "log_ok (out_log out)" "length tmp_log = 256"
  shows "log_ok (out_log out') \<and> out_console out' = out_console out"
proof -
  have "no_side_align ''{:s}: invalid tty ioctl cmd{:#x}\<newline>''" by (simp add: no_side_align_def)
  then have "list_all (\<lambda>c. no_side_align (fst c))
      [(''{:s}: invalid tty ioctl cmd{:#x}\<newline>'', [LogStr ''tty_ioctl'', LogNum (ucast cmd)])]" by simp
  from log_calls_done [OF this assms(3,2)] assms(1,2) show ?thesis
    using log_set_buffer_spec [where m = m and new_addr = "load64 m arg" and area_sz = "load64 m (arg + 8)"]
    by (auto simp: tty_ioctl_def Let_def outcome_Done split: if_splits)
qed

lemma set_out_mm [simp]:
  "rt_mm (set_out out st) = rt_mm st" "rt_fs (set_out out st) = rt_fs st"
  "rt_timer (set_out out st) = rt_timer st" "rt_exit (set_out out st) = rt_exit st"
  "rt_console (set_out out st) = out_console out" "rt_log (set_out out st) = out_log out"
  by (simp_all add: set_out_def)

text \<open>The contract of the allocator that an \<open>ioctl\<close> request must respect: an added heap is new.\<close>

definition request_ok :: "u32 \<Rightarrow> uintptr_t \<Rightarrow> runtime \<Rightarrow> bool" where
  "request_ok cmd arg st \<longleftrightarrow>
     (let r = load_range (rt_mem st) arg in
      cmd = IOCTL_ADD_HEAP \<and> range_ok r \<longrightarrow> new_heap (mr_base r) (mr_size r) (rt_mm st))"

lemma mem_ioctl_keeps:
  assumes "mem_ioctl cmd arg mm = Done (ret, mm')" "mmap_inv mm"
    "cmd = IOCTL_ADD_HEAP \<Longrightarrow> range_ok (load_range (mm_mem mm) arg) \<Longrightarrow>
       new_heap (mr_base (load_range (mm_mem mm) arg)) (mr_size (load_range (mm_mem mm) arg)) mm"
  shows "mmap_inv mm'"
proof (cases "arg = 0")
  case True
  then show ?thesis using assms(1,2)
    by (auto simp: mem_ioctl_def mem_add_heap_def mem_remove_heap_def mem_heap_is_free_def
        mem_get_stats_def mem_range_null split: if_splits)
next
  case False
  then show ?thesis using mem_ioctl_answers [of mm arg cmd, OF assms(2) _ assms(3)] assms(1) by auto
qed

lemma file_ioctl_keeps:
  assumes "pf_ok pf" "rt_ok st" "request_ok cmd arg st" "file_ioctl pf f cmd arg st = Done (ret, st')"
  shows "rt_ok st'"
proof -
  have tty: "rt_ok st'" if tty_call: "bindc (tty_ioctl (pf_tmp_log pf) cmd arg (rt_mem st) (rt_out st)) (\<lambda>(ret, m, out).
       Done (ret, set_out out (st\<lparr>rt_mm := (rt_mm st)\<lparr>mm_mem := m\<rparr>\<rparr>))) = Done (ret, st')"
  proof -
    obtain r m out where t: "tty_ioctl (pf_tmp_log pf) cmd arg (rt_mem st) (rt_out st) = Done (r, m, out)"
      "st' = set_out out (st\<lparr>rt_mm := (rt_mm st)\<lparr>mm_mem := m\<rparr>\<rparr>)"
      using tty_call by (auto simp: outcome_Done)
    have "log_ok (out_log out) \<and> out_console out = out_console (rt_out st)"
      by (rule tty_ioctl_keeps [OF t(1)]) (use assms(1,2) in \<open>simp_all add: rt_defs pf_ok_def\<close>)
    then show ?thesis using t(2) assms(2) by (simp add: rt_ok_def rt_out_def)
  qed
  show ?thesis
  proof (cases f)
    case Ttyin
    with tty assms(4) show ?thesis by simp
  next
    case Ttyout
    with tty assms(4) show ?thesis by simp
  next
    case Irq_file
    with assms(2,4) show ?thesis by (auto simp: outcome_Done rt_ok_def)
  next
    case Console_file
    with assms(2,4) console_ioctl_ok [of "rt_console st" "rt_mem st" cmd arg] show ?thesis
      by (auto simp: outcome_Done rt_ok_def)
  next
    case Exit_file
    with assms(2,4) show ?thesis by (auto simp: rt_ok_def split: prod.splits)
  next
    case Mem_file
    then have "mm_call pf (mem_ioctl cmd arg) st = Done (ret, st')" using assms(4) by simp
    then show ?thesis
    proof (rule mm_call_keeps [OF assms(1,2)])
      fix mm assume m: "mem_ioctl cmd arg (rt_mm st) = Done (ret, mm)"
      have "mmap_inv mm"
        by (rule mem_ioctl_keeps [OF m]) (use assms(2,3) in \<open>auto simp: rt_ok_def request_ok_def rt_mem_def Let_def\<close>)
      then show "mmap_inv mm \<and> plain_logs (mm_logs mm)"
        using mem_ioctl_logs [OF m] assms(2) by (simp add: rt_ok_def)
    qed
  qed
qed

lemma fs_lookup_ok:
  assumes "length (file_table fs) = 32"
  shows "fs_lookup_file fd fs = Done None \<or>
    (\<exists>f fl. fs_lookup_file fd fs = Done (Some \<lparr>fp_file = Some f, fp_flags = fl\<rparr>))"
proof (cases "fd < NUM_FDS \<and> fp_file (file_table fs ! unat fd) \<noteq> None")
  case True
  then obtain f fl where "file_table fs ! unat fd = \<lparr>fp_file = Some f, fp_flags = fl\<rparr>"
    by (cases "file_table fs ! unat fd") auto
  with True assms show ?thesis by (simp add: fs_lookup_file_def word_less_nat_alt)
next
  case False
  with assms show ?thesis by (auto simp: fs_lookup_file_def word_less_nat_alt Let_def)
qed

lemma sys_ioctl_keeps:
  assumes "pf_ok pf" "rt_ok st" "request_ok cmd arg st" "sys_ioctl pf fd cmd arg st = Done (ret, st')"
  shows "rt_ok st'"
proof -
  have "length (file_table (rt_fs st)) = 32" using assms(2) by (simp add: rt_ok_def fs_ok_def)
  from fs_lookup_ok [OF this, of fd] show ?thesis
  proof (elim disjE exE)
    assume "fs_lookup_file fd (rt_fs st) = Done None"
    with assms(2,4) show ?thesis by (simp add: sys_ioctl_def)
  next
    fix f fl assume "fs_lookup_file fd (rt_fs st) = Done (Some \<lparr>fp_file = Some f, fp_flags = fl\<rparr>)"
    then have "file_ioctl pf f cmd arg st = Done (ret, st')" using assms(4) by (simp add: sys_ioctl_def)
    then show ?thesis by (rule file_ioctl_keeps [OF assms(1-3)])
  qed
qed

lemma sys_writev_keeps:
  assumes "pf_ok pf" "rt_ok st" "unat vlen < 2 ^ 32"
  shows "\<exists>ret st'. sys_writev pf fd vec vlen st = Done (ret, st') \<and> rt_ok st'"
proof -
  have fs: "length (file_table (rt_fs st)) = 32" using assms(2) by (simp add: rt_ok_def fs_ok_def)
  note fp = fs_lookup_ok [OF this, of fd]
  let ?tty = "\<lparr>tty_out = rt_out st, tty_eol = rt_eol st\<rparr>"
  have ok: "tty_ok ?tty" using assms(2) by (simp add: tty_ok_def rt_defs)
  have "timer_ok (rt_timer st)" "ticks_small (pf_env pf)" "length (pf_stamp pf) = 16"
    using assms(1,2) by (simp_all add: rt_ok_def pf_ok_def)
  from tty_writev_prints [OF this assms(3) ok, of "rt_mem st" vec] obtain n tty where
    w: "tty_writev (pf_env pf) (rt_timer st) (pf_stamp pf) (rt_mem st) vec vlen ?tty = Done (n, tty)"
      "printed (rt_timer st) (pf_stamp pf) ?tty (vec_bytes (rt_mem st) vec [0..<unat vlen]) tty" by blast
  have "tty_ok tty" by (rule printed_ok [OF w(2) ok])
  then have "rt_ok (set_out (tty_out tty) (st\<lparr>rt_eol := tty_eol tty\<rparr>))"
    using assms(2) by (simp add: rt_ok_def tty_ok_def)
  then show ?thesis using fp w(1) assms(2)
    by (auto simp: sys_writev_def split: option.splits)
qed

section \<open>Waiting\<close>

lemma wait_for_keeps: "wait_for pf relative req remain st = Done (ret, st') \<Longrightarrow> rt_ok st \<Longrightarrow> rt_ok st'"
  by (auto simp: wait_for_def outcome_Done rt_ok_def split: option.splits)

lemma sys_ppoll_keeps: "sys_ppoll pf ufds nfds timeout m sz st = Done (ret, st') \<Longrightarrow> rt_ok st \<Longrightarrow> rt_ok st'"
  by (auto simp: sys_ppoll_def outcome_Done rt_ok_def split: if_splits dest: wait_for_keeps)

lemma sys_clock_nanosleep_keeps:
  "sys_clock_nanosleep pf c flags req remain st = Done (ret, st') \<Longrightarrow> rt_ok st \<Longrightarrow> rt_ok st'"
  by (auto simp: sys_clock_nanosleep_def split: if_splits dest: wait_for_keeps)

section \<open>The end\<close>

lemma exit_loop_halts:
  assumes "pf_ok pf" "rt_ok st"
  obtains st' t where "exit_loop pf ec st = Done (Halted st')"
    "io (rt_irq st') = Wfe # exit_trigger ec (rt_exit st) (Store ICC_IGRPEN1_EL1 0 # t)"
proof -
  have "plain_logs [(''sys_exit/sys_exit_group: called\<newline>'', [])]" by (simp add: no_side_align_def)
  then obtain st1 where st1: "rt_print pf [(''sys_exit/sys_exit_group: called\<newline>'', [])] st = Done st1"
    "rt_exit st1 = rt_exit st"
    by (rule rt_print_ok [OF assms])
  let ?st' = "st1\<lparr>rt_irq := (rt_irq st1)\<lparr>io := Wfe # exit_trigger ec (rt_exit st1) (platform_irq_disable_all (io (rt_irq st1)))\<rparr>\<rparr>"
  have "exit_loop pf ec st = Done (Halted ?st')" using st1(1) by (simp add: exit_loop_def Let_def)
  then show thesis
    by (rule that [of _ "io (rt_irq st1)"]) (simp add: st1(2) platform_irq_disable_all_def device_store_def)
qed

section \<open>System calls\<close>

text \<open>What the caller owes the allocator: it unmaps what is mapped, and adds heaps that are new.\<close>

definition call_ok ::
  "platform \<Rightarrow> register_t \<Rightarrow> register_t \<Rightarrow> register_t \<Rightarrow> register_t \<Rightarrow> runtime \<Rightarrow> bool" where
  "call_ok pf arg0 arg1 arg2 sys_num st \<longleftrightarrow>
     (sys_num = SYS_munmap (pf_libc pf) \<longrightarrow>
        (\<forall>mm. sys_munmap arg0 arg1 (rt_mm st) = Done (0, mm) \<longrightarrow>
           page_range arg0 arg1 \<subseteq> mapped_pages (rt_mm st))) \<and>
     (sys_num = SYS_ioctl (pf_libc pf) \<longrightarrow> request_ok (ucast arg1) arg2 st)"

definition may_stop :: "libc \<Rightarrow> register_t \<Rightarrow> register_t \<Rightarrow> bool" where
  "may_stop lc arg2 sys_num \<longleftrightarrow>
     sys_num = SYS_munmap lc \<or> sys_num = SYS_ioctl lc \<or> sys_num = SYS_ppoll lc \<or>
     sys_num = SYS_clock_nanosleep lc \<or> sys_num = SYS_writev lc \<and> 2 ^ 32 \<le> unat arg2"

definition may_end :: "libc \<Rightarrow> register_t \<Rightarrow> bool" where
  "may_end lc sys_num \<longleftrightarrow> sys_num = SYS_tkill lc \<or> sys_num = SYS_exit lc \<or> sys_num = SYS_exit_group lc"

text \<open>How a call ends, for \<open>stops\<close> and \<open>ends\<close> telling whether it may stop or end the application.\<close>

definition call_result :: "bool \<Rightarrow> bool \<Rightarrow> 'a completion outcome \<Rightarrow> bool" where
  "call_result stops ends r \<longleftrightarrow>
     (case r of Done (Returned ret st') \<Rightarrow> rt_ok st' | Done (Halted st') \<Rightarrow> ends | Fault e \<Rightarrow> stops)"

lemma if_cases_result:
  "(b \<Longrightarrow> call_result stops ends x) \<Longrightarrow> (\<not> b \<Longrightarrow> call_result stops ends y) \<Longrightarrow>
     call_result stops ends (if b then x else y)"
  by simp

lemma call_result_answer:
  "(\<And>ret st'. r = Done (ret, st') \<Longrightarrow> rt_ok st') \<Longrightarrow> (\<And>e. r = Fault e \<Longrightarrow> stops) \<Longrightarrow>
     call_result stops ends (answer r)"
  "(\<And>ret st'. w = Done (ret, st') \<Longrightarrow> rt_ok st') \<Longrightarrow> (\<And>e. w = Fault e \<Longrightarrow> stops) \<Longrightarrow>
     call_result stops ends (answer_word w)"
  by (cases r; auto simp: call_result_def answer_def) (cases w; auto simp: call_result_def answer_word_def)

lemma sys_mmap_returns:
  assumes "mmap_inv mm"
  obtains r mm' where "sys_mmap addr len prot flags fd off mm = Done (r, mm')" "mmap_inv mm'"
proof (cases "mmap_args_ok addr len prot flags fd off")
  case True
  then have "unat len = 4096 * (unat len div 4096)" "0 < unat len div 4096"
    using page_count [of len] by (auto simp: mmap_args_ok_def)
  from alloc_mmap_contract [OF assms this] assms sys_mmap_cases(1) [OF True, of mm] that
  show thesis by (auto split: option.splits)
next
  case False
  with sys_mmap_cases(2) [OF False, of mm] assms that show thesis by auto
qed

lemma exit_result:
  assumes "pf_ok pf" "rt_ok st" "ends"
  shows "call_result stops ends (exit_loop pf ec st :: 'a completion outcome)"
proof -
  obtain st' where "(exit_loop pf ec st :: 'a completion outcome) = Done (Halted st')"
    by (rule exit_loop_halts [OF assms(1,2)])
  then show ?thesis using assms(3) by (simp add: call_result_def)
qed

text \<open>A vector with more entries than a 32-bit counter can count is never finished.\<close>

lemma writev_loop_endless:
  "2 ^ 32 \<le> unat vlen \<Longrightarrow> writev_loop env tm stack m vecp vlen i ret st \<noteq> Done r"
proof (induction env tm stack m vecp vlen i ret st rule: writev_loop.induct)
  case (1 env tm stack m vecp vlen i ret st)
  have lt: "ucast i < vlen" using 1(2) unat_lt32 [of i] by (simp add: word_less_nat_alt)
  show ?case
  proof
    assume "writev_loop env tm stack m vecp vlen i ret st = Done r"
    then show False using 1(1) [OF lt refl refl refl] 1(2) lt
      by (subst (asm) writev_loop.simps) (auto simp: outcome_Done Let_def split: if_splits)
  qed
qed

lemma sys_writev_done:
  assumes "pf_ok pf" "rt_ok st" "sys_writev pf fd vec vlen st = Done (ret, st')"
  shows "rt_ok st'"
proof (cases "unat vlen < 2 ^ 32")
  case True
  from sys_writev_keeps [OF assms(1,2) True, of fd vec] assms(3) show ?thesis by auto
next
  case False
  then show ?thesis using assms(2,3) writev_loop_endless [of vlen]
    by (auto simp: sys_writev_def tty_writev_def outcome_Done split: option.splits if_splits)
qed

text \<open>The result of each call, one lemma a call.\<close>

lemma rt_ok_parts:
  assumes "rt_ok st"
  shows "mmap_inv (rt_mm st)" "mm_logs (rt_mm st) = []" "fs_ok (rt_fs st)"
  using assms by (simp_all add: rt_ok_def)

lemma writev_result:
  assumes "pf_ok pf" "rt_ok st" "sys_num = SYS_writev (pf_libc pf)"
  shows "call_result (may_stop (pf_libc pf) arg2 sys_num) e (answer_word (sys_writev pf (ucast arg0) arg1 arg2 st))"
proof (rule call_result_answer)
  show "rt_ok st'" if "sys_writev pf (ucast arg0) arg1 arg2 st = Done (ret, st')" for ret st'
    using that by (rule sys_writev_done [OF assms(1,2)])
  show "may_stop (pf_libc pf) arg2 sys_num" if "sys_writev pf (ucast arg0) arg1 arg2 st = Fault e" for e
    using that sys_writev_keeps [OF assms(1,2), of arg2 "ucast arg0" arg1] assms(3) by (force simp: may_stop_def)
qed

lemma wait_results:
  assumes "pf_ok pf" "rt_ok st"
  shows "sys_num = SYS_ppoll (pf_libc pf) \<Longrightarrow>
      call_result (may_stop (pf_libc pf) arg2 sys_num) e (answer (sys_ppoll pf fds n arg2 arg3 arg4 st))"
    "sys_num = SYS_clock_nanosleep (pf_libc pf) \<Longrightarrow>
      call_result (may_stop (pf_libc pf) arg2 sys_num) e (answer (sys_clock_nanosleep pf clk fl req arg3 st))"
  by (rule call_result_answer; use assms in \<open>auto simp: may_stop_def dest: sys_ppoll_keeps sys_clock_nanosleep_keeps\<close>)+

lemma ioctl_result:
  assumes "pf_ok pf" "rt_ok st" "call_ok pf arg0 arg1 arg2 sys_num st" "sys_num = SYS_ioctl (pf_libc pf)"
  shows "call_result (may_stop (pf_libc pf) arg2 sys_num) e (answer (sys_ioctl pf (ucast arg0) (ucast arg1) arg2 st))"
  by (rule call_result_answer)
    (use assms sys_ioctl_keeps [OF assms(1,2)] in \<open>auto simp: may_stop_def call_ok_def\<close>)

lemma file_results:
  assumes "rt_ok st"
  shows "call_result s e (answer (bindc (sys_openat fc dirfd (c_string_at m a 16) fl mode (rt_fs st))
      (\<lambda>(ret, fs). Done (ret, st\<lparr>rt_fs := fs\<rparr>))))"
    "call_result s e (answer (bindc (sys_close fd (rt_fs st)) (\<lambda>(ret, fs). Done (ret, st\<lparr>rt_fs := fs\<rparr>))))"
  using sys_openat_cases [OF rt_ok_parts(3) [OF assms] c_string_at_ok(1) [of m a 16], of fc dirfd fl mode]
    sys_close_cases [OF rt_ok_parts(3) [OF assms], of fd] assms
  by (intro call_result_answer; auto simp: rt_ok_def)+

lemma brk_result:
  assumes "pf_ok pf" "rt_ok st"
  shows "call_result s e (answer_word (mm_call pf (\<lambda>mm. Done (sys_brk arg0 mm)) st))"
proof -
  note parts = rt_ok_parts [OF assms(2)]
  have "mmap_inv (snd (sys_brk arg0 (rt_mm st)))" "plain_logs (mm_logs (snd (sys_brk arg0 (rt_mm st))))"
    using sys_brk_inv [OF parts(1), of arg0] sys_brk_plain [of "rt_mm st" arg0] parts(2) by simp_all
  from mm_call_done [OF assms _ this, of "\<lambda>mm. Done (sys_brk arg0 mm)" "fst (sys_brk arg0 (rt_mm st))"]
  show ?thesis by (intro call_result_answer) auto
qed

lemma mmap_result:
  assumes "pf_ok pf" "rt_ok st"
  shows "call_result s e (answer_word (mm_call pf (sys_mmap arg0 arg1 prot fl fd arg5) st))"
proof -
  note parts = rt_ok_parts [OF assms(2)]
  obtain r mm' where m: "sys_mmap arg0 arg1 prot fl fd arg5 (rt_mm st) = Done (r, mm')" "mmap_inv mm'"
    by (rule sys_mmap_returns [OF parts(1)])
  have "plain_logs (mm_logs mm')" using sys_mmap_plain [OF m(1)] parts(2) by simp
  from mm_call_done [of pf st "sys_mmap arg0 arg1 prot fl fd arg5", OF assms m this] show ?thesis
    by (intro call_result_answer) auto
qed

lemma munmap_result:
  assumes "pf_ok pf" "rt_ok st" "call_ok pf arg0 arg1 arg2 sys_num st" "sys_num = SYS_munmap (pf_libc pf)"
  shows "call_result (may_stop (pf_libc pf) arg2 sys_num) e (answer (mm_call pf (sys_munmap arg0 arg1) st))"
proof (rule call_result_answer)
  note parts = rt_ok_parts [OF assms(2)]
  show "may_stop (pf_libc pf) arg2 sys_num" using assms(4) by (simp add: may_stop_def)
  fix ret st' assume "mm_call pf (sys_munmap arg0 arg1) st = Done (ret, st')"
  then show "rt_ok st'"
  proof (rule mm_call_keeps [OF assms(1,2)])
    fix mm assume m: "sys_munmap arg0 arg1 (rt_mm st) = Done (ret, mm)"
    have "mmap_inv mm"
      by (rule sys_munmap_inv [OF parts(1) m]) (use assms(3,4) m in \<open>auto simp: call_ok_def\<close>)
    then show "mmap_inv mm \<and> plain_logs (mm_logs mm)" using sys_munmap_logs [OF m] parts(2) by simp
  qed
qed

lemma end_results:
  assumes "pf_ok pf" "rt_ok st"
  shows "sys_num = SYS_tkill (pf_libc pf) \<Longrightarrow>
      call_result s (may_end (pf_libc pf) sys_num) (bindc (sys_tkill pf tid sig st) (\<lambda>c.
        case c of Returned ret st \<Rightarrow> Done (Returned (of_int ret) st) | Halted st \<Rightarrow> Done (Halted st)))"
    "sys_num = SYS_exit (pf_libc pf) \<Longrightarrow> call_result s (may_end (pf_libc pf) sys_num) (sys_exit pf ec st)"
    "sys_num = SYS_exit_group (pf_libc pf) \<Longrightarrow> call_result s (may_end (pf_libc pf) sys_num) (sys_exit_group pf ec st)"
proof -
  assume k: "sys_num = SYS_tkill (pf_libc pf)"
  obtain st' where "(exit_loop pf 1 st :: int completion outcome) = Done (Halted st')"
    by (rule exit_loop_halts [OF assms])
  then show "call_result s (may_end (pf_libc pf) sys_num) (bindc (sys_tkill pf tid sig st) (\<lambda>c.
        case c of Returned ret st \<Rightarrow> Done (Returned (of_int ret) st) | Halted st \<Rightarrow> Done (Halted st)))"
    using k assms(2) by (auto simp: sys_tkill_def sys_exit_def call_result_def may_end_def)
next
  assume "sys_num = SYS_exit (pf_libc pf)"
  then show "call_result s (may_end (pf_libc pf) sys_num) (sys_exit pf ec st)"
    unfolding sys_exit_def by (intro exit_result [OF assms]) (simp add: may_end_def)
next
  assume "sys_num = SYS_exit_group (pf_libc pf)"
  then show "call_result s (may_end (pf_libc pf) sys_num) (sys_exit_group pf ec st)"
    unfolding sys_exit_group_def by (intro exit_result [OF assms]) (simp add: may_end_def)
qed

lemma plain_results:
  assumes "pf_ok pf" "rt_ok st"
  shows "call_result s e (bindc (rt_print pf [(''Unhandled syscall {:d}\<newline>'', [LogNum sys_num])] st)
      (\<lambda>st. Done (Returned (of_int (- ENOSYS)) st)))"
    "call_result s e (Done (Returned v st))"
proof -
  show "call_result s e (bindc (rt_print pf [(''Unhandled syscall {:d}\<newline>'', [LogNum sys_num])] st)
      (\<lambda>st. Done (Returned (of_int (- ENOSYS)) st)))"
    by (rule rt_print_ok [OF assms, of "[(''Unhandled syscall {:d}\<newline>'', [LogNum sys_num])]"])
      (auto simp: no_side_align_def call_result_def)
  show "call_result s e (Done (Returned v st))" using assms(2) by (simp add: call_result_def)
qed

lemma syscall_result:
  assumes "pf_ok pf" "rt_ok st" "call_ok pf arg0 arg1 arg2 sys_num st"
  shows "call_result (may_stop (pf_libc pf) arg2 sys_num) (may_end (pf_libc pf) sys_num)
    (aarch64_do_syscall pf arg0 arg1 arg2 arg3 arg4 arg5 sys_num st)"
  unfolding aarch64_do_syscall_def Let_def
  by (intro if_cases_result)
    (rule writev_result [OF assms(1,2)] wait_results [OF assms(1,2)] ioctl_result [OF assms] file_results [OF assms(2)]
      brk_result [OF assms(1,2)] mmap_result [OF assms(1,2)] munmap_result [OF assms] end_results [OF assms(1,2)]
      plain_results [OF assms(1,2)]; assumption)+

section \<open>Properties of the system calls\<close>


text \<open>The numbers of the AArch64 system calls of Linux, with a \<open>timespec\<close> of two 64-bit words.\<close>

definition linux_libc :: libc where
  "linux_libc = \<lparr>lc_fcntl = \<lparr>O_ACCMODE = 3, O_LARGEFILE = 0x20000\<rparr>, SYS_writev = 66, SYS_ppoll = 73, SYS_clock_nanosleep = 115,
     SYS_ioctl = 29, SYS_openat = 56, SYS_close = 57, SYS_brk = 214, SYS_mmap = 222, SYS_munmap = 215,
     SYS_set_tid_address = 96, SYS_tkill = 130, SYS_exit = 93, SYS_exit_group = 94,
     CLOCK_MONOTONIC = 1, TIMER_ABSTIME = 1,
     load_timespec = (\<lambda>m a. \<lparr>tv_sec = sint (load64 m a), tv_nsec = sint (load64 m (a + 8))\<rparr>),
     store_timespec = (\<lambda>t a m. store64 (store64 m a (of_int (tv_sec t))) (a + 8) (of_int (tv_nsec t)))\<rparr>"


text \<open>The runtime before its set-up, with the standard files open and one handler of the clock.\<close>

definition runtime_start :: "memory \<Rightarrow> trace \<Rightarrow> runtime" where
  "runtime_start m t =
     \<lparr>rt_mm = mmap_initial m, rt_irq = \<lparr>isr_table = no_isrs, timer_fired = False, io = t\<rparr>,
      rt_timer = \<lparr>timer_freq = 19200000, timespec_max_sec = 960767920453\<rparr>,
      rt_console = console_initial, rt_log = early_log_buf, rt_exit = 0, rt_fs = fs_start, rt_eol = True\<rparr>"

lemma runtime_start_ok: "rt_ok (runtime_start m t)"
  using mmap_inv_initial [of m] fs_start_ok
  by (simp add: rt_ok_def runtime_start_def timer_ok_def console_ok_def log_ok_def early_log_buf_def
      console_initial_def mmap_initial_def)

definition quiet_platform :: platform where
  "quiet_platform =
     \<lparr>pf_env = \<lparr>load_value = \<lambda>t r. 1000, isr_handled = \<lambda>t. True, fuel = 0\<rparr>, pf_libc = linux_libc,
      pf_tmp_log = replicate 256 NUL, pf_stamp = replicate 16 NUL\<rparr>"

lemma quiet_platform_ok: "pf_ok quiet_platform"
  by (simp add: pf_ok_def quiet_platform_def ticks_small_def)


text \<open>The numbers of the calls differ, as the headers of the C library document.\<close>

definition libc_ok :: "libc \<Rightarrow> bool" where
  "libc_ok lc \<longleftrightarrow> distinct [SYS_writev lc, SYS_ppoll lc, SYS_clock_nanosleep lc, SYS_ioctl lc, SYS_openat lc,
     SYS_close lc, SYS_brk lc, SYS_mmap lc, SYS_munmap lc, SYS_set_tid_address lc, SYS_tkill lc,
     SYS_exit lc, SYS_exit_group lc]"

text \<open>The dispatch of the calls that end the application.\<close>

lemma end_dispatch:
  assumes "libc_ok (pf_libc pf)"
  shows "aarch64_do_syscall pf a0 a1 a2 a3 a4 a5 (SYS_exit (pf_libc pf)) st = exit_loop pf (int32_of a0) st"
    "aarch64_do_syscall pf a0 a1 a2 a3 a4 a5 (SYS_exit_group (pf_libc pf)) st = exit_loop pf (int32_of a0) st"
    "aarch64_do_syscall pf a0 a1 a2 a3 a4 a5 (SYS_tkill (pf_libc pf)) st =
       bindc (sys_tkill pf (int32_of a0) (int32_of a1) st) (\<lambda>c.
          case c of Returned ret st \<Rightarrow> Done (Returned (of_int ret) st) | Halted st \<Rightarrow> Done (Halted st))"
proof -
  have neq: "x = y \<longleftrightarrow> False" if "distinct xs" "i < length xs" "j < length xs" "xs ! i = x" "xs ! j = y" "i \<noteq> j"
    for x y :: register_t and xs i j
    using that by (auto simp: nth_eq_iff_index_eq)
  let ?lc = "pf_libc pf"
  let ?ns = "[SYS_writev ?lc, SYS_ppoll ?lc, SYS_clock_nanosleep ?lc, SYS_ioctl ?lc, SYS_openat ?lc,
     SYS_close ?lc, SYS_brk ?lc, SYS_mmap ?lc, SYS_munmap ?lc, SYS_set_tid_address ?lc, SYS_tkill ?lc,
     SYS_exit ?lc, SYS_exit_group ?lc]"
  have n: "distinct ?ns" using assms by (simp only: libc_ok_def)
  have e: "SYS_exit ?lc = ?ns ! j \<longleftrightarrow> False" if "j < 11" for j
    by (rule neq [OF n, of 11 j]) (use that in simp_all)
  have g: "SYS_exit_group ?lc = ?ns ! j \<longleftrightarrow> False" if "j < 12" for j
    by (rule neq [OF n, of 12 j]) (use that in simp_all)
  have k: "SYS_tkill ?lc = ?ns ! j \<longleftrightarrow> False" if "j < 10" for j
    by (rule neq [OF n, of 10 j]) (use that in simp_all)
  note es = e [of 0] e [of 1] e [of 2] e [of 3] e [of 4] e [of 5] e [of 6] e [of 7] e [of 8] e [of 9] e [of 10]
  note gs = g [of 0] g [of 1] g [of 2] g [of 3] g [of 4] g [of 5] g [of 6] g [of 7] g [of 8] g [of 9] g [of 10] g [of 11]
  note ks = k [of 0] k [of 1] k [of 2] k [of 3] k [of 4] k [of 5] k [of 6] k [of 7] k [of 8] k [of 9]
  show "aarch64_do_syscall pf a0 a1 a2 a3 a4 a5 (SYS_exit ?lc) st = exit_loop pf (int32_of a0) st"
    using es by (simp add: aarch64_do_syscall_def Let_def sys_exit_def)
  show "aarch64_do_syscall pf a0 a1 a2 a3 a4 a5 (SYS_exit_group ?lc) st = exit_loop pf (int32_of a0) st"
    using gs by (simp add: aarch64_do_syscall_def Let_def sys_exit_group_def)
  show "aarch64_do_syscall pf a0 a1 a2 a3 a4 a5 (SYS_tkill ?lc) st =
       bindc (sys_tkill pf (int32_of a0) (int32_of a1) st) (\<lambda>c.
          case c of Returned ret st \<Rightarrow> Done (Returned (of_int ret) st) | Halted st \<Rightarrow> Done (Halted st))"
    using ks by (simp add: aarch64_do_syscall_def Let_def)
qed

lemma exit_loop_io:
  assumes "pf_ok pf" "rt_ok st"
  shows "\<exists>st' t. exit_loop pf ec st = Done (Halted st') \<and>
    io (rt_irq st') = Wfe # exit_trigger ec (rt_exit st) (Store ICC_IGRPEN1_EL1 0 # t)"
proof -
  obtain st' t where "(exit_loop pf ec st :: 'a completion outcome) = Done (Halted st')"
    "io (rt_irq st') = Wfe # exit_trigger ec (rt_exit st) (Store ICC_IGRPEN1_EL1 0 # t)"
    by (rule exit_loop_halts [OF assms])
  then show ?thesis by blast
qed

text \<open>C16: the application ends: \<open>exit\<close>, \<open>exit_group\<close> and \<open>tkill\<close> of the one thread always halt, with
  the interrupts switched off first and then the registered exit function called with the
  exit code, which is 1 for \<open>tkill\<close>, before the processor waits; \<open>tkill\<close> of another thread is
  \<open>EINVAL\<close> and changes nothing. Messages go before.\<close>

theorem application_ends:
  assumes "pf_ok pf" "rt_ok st" "libc_ok (pf_libc pf)"
  defines "halts ec r \<equiv> \<exists>st' t. r = Done (Halted st') \<and>
     io (rt_irq st') = Wfe # exit_trigger ec (rt_exit st) (Store ICC_IGRPEN1_EL1 0 # t)"
  shows "halts (int32_of a0) (aarch64_do_syscall pf a0 a1 a2 a3 a4 a5 (SYS_exit (pf_libc pf)) st) \<and>
    halts (int32_of a0) (aarch64_do_syscall pf a0 a1 a2 a3 a4 a5 (SYS_exit_group (pf_libc pf)) st) \<and>
    (if int32_of a0 = 1234
     then halts 1 (aarch64_do_syscall pf a0 a1 a2 a3 a4 a5 (SYS_tkill (pf_libc pf)) st)
     else aarch64_do_syscall pf a0 a1 a2 a3 a4 a5 (SYS_tkill (pf_libc pf)) st =
       Done (Returned (of_int (- EINVAL)) st))"
proof -
  note d = end_dispatch [OF assms(3)]
  obtain st' t where x: "(exit_loop pf 1 st :: int completion outcome) = Done (Halted st')"
    "io (rt_irq st') = Wfe # exit_trigger 1 (rt_exit st) (Store ICC_IGRPEN1_EL1 0 # t)"
    by (rule exit_loop_halts [OF assms(1,2)])
  show ?thesis unfolding d halts_def
    using exit_loop_io [OF assms(1,2), of "int32_of a0"] x
    by (auto simp: sys_tkill_def sys_exit_def)
qed

theorem application_ends_witness:
  "\<exists>st' t. aarch64_do_syscall quiet_platform 3 0 0 0 0 0 93 ((runtime_start hello_memory [])\<lparr>rt_exit := 0x4000\<rparr>) =
     Done (Halted st') \<and> io (rt_irq st') = Wfe # Call_exit 0x4000 3 # Store ICC_IGRPEN1_EL1 0 # t"
proof -
  let ?st = "(runtime_start hello_memory [])\<lparr>rt_exit := 0x4000\<rparr>"
  have "rt_ok ?st" using runtime_start_ok [of hello_memory "[]"] by (simp add: rt_ok_def)
  moreover have "libc_ok (pf_libc quiet_platform)" by (simp add: libc_ok_def quiet_platform_def linux_libc_def)
  moreover have "int32_of 3 = 3" by (simp add: int32_of_def)
  ultimately show ?thesis
    using application_ends [OF quiet_platform_ok, of ?st 3 0 0 0 0 0]
    by (simp add: quiet_platform_def linux_libc_def exit_trigger_def)
qed

end
