(* ===== verification/MemCopy.thy ===== *)
theory MemCopy
  imports UserMem
begin

unbundle bit_operations_syntax

text \<open>
  Copying memory: \<open>memcpy\<close>, \<open>memmove\<close> and \<open>memscpy\<close> of \<^verbatim>\<open>arch/armv8/src/string.c\<close> and the
  routines of \<^verbatim>\<open>memcpy.S\<close> they choose from. The routines are modelled access by access,
  because the order of loads and stores decides what happens when source and destination
  overlap; prefetches have no effect.
\<close>

section \<open>Blocks of bytes\<close>

definition load_block :: "memory \<Rightarrow> uintptr_t \<Rightarrow> nat \<Rightarrow> u8 list" where
  "load_block m a k = map (\<lambda>i. m (a + of_nat i)) [0..<k]"

definition store_block :: "uintptr_t \<Rightarrow> u8 list \<Rightarrow> memory \<Rightarrow> memory" where
  "store_block a bs m = (\<lambda>b. if unat (b - a) < length bs then bs ! unat (b - a) else m b)"

section \<open>The routines of memcpy.S\<close>

text \<open>The registers \<open>x0\<close> (destination), \<open>x1\<close> (source), \<open>x2\<close> (size), and memory.\<close>

record copy_regs =
  cx0 :: uintptr_t
  cx1 :: uintptr_t
  cx2 :: size_t
  cmem :: memory

text \<open>A load and a store of \<open>k\<close> bytes, both with post-index writeback.\<close>

definition move :: "nat \<Rightarrow> copy_regs \<Rightarrow> copy_regs" where
  "move k c =
     c\<lparr>cx0 := cx0 c + of_nat k, cx1 := cx1 c + of_nat k,
       cmem := store_block (cx0 c) (load_block (cmem c) (cx1 c) k) (cmem c)\<rparr>"

text \<open>A move guarded by a bit of the size (\<open>tbz x2\<close>).\<close>

definition move_bit :: "nat \<Rightarrow> copy_regs \<Rightarrow> copy_regs" where
  "move_bit j c = (if bit (cx2 c) j then move (2 ^ j) c else c)"

definition memcpy_below16 :: "copy_regs \<Rightarrow> memory" where
  "memcpy_below16 c = cmem (move_bit 0 (move_bit 1 (move_bit 2 (move_bit 3 c))))"

definition memcpy_below32 :: "copy_regs \<Rightarrow> memory" where
  "memcpy_below32 c = memcpy_below16 (move_bit 4 c)"

text \<open>
  The 16-byte pairs \<open>x3,x4\<close> to \<open>x17,x18\<close> are numbered from 0; \<open>Ldp k off\<close> loads pair \<open>k\<close> from
  \<open>[x1, off]\<close> and \<open>Stp k off\<close> stores it to \<open>[x0, off]\<close>.
\<close>

datatype pair_op = Ldp nat u64 | Stp nat u64

fun run_op :: "uintptr_t \<Rightarrow> uintptr_t \<Rightarrow> pair_op \<Rightarrow> u8 list list \<times> memory \<Rightarrow> u8 list list \<times> memory" where
  "run_op x0 x1 (Ldp k off) (regs, m) = (regs[k := load_block m (x1 + off) 16], m)"
| "run_op x0 x1 (Stp k off) (regs, m) = (regs, store_block (x0 + off) (regs ! k) m)"

definition loads_from :: "u64 \<Rightarrow> nat \<Rightarrow> pair_op list" where
  "loads_from off n = map (\<lambda>k. Ldp k (off + of_nat (16 * k))) [0..<n]"

definition stores_to :: "u64 \<Rightarrow> nat \<Rightarrow> pair_op list" where
  "stores_to off n = map (\<lambda>k. Stp k (off + of_nat (16 * k))) [0..<n]"

text \<open>
  Up to seven pairs: the jumps into the middle of a sequence skip its first instructions. A
  jump to before its start is a bad access.
\<close>

definition memcpy_below128 :: "u8 list list \<Rightarrow> copy_regs \<Rightarrow> memory outcome" where
  "memcpy_below128 regs c =
     (let x4 = drop_bit 4 (cx2 c);
          x0 = cx0 c + push_bit 4 x4; x1 = cx1 c + push_bit 4 x4; x2 = cx2 c - push_bit 4 x4 in
      in_object (x4 \<le> 7)
        (let (regs, m) = fold (run_op x0 x1) (drop (7 - unat x4) (loads_from (- 0x70) 7)) (regs, cmem c);
             (regs, m) = fold (run_op x0 x1) (drop (7 - unat x4) (stores_to (- 0x70) 7)) (regs, m)
         in Done (if x2 \<noteq> 0 then memcpy_below16 \<lparr>cx0 = x0, cx1 = x1, cx2 = x2, cmem = m\<rparr> else m)))"

definition one_chunk :: "pair_op list" where
  "one_chunk =
     [Ldp 0 0, Ldp 1 0x10, Ldp 2 0x20, Ldp 3 0x30, Stp 0 0, Ldp 4 0x40, Stp 1 0x10, Ldp 5 0x50, Stp 2 0x20,
      Ldp 6 0x60, Stp 3 0x30, Ldp 7 0x70, Stp 4 0x40, Stp 5 0x50, Stp 6 0x60, Stp 7 0x70]"

definition memcpy_below256 :: "u8 list list \<Rightarrow> copy_regs \<Rightarrow> memory outcome" where
  "memcpy_below256 regs c =
     (if sint (cx2 c) < 0x80 then memcpy_below128 regs c
      else
        let (regs, m) = fold (run_op (cx0 c) (cx1 c)) one_chunk (regs, cmem c)
        in memcpy_below128 regs \<lparr>cx0 = cx0 c + 0x80, cx1 = cx1 c + 0x80, cx2 = cx2 c - 0x80, cmem = m\<rparr>)"

text \<open>The loop stores one chunk of 128 bytes while it loads the next.\<close>

definition chunk_body :: "pair_op list" where
  "chunk_body =
     [Stp 0 (- 0x70), Ldp 0 0x10, Stp 1 (- 0x60), Ldp 1 0x20, Stp 2 (- 0x50), Ldp 2 0x30,
      Stp 3 (- 0x40), Ldp 3 0x40, Stp 4 (- 0x30), Ldp 4 0x50, Stp 5 (- 0x20), Ldp 5 0x60,
      Stp 6 (- 0x10), Ldp 6 0x70, Stp 7 0, Ldp 7 0x80]"

lemma sint_minus_chunk:
  assumes "0x80 \<le> sint (x :: u64)"
  shows "sint (x - 0x80) = sint x - 0x80"
proof -
  have "sint x < 2 ^ 63" using sint_lt [of x] by simp
  with assms have "signed_take_bit 63 (sint x - 0x80) = sint x - 0x80"
    by (intro signed_take_bit_int_eq_self) auto
  then show ?thesis by (simp add: sint_word_ariths)
qed

function chunk_loop :: "copy_regs \<Rightarrow> u8 list list \<Rightarrow> copy_regs \<times> u8 list list" where
  "chunk_loop c regs =
     (let (regs, m) = fold (run_op (cx0 c) (cx1 c)) chunk_body (regs, cmem c);
          c' = \<lparr>cx0 = cx0 c + 0x80, cx1 = cx1 c + 0x80, cx2 = cx2 c - 0x80, cmem = m\<rparr>
      in if 0x80 \<le> sint (cx2 c) then chunk_loop c' regs else (c', regs))"
  by pat_completeness auto

termination
  by (relation "measure (\<lambda>(c, regs). nat (sint (cx2 c)))") (auto simp: sint_minus_chunk)

declare chunk_loop.simps [simp del]

definition memcpy_align16 :: "copy_regs \<Rightarrow> memory outcome" where
  "memcpy_align16 c =
     (let regs = replicate 8 (replicate 16 0) in
      if sint (cx2 c) < 0x100 then memcpy_below256 regs c
      else
        let (regs, m) = fold (run_op (cx0 c) (cx1 c)) (loads_from 0 8) (regs, cmem c);
            c = c\<lparr>cx0 := cx0 c + 0x70, cx1 := cx1 c + 0x70, cx2 := cx2 c - 0x100\<rparr>;
            (c, regs) = chunk_loop c regs;
            x2 = cx2 c + 0x80;
            (regs, m) = fold (run_op (cx0 c) (cx1 c)) (stores_to (- 0x70) 8) (regs, cmem c)
        in if x2 = 0 then Done m
           else memcpy_below256 regs \<lparr>cx0 = cx0 c + 16, cx1 = cx1 c + 16, cx2 = x2, cmem = m\<rparr>)"

text \<open>A move guarded by a bit of the destination (\<open>tbz x0\<close>).\<close>

definition align_step :: "nat \<Rightarrow> copy_regs \<Rightarrow> copy_regs" where
  "align_step j c = (if bit (cx0 c) j then (move (2 ^ j) c)\<lparr>cx2 := cx2 c - 2 ^ j\<rparr> else c)"

definition memcpy_alignable :: "copy_regs \<Rightarrow> memory outcome" where
  "memcpy_alignable c = memcpy_align16 (align_step 3 (align_step 2 (align_step 1 (align_step 0 c))))"

function bytes_loop :: "copy_regs \<Rightarrow> memory" where
  "bytes_loop c =
     (let x2 = cx2 c - 1; c = (move 1 c)\<lparr>cx2 := x2\<rparr> in if x2 \<noteq> 0 then bytes_loop c else cmem c)"
  by pat_completeness auto

termination
proof (relation "measure (\<lambda>c. unat (cx2 c - 1))")
  fix c :: copy_regs and x2 c'
  assume "x2 = cx2 c - 1" "c' = (move 1 c)\<lparr>cx2 := x2\<rparr>" "x2 \<noteq> 0"
  moreover from this have "unat (cx2 c - 1 - 1) < unat (cx2 c - 1)"
    using unat_pred [of "cx2 c - 1"] by (auto simp: unat_gt_0 simp del: diff_diff_eq)
  ultimately show "(c', c) \<in> measure (\<lambda>c. unat (cx2 c - 1))" by simp
qed simp

declare bytes_loop.simps [simp del]

definition memcpy_bytes :: "copy_regs \<Rightarrow> memory" where
  "memcpy_bytes c = (if cx2 c = 0 then cmem c else bytes_loop c)"

section \<open>The functions of string.c\<close>

text \<open>
  \<open>compiler_sizeof_object\<close> of a parameter of an out-of-line function is the largest
  \<open>size_t\<close>, so the two assertions hold. The functions return the destination.
\<close>

definition memcpy :: "uintptr_t \<Rightarrow> uintptr_t \<Rightarrow> size_t \<Rightarrow> memory \<Rightarrow> (uintptr_t \<times> memory) outcome" where
  "memcpy s1 s2 n m =
     (let c = \<lparr>cx0 = s1, cx1 = s2, cx2 = n, cmem = m\<rparr> in
      if n = 0 then Done (s1, m)
      else if n < 32 then Done (s1, memcpy_below32 c)
      else
        bindc (if s1 AND 15 = 0 then memcpy_align16 c else memcpy_alignable c) (\<lambda>m. Done (s1, m)))"

definition memscpy ::
  "uintptr_t \<Rightarrow> size_t \<Rightarrow> uintptr_t \<Rightarrow> size_t \<Rightarrow> memory \<Rightarrow> (size_t \<times> memory) outcome" where
  "memscpy s1 s1_size s2 s2_size m =
     (let copy_size = util_min s1_size s2_size in
      if copy_size \<noteq> 0 then bindc (memcpy s1 s2 copy_size m) (\<lambda>(_, m). Done (copy_size, m))
      else Done (copy_size, m))"

abbreviation (input) "CPU_MEMCPY_STRIDE \<equiv> (256 :: u64)"

definition memmove :: "uintptr_t \<Rightarrow> uintptr_t \<Rightarrow> size_t \<Rightarrow> memory \<Rightarrow> (uintptr_t \<times> memory) outcome" where
  "memmove s1 s2 n m =
     bindc
       (if s1 = s2 then Done (s1, m)
        else if s1 < s2 then memcpy s1 s2 n m
        else if s2 + CPU_MEMCPY_STRIDE < s1 then memcpy s1 s2 n m
        else if s1 + n \<le> s2 \<and> s2 + n \<le> s1 then memcpy s1 s2 n m
        else Done (s1, memcpy_bytes \<lparr>cx0 = s1, cx1 = s2, cx2 = n, cmem = m\<rparr>))
       (\<lambda>(_, m). Done (s1, m))"

end
