(* ===== verification/MemSet.thy ===== *)
theory MemSet
  imports MemCopy
begin

unbundle bit_operations_syntax

text \<open>
  Filling memory: \<open>memset\<close> of \<^verbatim>\<open>arch/armv8/src/string.c\<close> and the routines of \<^verbatim>\<open>memset.S\<close> it
  chooses from, store by store.
\<close>

section \<open>Stores of a repeated value\<close>

text \<open>
  The destination \<open>x0\<close>, the size (\<open>x1\<close> in the routines for zero, \<open>x2\<close> in the others) and memory.
  The value is an argument of the routines, zero standing for \<open>xzr\<close>.
\<close>

record set_regs =
  sx0 :: uintptr_t
  ssize :: size_t
  smem :: memory

text \<open>The bytes of a pair of equal registers, lowest first; shorter stores take the first ones.\<close>

definition reg_bytes :: "u64 \<Rightarrow> u8 list" where
  "reg_bytes w = map (\<lambda>i. ucast (drop_bit (8 * i) w)) [0..<8]"

definition pair_bytes :: "u64 \<Rightarrow> u8 list" where
  "pair_bytes w = reg_bytes w @ reg_bytes w"

definition put :: "nat \<Rightarrow> u64 \<Rightarrow> set_regs \<Rightarrow> set_regs" where
  "put k w c = c\<lparr>sx0 := sx0 c + of_nat k, smem := store_block (sx0 c) (take k (pair_bytes w)) (smem c)\<rparr>"

definition put_bit :: "nat \<Rightarrow> u64 \<Rightarrow> set_regs \<Rightarrow> set_regs" where
  "put_bit j w c = (if bit (ssize c) j then put (2 ^ j) w c else c)"

definition put_align :: "nat \<Rightarrow> u64 \<Rightarrow> set_regs \<Rightarrow> set_regs" where
  "put_align j w c = (if bit (sx0 c) j then (put (2 ^ j) w c)\<lparr>ssize := ssize c - 2 ^ j\<rparr> else c)"

text \<open>
  The last \<open>k\<close> of a sequence of \<open>cnt\<close> pair stores that ends below \<open>x0\<close>, reached by a computed
  jump.
\<close>

definition stores_below :: "nat \<Rightarrow> nat \<Rightarrow> u64 \<Rightarrow> uintptr_t \<Rightarrow> memory \<Rightarrow> memory" where
  "stores_below cnt k w x0 =
     fold (\<lambda>j. store_block (x0 - of_nat (16 * cnt) + of_nat (16 * j)) (pair_bytes w)) (drop (cnt - k) [0..<cnt])"

section \<open>The routines for zero\<close>

definition memset_zeros_below16 :: "set_regs \<Rightarrow> memory" where
  "memset_zeros_below16 c = smem (put_bit 0 0 (put_bit 1 0 (put_bit 2 0 (put_bit 3 0 c))))"

definition memset_zeros_below32 :: "set_regs \<Rightarrow> memory" where
  "memset_zeros_below32 c = memset_zeros_below16 (put_bit 4 0 c)"

definition memset_zeros_no_dczva :: "set_regs \<Rightarrow> memory outcome" where
  "memset_zeros_no_dczva c =
     (let x4 = drop_bit 4 (ssize c); x1 = ssize c - push_bit 4 x4; x0 = sx0 c + push_bit 4 x4 in
      in_object (x4 \<le> 3)
        (let m = stores_below 3 (unat x4) 0 x0 (smem c)
         in Done (if x1 \<noteq> 0 then memset_zeros_below16 \<lparr>sx0 = x0, ssize = x1, smem = m\<rparr> else m)))"

text \<open>\<open>dc zva\<close> clears the aligned block of 64 bytes that holds its address.\<close>

abbreviation (input) "CPU_DCZVA_BITS \<equiv> (6 :: nat)"

definition dc_zva :: "uintptr_t \<Rightarrow> memory \<Rightarrow> memory" where
  "dc_zva a = store_block (a AND NOT (mask CPU_DCZVA_BITS)) (replicate (2 ^ CPU_DCZVA_BITS) 0)"

text \<open>The loop runs until \<open>x2\<close> is zero, for ever if it is not a multiple of 64.\<close>

partial_function (option) zva_loop :: "u64 \<Rightarrow> uintptr_t \<Rightarrow> memory \<Rightarrow> (uintptr_t \<times> memory) option" where
  "zva_loop x2 x0 m =
     (let x2 = x2 - 64; m = dc_zva x0 m; x0 = x0 + 64
      in if x2 \<noteq> 0 then zva_loop x2 x0 m else Some (x0, m))"

definition memset_zeros_dczva :: "set_regs \<Rightarrow> memory outcome" where
  "memset_zeros_dczva c =
     (let x2 = ssize c AND NOT (mask CPU_DCZVA_BITS); x1 = ssize c AND mask CPU_DCZVA_BITS in
      case zva_loop x2 (sx0 c) (smem c) of
        None \<Rightarrow> Fault OutOfFuel
      | Some (x0, m) \<Rightarrow>
          if x1 = 0 then Done m else memset_zeros_no_dczva \<lparr>sx0 = x0, ssize = x1, smem = m\<rparr>)"

text \<open>
  Pair stores up to the next block, then the blocks. The computed jump needs an address that is
  aligned to 16 already. In an assembler expression \<open><<\<close> binds stronger than \<open>-\<close>, so the sequence
  has three stores.
\<close>

definition memset_zeros_align16 :: "set_regs \<Rightarrow> memory outcome" where
  "memset_zeros_align16 c =
     (let x2 = (- sx0 c) AND mask CPU_DCZVA_BITS in
      if sint (ssize c) < 64 then memset_zeros_no_dczva c
      else
        in_object (x2 AND 15 = 0)
          (let x1 = ssize c - x2; x0 = sx0 c + x2;
               m = stores_below 3 (unat (drop_bit 4 x2)) 0 x0 (smem c);
               c = \<lparr>sx0 = x0, ssize = x1, smem = m\<rparr>
           in if sint x1 < 64 then memset_zeros_no_dczva c else memset_zeros_dczva c))"

definition memset_zeros_alignable :: "set_regs \<Rightarrow> memory outcome" where
  "memset_zeros_alignable c =
     memset_zeros_align16 (put_align 3 0 (put_align 2 0 (put_align 1 0 (put_align 0 0 c))))"

section \<open>The routines for other values\<close>

text \<open>\<open>w\<close> holds the byte eight times, except in \<open>memset_alignable\<close>, which expands it.\<close>

definition memset_below16 :: "u64 \<Rightarrow> set_regs \<Rightarrow> memory" where
  "memset_below16 w c = smem (put_bit 0 w (put_bit 1 w (put_bit 2 w (put_bit 3 w c))))"

definition memset_below32 :: "u64 \<Rightarrow> set_regs \<Rightarrow> memory" where
  "memset_below32 w c = memset_below16 w (put_bit 4 w c)"

text \<open>Chunks of 128 bytes, eight pair stores each; \<open>x3\<close> counts down.\<close>

definition put_chunk :: "u64 \<Rightarrow> uintptr_t \<Rightarrow> memory \<Rightarrow> memory" where
  "put_chunk w x0 = fold (\<lambda>j. store_block (x0 + of_nat (16 * j)) (pair_bytes w)) [0..<8]"

function chunks_loop :: "u64 \<Rightarrow> u64 \<Rightarrow> uintptr_t \<Rightarrow> memory \<Rightarrow> uintptr_t \<times> memory" where
  "chunks_loop w x3 x0 m =
     (let m = put_chunk w x0 m; x0 = x0 + 0x80
      in if 0x80 \<le> sint x3 then chunks_loop w (x3 - 0x80) x0 m else (x0, m))"
  by pat_completeness auto

termination
  by (relation "measure (\<lambda>(w, x3, x0, m). nat (sint x3))") (auto simp: sint_minus_chunk)

declare chunks_loop.simps [simp del]

definition memset_align16 :: "u64 \<Rightarrow> set_regs \<Rightarrow> memory outcome" where
  "memset_align16 w c =
     (let x2 = ssize c AND 0x7f;
          (x0, m) = (if sint (ssize c) < 0x80 then (sx0 c, smem c)
                     else chunks_loop w (ssize c - 0x80) (sx0 c) (smem c));
          x4 = drop_bit 4 x2; x2 = x2 - push_bit 4 x4; x0 = x0 + push_bit 4 x4;
          m = stores_below 7 (unat x4) w x0 m
      in Done (if x2 \<noteq> 0 then memset_below16 w \<lparr>sx0 = x0, ssize = x2, smem = m\<rparr> else m))"

definition memset_alignable :: "u8 \<Rightarrow> set_regs \<Rightarrow> memory outcome" where
  "memset_alignable c8 c =
     (let w1 = ucast c8; w2 = w1 OR push_bit 8 w1; c = put_align 0 w1 c;
          w4 = w2 OR push_bit 16 w2; c = put_align 1 w2 c;
          w8 = w4 OR push_bit 32 w4; c = put_align 2 w4 c
      in memset_align16 w8 (put_align 3 w8 c))"

section \<open>The function of string.c\<close>

text \<open>The assertion on the size of the object holds as in \<open>memcpy\<close>; \<open>ch\<close> is the \<open>int\<close> argument.\<close>

definition memset :: "uintptr_t \<Rightarrow> int \<Rightarrow> size_t \<Rightarrow> memory \<Rightarrow> (uintptr_t \<times> memory) outcome" where
  "memset s ch n m =
     (let a16 = s AND 15; c = \<lparr>sx0 = s, ssize = n, smem = m\<rparr> in
      bindc
        (if n = 0 then Done m
         else if ch = 0 then
           (let a_zva = s AND (push_bit CPU_DCZVA_BITS 1 - 1) in
            if n < 32 then Done (memset_zeros_below32 c)
            else if a_zva = 0 \<and> 0 < drop_bit CPU_DCZVA_BITS n then memset_zeros_dczva c
            else if a16 = 0 then memset_zeros_align16 c
            else memset_zeros_alignable c)
         else
           (let cs = ucast (of_int ch :: u8) :: u64; cs = cs OR push_bit 8 cs; cs = cs OR push_bit 16 cs;
                cs = cs OR push_bit 32 cs in
            if n < 32 then Done (memset_below32 cs c)
            else if a16 = 0 then memset_align16 cs c
            else memset_alignable (of_int ch) c))
        (\<lambda>m. Done (s, m)))"

end
