(* ===== verification/Boot.thy ===== *)
theory Boot
  imports Runtime MemSet
begin

unbundle bit_operations_syntax

text \<open>
  The start of the runtime: \<^verbatim>\<open>src/boot.c\<close>, \<^verbatim>\<open>src/auxvec.c\<close> and \<^verbatim>\<open>src/device_tree.c\<close>, with the
  hypercall they use from \<^verbatim>\<open>src/guest_interface.c\<close>.
\<close>

section \<open>The hypervisor\<close>

text \<open>
  A hypercall is a function of its number and of the registers before it; what it answers may
  depend on the history.
\<close>

type_synonym registers = "nat \<Rightarrow> register_t"
type_synonym hypervisor = "trace \<Rightarrow> nat \<Rightarrow> registers \<Rightarrow> registers"

record prng_result =
  pr_error :: u32
  pr_data0 :: u32
  pr_data1 :: u32
  pr_data2 :: u32
  pr_data3 :: u32

definition gunyah_hyp_prng_get_entropy :: "hypervisor \<Rightarrow> count_t \<Rightarrow> trace \<Rightarrow> prng_result" where
  "gunyah_hyp_prng_get_entropy hvc num_bytes t =
     (let out = hvc t 0x6057 ((\<lambda>_. 0)(0 := ucast num_bytes, 1 := 0))
      in \<lparr>pr_error = ucast (out 0), pr_data0 = ucast (out 1), pr_data1 = ucast (out 2),
          pr_data2 = ucast (out 3), pr_data3 = ucast (out 4)\<rparr>)"

section \<open>The environment of the runtime\<close>

text \<open>The structure at \<open>env_data\<close>, as it lies in memory.\<close>

record rt_env_data =
  ed_signature :: u32
  ed_version :: u16
  ed_runtime_ipa :: u64
  ed_app_ipa :: u64
  ed_app_heap_ipa :: u64
  ed_app_heap_size :: u64
  ed_vcpu_capid :: u64
  ed_timer_freq :: u64
  ed_gicd_base :: u64
  ed_gicr_base :: u64
  ed_rm_config_offset :: u64
  ed_rm_config_size :: u64

abbreviation (input) "sizeof_rt_env_data \<equiv> (88 :: u64)"

definition load_env_data :: "memory \<Rightarrow> uintptr_t \<Rightarrow> rt_env_data" where
  "load_env_data m a =
     \<lparr>ed_signature = load32 m a, ed_version = load16 m (a + 4), ed_runtime_ipa = load64 m (a + 8),
      ed_app_ipa = load64 m (a + 16), ed_app_heap_ipa = load64 m (a + 24), ed_app_heap_size = load64 m (a + 32),
      ed_vcpu_capid = load64 m (a + 40), ed_timer_freq = load64 m (a + 48), ed_gicd_base = load64 m (a + 56),
      ed_gicr_base = load64 m (a + 64), ed_rm_config_offset = load64 m (a + 72), ed_rm_config_size = load64 m (a + 80)\<rparr>"

text \<open>Where the linker and the loader put the objects whose addresses are passed on.\<close>

record image =
  img_env_data :: uintptr_t
  img_exec_name :: uintptr_t
  img_app_name :: uintptr_t
  img_aux_entropy :: uintptr_t
  img_log_buf :: uintptr_t

text \<open>What comes from \<^verbatim>\<open>elf.h\<close>: the fields of the headers and the keys of the auxiliary vector.\<close>

record elf_abi =
  e_phoff :: "memory \<Rightarrow> uintptr_t \<Rightarrow> u64"
  e_phnum :: "memory \<Rightarrow> uintptr_t \<Rightarrow> u64"
  e_entry :: "memory \<Rightarrow> uintptr_t \<Rightarrow> u64"
  sizeof_phdr :: u64
  AT_PAGESZ :: u64
  AT_PHDR :: u64
  AT_PHENT :: u64
  AT_PHNUM :: u64
  AT_EXECFN :: u64
  AT_RANDOM :: u64

section \<open>boot.c\<close>

text \<open>The result is the stack guard and the new state.\<close>

definition runtime_init ::
  "environment \<Rightarrow> hypervisor \<Rightarrow> image \<Rightarrow> runtime \<Rightarrow> (uintptr_t \<times> runtime) outcome" where
  "runtime_init env hvc img st =
     (let ret = gunyah_hyp_prng_get_entropy hvc 8 (io (rt_irq st));
          guard = (if pr_error ret = 0 then ucast (pr_data0 ret) OR push_bit 32 (ucast (pr_data1 ret))
                   else 0x1f2c38a9b459e37d)
      in bindc (interrupt_init env (rt_irq st)) (\<lambda>irq.
         bindc (fs_init (rt_fs st)) (\<lambda>fs.
         bindc (timer_init env (ed_timer_freq (load_env_data (rt_mem st) (img_env_data img))) irq) (\<lambda>(tm, irq).
           Done (guard, st\<lparr>rt_irq := irq, rt_fs := fs, rt_timer := tm\<rparr>)))))"

section \<open>device_tree.c\<close>

record device_tree_info =
  dt_argc :: u64
  dt_argv :: "u64 list"
  dt_envc :: u64
  dt_envp :: "u64 list"

abbreviation (input) "early_log_buf_size \<equiv> (312 :: u64)"

definition parse_device_tree :: "image \<Rightarrow> device_tree_info" where
  "parse_device_tree img =
     \<lparr>dt_argc = 4,
      dt_argv = [img_exec_name img, img_env_data img + sizeof_rt_env_data, img_log_buf img, early_log_buf_size],
      dt_envc = 1, dt_envp = [img_exec_name img]\<rparr>"

section \<open>auxvec.c\<close>

text \<open>The stack pointer and memory.\<close>

type_synonym stack = "uintptr_t \<times> memory"

definition get_aux_entropy :: "hypervisor \<Rightarrow> image \<Rightarrow> trace \<Rightarrow> memory \<Rightarrow> bool \<times> memory" where
  "get_aux_entropy hvc img t m =
     (let ret = gunyah_hyp_prng_get_entropy hvc 16 t; a = img_aux_entropy img in
      if pr_error ret = 0
      then (True, store32 (store32 (store32 (store32 m a (pr_data0 ret)) (a + 4) (pr_data1 ret))
                    (a + 8) (pr_data2 ret)) (a + 12) (pr_data3 ret))
      else (False, m))"

definition fill_entry :: "u64 \<Rightarrow> stack \<Rightarrow> stack" where
  "fill_entry value s = (let p = fst s - 8 in (p, store64 (snd s) p value))"

definition fill_auxv_entry :: "u64 \<Rightarrow> u64 \<Rightarrow> stack \<Rightarrow> stack" where
  "fill_auxv_entry key value s = fill_entry key (fill_entry value s)"

text \<open>The entry address and the new stack.\<close>

definition setup_auxvector ::
  "elf_abi \<Rightarrow> hypervisor \<Rightarrow> image \<Rightarrow> trace \<Rightarrow> uintptr_t \<Rightarrow> stack \<Rightarrow> uintptr_t \<times> stack" where
  "setup_auxvector abi hvc img t app_addr s =
     (let m = snd s;
          phdr_addr = e_phoff abi m app_addr + app_addr;
          ph_entry_cnt = e_phnum abi m app_addr;
          entry_addr = e_entry abi m app_addr + app_addr;
          s = fill_auxv_entry (AT_PAGESZ abi) PAGE_SIZE s;
          s = fill_auxv_entry (AT_PHDR abi) phdr_addr s;
          s = fill_auxv_entry (AT_PHENT abi) (sizeof_phdr abi) s;
          s = fill_auxv_entry (AT_PHNUM abi) ph_entry_cnt s;
          s = fill_auxv_entry (AT_EXECFN abi) (img_app_name img) s;
          (ok, m) = get_aux_entropy hvc img t (snd s);
          s = (fst s, m)
      in (entry_addr, if ok then fill_auxv_entry (AT_RANDOM abi) (img_aux_entropy img) s else s))"

text \<open>The loops that count an index down to 0 over an array.\<close>

definition fill_array :: "int \<Rightarrow> u64 list \<Rightarrow> stack \<Rightarrow> stack outcome" where
  "fill_array cnt vals s =
     in_object (nat cnt \<le> length vals) (Done (fold (\<lambda>idx. fill_entry (vals ! idx)) (rev [0..<nat cnt]) s))"

definition setup_envs :: "int \<Rightarrow> u64 list \<Rightarrow> stack \<Rightarrow> stack outcome" where
  "setup_envs envc envp s = ensure (envc \<ge> 0) (fill_array envc envp (fill_entry 0 s))"

definition setup_arguments :: "int \<Rightarrow> u64 list \<Rightarrow> stack \<Rightarrow> stack outcome" where
  "setup_arguments argc arg_values s =
     ensure (argc \<ge> 0)
       (bindc (fill_array argc arg_values (fill_entry 0 s)) (\<lambda>s. Done (fill_entry (of_int argc) s)))"

abbreviation (input) "STACK_SIZE \<equiv> (0x4000 :: u64)"

text \<open>The padding: \<open>pad\<close> is a 32-bit count.\<close>

definition stack_pad :: "device_tree_info \<Rightarrow> uintptr_t \<Rightarrow> count_t" where
  "stack_pad info stack =
     (let aux_size_var = (2 + dt_argc info + dt_envc info + 1) * 8 in ucast ((aux_size_var + stack) mod 16 div 8))"

text \<open>The result is the entry of the application, its stack pointer \<open>app_stack\<close>, and the state.\<close>

definition elf_setup ::
  "platform \<Rightarrow> elf_abi \<Rightarrow> hypervisor \<Rightarrow> image \<Rightarrow> runtime \<Rightarrow> (uintptr_t \<times> uintptr_t \<times> runtime) outcome" where
  "elf_setup pf abi hvc img st =
     (let env_data = load_env_data (rt_mem st) (img_env_data img);
          app_address = ed_app_ipa env_data;
          app_memory_size = ed_app_heap_size env_data;
          app_memory = ed_app_heap_ipa env_data in
      ensure (app_memory_size > STACK_SIZE)
        (let app_stack = app_memory + STACK_SIZE in
         bindc (memset app_memory 0xeb 64 (rt_mem st)) (\<lambda>(_, m).
         let st = st\<lparr>rt_mm := (rt_mm st)\<lparr>mm_mem := m\<rparr>\<rparr>;
             app_memory = app_memory + STACK_SIZE;
             app_memory_size = app_memory_size - STACK_SIZE in
         bindc (mm_call pf (mmap_add_heap app_memory app_memory_size True) st) (\<lambda>(heap_ret, st).
         ensure (heap_ret = 0)
           (let info = parse_device_tree img;
                s = fill_entry 0 (app_stack, rt_mem st);
                s = (fill_entry 0 ^^ unat (stack_pad info (fst s))) s;
                (app_entry, s) = setup_auxvector abi hvc img (io (rt_irq st)) app_address s in
            bindc (setup_envs (int32_of (dt_envc info)) (dt_envp info) s) (\<lambda>s.
            bindc (setup_arguments (int32_of (dt_argc info)) (dt_argv info) s) (\<lambda>s.
            ensure (util_is_baligned (fst s) 16)
              (Done (app_entry, fst s, st\<lparr>rt_mm := (rt_mm st)\<lparr>mm_mem := snd s\<rparr>\<rparr>)))))))))"

section \<open>The start of the application\<close>

text \<open>
  The calls that \<^verbatim>\<open>boot.S\<close> makes once the image is relocated. The result holds the stack
  guard, and the entry and stack pointer with which the application starts.
\<close>

definition start_runtime ::
  "platform \<Rightarrow> elf_abi \<Rightarrow> hypervisor \<Rightarrow> image \<Rightarrow> runtime \<Rightarrow>
     (uintptr_t \<times> uintptr_t \<times> uintptr_t \<times> runtime) outcome" where
  "start_runtime pf abi hvc img st =
     bindc (runtime_init (pf_env pf) hvc img st) (\<lambda>(guard, st).
     bindc (elf_setup pf abi hvc img st) (\<lambda>(app_entry, app_stack, st). Done (guard, app_entry, app_stack, st)))"

text \<open>The static variables as the image holds them.\<close>

definition runtime_image :: "memory \<Rightarrow> trace \<Rightarrow> runtime" where
  "runtime_image m t =
     \<lparr>rt_mm = mmap_initial m, rt_irq = \<lparr>isr_table = no_isrs, timer_fired = False, io = t\<rparr>,
      rt_timer = \<lparr>timer_freq = 0, timespec_max_sec = 0\<rparr>, rt_console = console_initial,
      rt_log = early_log_buf, rt_exit = 0, rt_fs = fs_zero, rt_eol = True\<rparr>"

end
