(* ===== verification/MemCopySpec.thy ===== *)
theory MemCopySpec
  imports MemCopy
begin

unbundle bit_operations_syntax

text \<open>
  What the copies do. \<open>copied d s n m\<close> is the memory after a correct copy. Every routine of
  \<^verbatim>\<open>memcpy.S\<close> is correct when the destination does not lie inside the source, that is, when no
  byte is overwritten before it is read by a copy from the front to the back.
\<close>

section \<open>The specification of a copy\<close>

text \<open>The memory after \<open>n\<close> bytes are written from \<open>d\<close> on, byte \<open>j\<close> with the value \<open>f j\<close>.\<close>

definition written :: "uintptr_t \<Rightarrow> (nat \<Rightarrow> u8) \<Rightarrow> nat \<Rightarrow> memory \<Rightarrow> memory" where
  "written d f n m = (\<lambda>a. if unat (a - d) < n then f (unat (a - d)) else m a)"

lemma written_0 [simp]: "written d f 0 m = m"
  by (simp add: written_def)

lemma store_written:
  assumes "i + k < 2 ^ 64"
  shows "store_block (d + of_nat i) (map (\<lambda>l. f (i + l)) [0..<k]) (written d f i m) = written d f (i + k) m"
proof (rule ext)
  fix a
  let ?o = "a - d"
  have o: "a - (d + of_nat i) = ?o - of_nat i" by (simp add: algebra_simps)
  consider "unat ?o < i" | "i \<le> unat ?o" by linarith
  then show "store_block (d + of_nat i) (map (\<lambda>l. f (i + l)) [0..<k]) (written d f i m) a = written d f (i + k) m a"
  proof cases
    case 1
    have "unat (?o - of_nat i) = unat ?o + 2 ^ 64 - i"
      using 1 assms by (simp add: unat_sub_if')
    then have "\<not> unat (a - (d + of_nat i)) < k" unfolding o using assms by simp
    then show ?thesis using 1 by (simp add: store_block_def written_def)
  next
    case 2
    have "unat (?o - of_nat i) = unat ?o - i"
      using 2 assms by (simp add: unat_sub_fits)
    then have "unat (a - (d + of_nat i)) = unat ?o - i" unfolding o .
    then show ?thesis using 2 by (auto simp: store_block_def written_def)
  qed
qed

definition copied :: "uintptr_t \<Rightarrow> uintptr_t \<Rightarrow> nat \<Rightarrow> memory \<Rightarrow> memory" where
  "copied d s n m = (\<lambda>a. if unat (a - d) < n then m (s + (a - d)) else m a)"

definition forward_safe :: "uintptr_t \<Rightarrow> uintptr_t \<Rightarrow> nat \<Rightarrow> bool" where
  "forward_safe d s n \<longleftrightarrow> d = s \<or> n \<le> unat (d - s)"

lemma copied_0 [simp]: "copied d s 0 m = m"
  by (simp add: copied_def)

lemma copied_same [simp]: "copied d d n m = m"
  by (auto simp: copied_def)

lemma copied_read:
  assumes "forward_safe d s n" "j \<le> i" "i < n" "n < 2 ^ 64"
  shows "copied d s j m (s + of_nat i) = m (s + of_nat i)"
proof (cases "d = s")
  case False
  then have n: "n \<le> unat (d - s)" using assms(1) by (simp add: forward_safe_def)
  have "\<not> unat (s + of_nat i - d) < j"
  proof
    let ?t = "unat (s + of_nat i - d)"
    assume t: "?t < j"
    have "d - s = of_nat i - of_nat ?t" by (simp add: algebra_simps)
    also have "\<dots> = of_nat (i - ?t)" using t assms(2) by (simp add: of_nat_diff)
    finally have "unat (d - s) = i - ?t" using assms(3,4) by simp
    with n t assms(2,3) show False by linarith
  qed
  then show ?thesis by (simp add: copied_def)
qed simp

lemma load_copied:
  assumes "forward_safe d s n" "j \<le> i" "i + k \<le> n" "n < 2 ^ 64"
  shows "load_block (copied d s j m) (s + of_nat i) k = load_block m (s + of_nat i) k"
proof -
  have "copied d s j m (s + of_nat i + of_nat l) = m (s + of_nat i + of_nat l)" if "l < k" for l
    using copied_read [OF assms(1), of j "i + l" m] assms(2-4) that by (simp add: add.assoc)
  then show ?thesis by (simp add: load_block_def)
qed

lemma copied_written: "copied d s n m = written d (\<lambda>j. m (s + of_nat j)) n m"
  by (rule ext) (auto simp: copied_def written_def)

lemma store_copied:
  assumes "i + k < 2 ^ 64"
  shows "store_block (d + of_nat i) (load_block m (s + of_nat i) k) (copied d s i m) = copied d s (i + k) m"
  using store_written [OF assms, of d "\<lambda>j. m (s + of_nat j)" m]
  unfolding copied_written load_block_def by (simp add: add.assoc)

section \<open>Single moves\<close>

text \<open>The registers after the first \<open>i\<close> bytes of a copy from \<open>s\<close> to \<open>d\<close>.\<close>

definition moved :: "uintptr_t \<Rightarrow> uintptr_t \<Rightarrow> memory \<Rightarrow> nat \<Rightarrow> copy_regs \<Rightarrow> bool" where
  "moved d s m i c \<longleftrightarrow> cx0 c = d + of_nat i \<and> cx1 c = s + of_nat i \<and> cmem c = copied d s i m"

lemma moved_move:
  assumes "forward_safe d s n" "n < 2 ^ 64" "moved d s m i c" "i + k \<le> n"
  shows "moved d s m (i + k) (move k c)"
  using assms load_copied [OF assms(1) order_refl assms(4,2), of m] store_copied [of i k d m s]
  by (simp add: moved_def move_def add.assoc)

lemma cx2_move [simp]: "cx2 (move k c) = cx2 c" "cx2 (move_bit j c) = cx2 c"
  by (simp_all add: move_def move_bit_def)

lemma moved_bit:
  assumes "forward_safe d s n" "n < 2 ^ 64" "moved d s m i c" "i + of_bool (bit (cx2 c) j) * 2 ^ j \<le> n"
  shows "moved d s m (i + of_bool (bit (cx2 c) j) * 2 ^ j) (move_bit j c)"
  using moved_move [OF assms(1-3), of "2 ^ j"] assms(3,4) by (auto simp: move_bit_def)

lemma low_bits4: "of_bool (bit n 3) * 8 + of_bool (bit n 2) * 4 + of_bool (bit n 1) * 2 + of_bool (bit n 0) = n mod 16"
  for n :: nat
proof -
  have odd: "of_bool (odd k) = k mod 2" for k :: nat by (simp add: mod_2_eq_odd)
  show ?thesis unfolding bit_iff_odd odd
    using mod_mult2_eq [of n 2 8] mod_mult2_eq [of "n div 2" 2 4] mod_mult2_eq [of "n div 4" 2 2]
    by (simp add: div_mult2_eq [symmetric])
qed

lemma bit_of_unat: "bit (unat (w :: u64)) j \<longleftrightarrow> bit w j"
  by (simp add: bit_unsigned_iff)

lemma below16_copies:
  assumes "forward_safe d s n" "n < 2 ^ 64" "moved d s m i c" "i + unat (cx2 c) mod 16 \<le> n"
  shows "memcpy_below16 c = copied d s (i + unat (cx2 c) mod 16) m"
proof -
  let ?b = "\<lambda>j. of_bool (bit (cx2 c) j) :: nat"
  note bits = low_bits4 [of "unat (cx2 c)", unfolded bit_of_unat]
  note mb = moved_bit [OF assms(1,2)]
  have 1: "moved d s m (i + ?b 3 * 2 ^ 3) (move_bit 3 c)"
    using mb [OF assms(3), of 3] assms(4) bits by simp
  have 2: "moved d s m (i + ?b 3 * 2 ^ 3 + ?b 2 * 2 ^ 2) (move_bit 2 (move_bit 3 c))"
    using mb [OF 1, of 2] assms(4) bits by simp
  have 3: "moved d s m (i + ?b 3 * 2 ^ 3 + ?b 2 * 2 ^ 2 + ?b 1 * 2 ^ 1) (move_bit 1 (move_bit 2 (move_bit 3 c)))"
    using mb [OF 2, of 1] assms(4) bits by simp
  have 4: "moved d s m (i + ?b 3 * 2 ^ 3 + ?b 2 * 2 ^ 2 + ?b 1 * 2 ^ 1 + ?b 0 * 2 ^ 0)
      (move_bit 0 (move_bit 1 (move_bit 2 (move_bit 3 c))))"
    using mb [OF 3, of 0] assms(4) bits by simp
  then show ?thesis using bits by (simp add: memcpy_below16_def moved_def add.assoc)
qed

lemma below32_copies:
  assumes "forward_safe d s (unat n)" "n < 32"
  shows "memcpy_below32 \<lparr>cx0 = d, cx1 = s, cx2 = n, cmem = m\<rparr> = copied d s (unat n) m"
proof -
  let ?c = "\<lparr>cx0 = d, cx1 = s, cx2 = n, cmem = m\<rparr>"
  have lt: "unat n < 32" using assms(2) by (simp add: word_less_nat_alt)
  have n64: "unat n < 2 ^ 64" using unat_lt64 [of n] by simp
  have b: "bit n 4 \<longleftrightarrow> 16 \<le> unat n"
  proof -
    have "bit n 4 \<longleftrightarrow> odd (unat n div 16)" using bit_of_unat [of n 4] by (simp add: bit_iff_odd)
    also have "unat n div 16 = (if 16 \<le> unat n then 1 else 0)" using lt by auto
    finally show ?thesis by simp
  qed
  have sz: "unat n = of_bool (bit n 4) * 2 ^ 4 + unat n mod 16"
    using b lt mod_if [of "unat n" 16] by (cases "16 \<le> unat n") auto
  have 0: "moved d s m 0 ?c" by (simp add: moved_def)
  have "moved d s m (0 + of_bool (bit (cx2 ?c) 4) * 2 ^ 4) (move_bit 4 ?c)"
    by (rule moved_bit [OF assms(1) n64 0]) (use sz in simp)
  from below16_copies [OF assms(1) n64 this] sz show ?thesis by (simp add: memcpy_below32_def)
qed

section \<open>Sequences of pairs\<close>

text \<open>
  After the first \<open>i\<close> bytes: the pairs from \<open>a\<close> up to \<open>b\<close> are loaded, those below \<open>a\<close> are stored.
  Pair number \<open>k\<close> of this part of the copy is kept in the registers \<open>(q + k) mod 8\<close>.
\<close>

definition pairs ::
  "uintptr_t \<Rightarrow> uintptr_t \<Rightarrow> memory \<Rightarrow> nat \<Rightarrow> nat \<Rightarrow> nat \<Rightarrow> nat \<Rightarrow> u8 list list \<times> memory \<Rightarrow> bool" where
  "pairs d s m i q a b st \<longleftrightarrow>
     a \<le> b \<and> b \<le> a + 8 \<and> length (fst st) = 8 \<and> snd st = copied d s (i + 16 * a) m \<and>
     (\<forall>k. a \<le> k \<and> k < b \<longrightarrow> fst st ! ((q + k) mod 8) = load_block m (s + of_nat (i + 16 * k)) 16)"

lemma pairs_load:
  assumes "pairs d s m i q a b st" "forward_safe d s n" "n < 2 ^ 64" "b < a + 8" "i + 16 * (b + 1) \<le> n"
    "r = (q + b) mod 8" "x1 + off = s + of_nat (i + 16 * b)"
  shows "pairs d s m i q a (b + 1) (run_op x0 x1 (Ldp r off) st)"
proof -
  obtain regs m' where st: "st = (regs, m')" by (cases st)
  have p: "a \<le> b" "length regs = 8" "m' = copied d s (i + 16 * a) m"
    "\<And>k. a \<le> k \<Longrightarrow> k < b \<Longrightarrow> regs ! ((q + k) mod 8) = load_block m (s + of_nat (i + 16 * k)) 16"
    using assms(1) by (simp_all add: pairs_def st)
  have l: "load_block m' (x1 + off) 16 = load_block m (s + of_nat (i + 16 * b)) 16"
    unfolding p(3) assms(7) by (rule load_copied [OF assms(2)]) (use p(1) assms(3,5) in simp_all)
  have "(q + b) mod 8 \<noteq> (q + k) mod 8" if "a \<le> k" "k < b" for k
  proof
    assume "(q + b) mod 8 = (q + k) mod 8"
    then have "8 dvd (q + b) - (q + k)" by (metis mod_eq_dvd_iff_nat add_left_mono less_imp_le that(2))
    then show False using that assms(4) by (auto dest: dvd_imp_le)
  qed
  then have "regs[(q + b) mod 8 := load_block m' (x1 + off) 16] ! ((q + k) mod 8) =
      load_block m (s + of_nat (i + 16 * k)) 16" if "a \<le> k" "k < b + 1" for k
    using that p(2,4) l by (cases "k = b") (auto simp: less_Suc_eq)
  then show ?thesis using p(1-3) assms(4,6) by (simp add: pairs_def st)
qed

lemma pairs_store:
  assumes "pairs d s m i q a b st" "a < b" "i + 16 * (a + 1) < 2 ^ 64"
    "r = (q + a) mod 8" "x0 + off = d + of_nat (i + 16 * a)"
  shows "pairs d s m i q (a + 1) b (run_op x0 x1 (Stp r off) st)"
  using assms store_copied [of "i + 16 * a" 16 d m s]
  by (cases st) (auto simp: pairs_def add_ac)

text \<open>The same backwards, to take a sequence apart from its end.\<close>

lemma pairs_loadI:
  assumes "forward_safe d s n" "n < 2 ^ 64" "pairs d s m i q a (b - 1) st"
    "0 < b" "b \<le> a + 8" "i + 16 * b \<le> n" "r = (q + (b - 1)) mod 8" "x1 + off = s + of_nat (i + 16 * (b - 1))"
  shows "pairs d s m i q a b (run_op x0 x1 (Ldp r off) st)"
  using pairs_load [OF assms(3,1,2) _ _ assms(7,8)] assms(4-6) by simp

lemma pairs_storeI:
  assumes "n < 2 ^ 64" "pairs d s m i q (a - 1) b st" "0 < a" "a \<le> b" "i + 16 * a \<le> n"
    "r = (q + (a - 1)) mod 8" "x0 + off = d + of_nat (i + 16 * (a - 1))"
  shows "pairs d s m i q a b (run_op x0 x1 (Stp r off) st)"
  using pairs_store [OF assms(2) _ _ assms(6,7)] assms(1,3-5) by simp

lemma pairs_start: "length regs = 8 \<Longrightarrow> pairs d s m i q 0 0 (regs, copied d s i m)"
  by (simp add: pairs_def)

lemma pairs_done: "pairs d s m i q a b st \<Longrightarrow> snd st = copied d s (i + 16 * a) m \<and> length (fst st) = 8"
  by (simp add: pairs_def)

lemma one_chunk_pairs:
  assumes "length regs = 8" "forward_safe d s n" "n < 2 ^ 64" "i + 128 \<le> n"
  shows "pairs d s m i 0 8 8
    (fold (run_op (d + of_nat i) (s + of_nat i)) one_chunk (regs, copied d s i m))"
  unfolding one_chunk_def fold.simps comp_apply id_apply
  by (intro pairs_loadI [OF assms(2,3)] pairs_storeI [OF assms(3)])
    (use assms in \<open>simp_all add: pairs_start\<close>)

lemma chunk_body_pairs:
  assumes "pairs d s m i 0 (8 * t) (8 * t + 8) st" "forward_safe d s n" "n < 2 ^ 64" "i + 128 * (t + 2) \<le> n"
    "x0 = d + of_nat (i + 128 * t) + 0x70" "x1 = s + of_nat (i + 128 * t) + 0x70"
  shows "pairs d s m i 0 (8 * t + 8) (8 * t + 16) (fold (run_op x0 x1) chunk_body st)"
  unfolding chunk_body_def fold.simps comp_apply id_apply
  by (intro pairs_loadI [OF assms(2,3)] pairs_storeI [OF assms(3)])
    (use assms in \<open>simp_all add: algebra_simps mod_Suc\<close>)

lemma loads_pairs:
  assumes "length regs = 8" "forward_safe d s n" "n < 2 ^ 64" "i + 16 * c \<le> n" "q + c \<le> 8" "k \<le> c"
    "x1 + off = s + of_nat i - of_nat (16 * q)"
  shows "pairs d s m i q 0 k (fold (run_op x0 x1) (map (\<lambda>k. Ldp k (off + of_nat (16 * k))) [q..<q + k])
    (regs, copied d s i m))"
  using assms(6)
proof (induction k)
  case 0
  then show ?case using assms(1) by (simp add: pairs_start)
next
  case (Suc k)
  have "x1 + (off + of_nat (16 * (q + k))) = s + of_nat (i + 16 * k)"
    using assms(7) by (simp add: algebra_simps)
  from pairs_load [OF Suc(1) assms(2,3) _ _ _ this] Suc(2) assms(4,5)
  have "pairs d s m i q 0 (k + 1) (run_op x0 x1 (Ldp (q + k) (off + of_nat (16 * (q + k))))
      (fold (run_op x0 x1) (map (\<lambda>k. Ldp k (off + of_nat (16 * k))) [q..<q + k]) (regs, copied d s i m)))"
    by simp
  then show ?case by simp
qed

lemma stores_pairs:
  assumes "pairs d s m i q t (t + c) st" "n < 2 ^ 64" "i + 16 * (t + c) \<le> n" "q + c \<le> 8" "k \<le> c"
    "t mod 8 = 0" "x0 + off = d + of_nat (i + 16 * t) - of_nat (16 * q)"
  shows "pairs d s m i q (t + k) (t + c) (fold (run_op x0 x1) (map (\<lambda>k. Stp k (off + of_nat (16 * k))) [q..<q + k]) st)"
  using assms(5)
proof (induction k)
  case 0
  then show ?case using assms(1) by simp
next
  case (Suc k)
  have "x0 + (off + of_nat (16 * (q + k))) = d + of_nat (i + 16 * (t + k))"
    using assms(7) by (simp add: algebra_simps)
  moreover have "q + k = (q + (t + k)) mod 8"
    using mod_add_left_eq [of t 8 "q + k"] assms(4,6) Suc(2) by (simp add: add.left_commute)
  ultimately have "pairs d s m i q (t + k + 1) (t + c) (run_op x0 x1 (Stp (q + k) (off + of_nat (16 * (q + k))))
      (fold (run_op x0 x1) (map (\<lambda>k. Stp k (off + of_nat (16 * k))) [q..<q + k]) st))"
    using pairs_store [OF Suc(1)] Suc(2) assms(2,3) by simp
  then show ?case by simp
qed

section \<open>The routines\<close>

lemma unat_nibbles: "unat (drop_bit 4 (x :: u64)) = unat x div 16" "push_bit 4 (drop_bit 4 x) = of_nat (16 * (unat x div 16))"
proof -
  show d: "unat (drop_bit 4 x) = unat x div 16" by (simp add: drop_bit_eq_div unat_div)
  have "push_bit 4 (drop_bit 4 x) = of_nat (unat (drop_bit 4 x)) * 16" by (simp add: push_bit_eq_mult)
  then show "push_bit 4 (drop_bit 4 x) = of_nat (16 * (unat x div 16))" unfolding d by simp
qed

lemma drop_pairs:
  "q \<le> 7 \<Longrightarrow> drop q (loads_from off 7) = map (\<lambda>k. Ldp k (off + of_nat (16 * k))) [q..<q + (7 - q)]"
  "q \<le> 7 \<Longrightarrow> drop q (stores_to off 7) = map (\<lambda>k. Stp k (off + of_nat (16 * k))) [q..<q + (7 - q)]"
  by (simp_all add: loads_from_def stores_to_def drop_map)

lemma below128_copies:
  assumes "length regs = 8" "forward_safe d s n" "n < 2 ^ 64" "moved d s m i c"
    "unat (cx2 c) < 128" "i + unat (cx2 c) \<le> n"
  shows "memcpy_below128 regs c = Done (copied d s (i + unat (cx2 c)) m)"
proof -
  let ?r = "unat (cx2 c)"
  let ?k = "?r div 16"
  let ?x0 = "cx0 c + of_nat (16 * ?k)" and ?x1 = "cx1 c + of_nat (16 * ?k)" and ?x2 = "cx2 c - of_nat (16 * ?k)"
  note c = assms(4)[unfolded moved_def]
  have k: "?k \<le> 7" "7 - (7 - ?k) = ?k" using assms(5) by simp_all
  have "of_nat (16 * ?k) = (of_nat (112 - 16 * (7 - ?k)) :: u64)" using k(1) by simp
  also have "\<dots> = 0x70 - of_nat (16 * (7 - ?k))" by (subst of_nat_diff) auto
  finally have k16: "of_nat (16 * ?k) = (0x70 :: u64) - of_nat (16 * (7 - ?k))" .
  then have off: "?x1 + - 0x70 = s + of_nat i - of_nat (16 * (7 - ?k))"
    "?x0 + - 0x70 = d + of_nat i - of_nat (16 * (7 - ?k))"
    unfolding k16 using c by simp_all
  obtain regs1 m1 where st1: "fold (run_op ?x0 ?x1) (drop (7 - ?k) (loads_from (- 0x70) 7)) (regs, cmem c) = (regs1, m1)"
    by fastforce
  have p1: "pairs d s m i (7 - ?k) 0 ?k (regs1, m1)"
    using loads_pairs [where m = m and c = ?k and k = ?k and ?x0.0 = ?x0, OF assms(1-3) _ _ _ off(1)] assms(5,6) c k
    unfolding drop_pairs(1) [OF diff_le_self] k(2) st1 [unfolded drop_pairs(1) [OF diff_le_self] k(2), symmetric] by simp
  obtain regs2 m2 where st2: "fold (run_op ?x0 ?x1) (drop (7 - ?k) (stores_to (- 0x70) 7)) (regs1, m1) = (regs2, m2)"
    by fastforce
  have "pairs d s m i (7 - ?k) ?k ?k (regs2, m2)"
    using stores_pairs [where t = 0 and c = ?k and k = ?k and q = "7 - ?k" and i = i and d = d and st = "(regs1, m1)"
        and ?x0.0 = ?x0 and ?x1.0 = ?x1 and off = "- 0x70", OF _ assms(3)] p1 assms(5,6) off(2) k
    unfolding st2 [unfolded drop_pairs(2) [OF diff_le_self] k(2), symmetric] by simp
  then have m2: "m2 = copied d s (i + 16 * ?k) m" by (simp add: pairs_def)
  have "unat (of_nat (16 * ?k) :: u64) = 16 * ?k" using assms(5) by (subst unat_of_nat64) auto
  then have x2: "unat ?x2 = ?r mod 16" by (subst unat_sub_fits) (simp_all add: minus_mult_div_eq_mod [symmetric])
  have "moved d s m (i + 16 * ?k) \<lparr>cx0 = ?x0, cx1 = ?x1, cx2 = ?x2, cmem = m2\<rparr>"
    using c m2 by (simp add: moved_def add.assoc)
  note b = below16_copies [OF assms(2,3) this]
  have sum: "i + 16 * ?k + ?r mod 16 = i + ?r" by simp
  have last: "(if ?x2 \<noteq> 0 then memcpy_below16 \<lparr>cx0 = ?x0, cx1 = ?x1, cx2 = ?x2, cmem = m2\<rparr> else m2) = copied d s (i + ?r) m"
  proof (cases "?x2 = 0")
    case True
    then have "?r mod 16 = 0" using x2 by simp
    then show ?thesis using True m2 sum by simp
  next
    case False
    with b x2 sum assms(6) show ?thesis by (simp add: add.commute)
  qed
  have "drop_bit 4 (cx2 c) \<le> 7" using k(1) unat_nibbles(1) [of "cx2 c"] by (simp add: word_le_nat_alt)
  then show ?thesis
    unfolding memcpy_below128_def Let_def unat_nibbles st1 st2 split_conv last in_object_True by simp
qed

text \<open>The signed comparisons of sizes, which are small enough.\<close>

lemma sint_size:
  assumes "unat (x :: u64) < 2 ^ 63"
  shows "sint x < numeral k \<longleftrightarrow> unat x < numeral k" "numeral k \<le> sint x \<longleftrightarrow> numeral k \<le> unat x"
  unfolding sint_nonneg [OF assms]
  by (metis of_nat_numeral of_nat_less_iff) (metis of_nat_numeral of_nat_le_iff)

lemma below256_copies:
  assumes "length regs = 8" "forward_safe d s n" "n < 2 ^ 64" "moved d s m i c"
    "unat (cx2 c) < 256" "i + unat (cx2 c) \<le> n"
  shows "memcpy_below256 regs c = Done (copied d s (i + unat (cx2 c)) m)"
proof (cases "sint (cx2 c) < 0x80")
  case True
  then have "unat (cx2 c) < 128" using sint_size(1) [of "cx2 c"] assms(5) by simp
  with True below128_copies [OF assms(1-4) this assms(6)] show ?thesis by (simp add: memcpy_below256_def)
next
  case False
  have big: "128 \<le> unat (cx2 c)" using False sint_size(1) [of "cx2 c"] assms(5) by simp
  note c = assms(4)[unfolded moved_def]
  obtain regs' m' where st: "fold (run_op (cx0 c) (cx1 c)) one_chunk (regs, cmem c) = (regs', m')" by fastforce
  have p: "pairs d s m i 0 8 8 (regs', m')"
    using one_chunk_pairs [OF assms(1-3), of i m] big assms(6) c st by simp
  let ?c = "\<lparr>cx0 = cx0 c + 0x80, cx1 = cx1 c + 0x80, cx2 = cx2 c - 0x80, cmem = m'\<rparr>"
  have x2: "unat (cx2 ?c) = unat (cx2 c) - 128" using big by (simp add: unat_sub_fits)
  have mv: "moved d s m (i + 128) ?c" and len: "length regs' = 8"
    using pairs_done [OF p] c by (simp_all add: moved_def add.assoc)
  have "memcpy_below128 regs' ?c = Done (copied d s (i + 128 + unat (cx2 ?c)) m)"
    by (rule below128_copies [OF len assms(2,3) mv]) (use x2 big assms(5,6) in simp_all)
  then show ?thesis using False big x2 by (simp add: memcpy_below256_def st add.assoc)
qed

text \<open>The loop, before a round: \<open>t\<close> chunks are stored and the next one is loaded.\<close>

lemma chunk_loop_copies:
  assumes "forward_safe d s n" "n < 2 ^ 64"
  shows "pairs d s m i 0 (8 * t) (8 * t + 8) (regs, cmem c) \<Longrightarrow>
    cx0 c = d + of_nat (i + 128 * t) + 0x70 \<Longrightarrow> cx1 c = s + of_nat (i + 128 * t) + 0x70 \<Longrightarrow>
    unat (cx2 c) < 2 ^ 63 \<Longrightarrow> i + 128 * (t + 2) + unat (cx2 c) = n \<Longrightarrow>
    \<exists>t c' regs'. chunk_loop c regs = (c', regs') \<and> pairs d s m i 0 (8 * t) (8 * t + 8) (regs', cmem c') \<and>
      cx0 c' = d + of_nat (i + 128 * t) + 0x70 \<and> cx1 c' = s + of_nat (i + 128 * t) + 0x70 \<and>
      unat (cx2 c' + 0x80) < 128 \<and> i + 128 * (t + 1) + unat (cx2 c' + 0x80) = n"
proof (induction "unat (cx2 c)" arbitrary: t c regs rule: less_induct)
  case less
  obtain regs' m' where st: "fold (run_op (cx0 c) (cx1 c)) chunk_body (regs, cmem c) = (regs', m')" by fastforce
  let ?c = "\<lparr>cx0 = cx0 c + 0x80, cx1 = cx1 c + 0x80, cx2 = cx2 c - 0x80, cmem = m'\<rparr>"
  have "pairs d s m i 0 (8 * t + 8) (8 * t + 16) (regs', m')"
    using chunk_body_pairs [OF less(2) assms _ less(3,4)] less(6) st by simp
  then have p: "pairs d s m i 0 (8 * (t + 1)) (8 * (t + 1) + 8) (regs', cmem ?c)" by (simp add: add.commute)
  have x: "cx0 ?c = d + of_nat (i + 128 * (t + 1)) + 0x70" "cx1 ?c = s + of_nat (i + 128 * (t + 1)) + 0x70"
    using less(3,4) by (simp_all add: algebra_simps)
  note sint = sint_size [OF less(5)]
  show ?case
  proof (cases "0x80 \<le> sint (cx2 c)")
    case True
    then have x2: "unat (cx2 ?c) = unat (cx2 c) - 128" using sint by (simp add: unat_sub_fits)
    have "chunk_loop c regs = chunk_loop ?c regs'" using True st by (simp add: chunk_loop.simps [of c])
    moreover note less(1) [OF _ p x]
    ultimately show ?thesis using x2 True sint less(5,6) by auto
  next
    case False
    then have "chunk_loop c regs = (?c, regs')" using st by (simp add: chunk_loop.simps [of c])
    moreover have "unat (cx2 ?c + 0x80) < 128" "i + 128 * (t + 1 + 1) + unat (cx2 ?c + 0x80) = n"
      using False sint less(6) by simp_all
    ultimately show ?thesis using p x by blast
  qed
qed

lemma align16_copies:
  assumes "forward_safe d s n" "n < 2 ^ 63" "moved d s m i c" "i + unat (cx2 c) = n"
  shows "memcpy_align16 c = Done (copied d s n m)"
proof -
  have n: "n < 2 ^ 64" and small: "unat (cx2 c) < 2 ^ 63" using assms(2,4) by simp_all
  note c = assms(3)[unfolded moved_def] and sint = sint_size [OF small]
  let ?regs = "replicate 8 (replicate 16 0) :: u8 list list"
  show ?thesis
  proof (cases "sint (cx2 c) < 0x100")
    case True
    then show ?thesis
      using below256_copies [of ?regs, OF _ assms(1) n assms(3)] sint assms(4)
      by (simp add: memcpy_align16_def)
  next
    case False
    then have big: "256 \<le> unat (cx2 c)" using sint by simp
    obtain regs1 m1 where st1: "fold (run_op (cx0 c) (cx1 c)) (loads_from 0 8) (?regs, cmem c) = (regs1, m1)"
      by fastforce
    have p1: "pairs d s m i 0 0 8 (regs1, m1)"
      using loads_pairs [where q = 0 and c = 8 and k = 8 and off = 0 and regs = ?regs and ?x1.0 = "cx1 c"
          and ?x0.0 = "cx0 c" and i = i and m = m, OF _ assms(1) n] c st1 big assms(4) by (simp add: loads_from_def)
    then have m1: "m1 = cmem c" using c by (simp add: pairs_def)
    let ?c1 = "c\<lparr>cx0 := cx0 c + 0x70, cx1 := cx1 c + 0x70, cx2 := cx2 c - 0x100\<rparr>"
    have x2: "unat (cx2 ?c1) = unat (cx2 c) - 256" using big by (simp add: unat_sub_fits)
    have "\<exists>t c' regs'. chunk_loop ?c1 regs1 = (c', regs') \<and> pairs d s m i 0 (8 * t) (8 * t + 8) (regs', cmem c') \<and>
      cx0 c' = d + of_nat (i + 128 * t) + 0x70 \<and> cx1 c' = s + of_nat (i + 128 * t) + 0x70 \<and>
      unat (cx2 c' + 0x80) < 128 \<and> i + 128 * (t + 1) + unat (cx2 c' + 0x80) = n"
      by (rule chunk_loop_copies [OF assms(1) n, where t = 0])
        (use p1 m1 c x2 small assms(4) big in \<open>simp_all add: add.assoc\<close>)
    then obtain t c2 regs2 where lp: "chunk_loop ?c1 regs1 = (c2, regs2)"
      "pairs d s m i 0 (8 * t) (8 * t + 8) (regs2, cmem c2)"
      "cx0 c2 = d + of_nat (i + 128 * t) + 0x70" "cx1 c2 = s + of_nat (i + 128 * t) + 0x70"
      "unat (cx2 c2 + 0x80) < 128" "i + 128 * (t + 1) + unat (cx2 c2 + 0x80) = n" by blast
    obtain regs3 m3 where st3: "fold (run_op (cx0 c2) (cx1 c2)) (stores_to (- 0x70) 8) (regs2, cmem c2) = (regs3, m3)"
      by fastforce
    have "pairs d s m i 0 (8 * t + 8) (8 * t + 8) (regs3, m3)"
      using stores_pairs [where t = "8 * t" and c = 8 and k = 8 and q = 0 and off = "- 0x70" and ?x1.0 = "cx1 c2"
          and ?x0.0 = "cx0 c2", OF lp(2) n] lp(3,6) st3 by (simp add: stores_to_def)
    then have p3: "m3 = copied d s (i + 128 * (t + 1)) m" "length regs3 = 8"
      using pairs_done by (fastforce simp: algebra_simps)+
    let ?c3 = "\<lparr>cx0 = cx0 c2 + 16, cx1 = cx1 c2 + 16, cx2 = cx2 c2 + 0x80, cmem = m3\<rparr>"
    have mv: "moved d s m (i + 128 * (t + 1)) ?c3"
      using p3(1) lp(3,4) by (simp add: moved_def algebra_simps)
    have last: "memcpy_below256 regs3 ?c3 = Done (copied d s (i + 128 * (t + 1) + unat (cx2 ?c3)) m)"
      by (rule below256_copies [OF p3(2) assms(1) n mv]) (use lp(5,6) in simp_all)
    show ?thesis
    proof (cases "cx2 c2 + 0x80 = 0")
      case True
      then show ?thesis using False lp(1,6) p3(1) st1 st3 by (simp add: memcpy_align16_def Let_def m1)
    next
      case nz: False
      then show ?thesis using False lp(1,6) last st1 st3 by (simp add: memcpy_align16_def Let_def m1)
    qed
  qed
qed

lemma align_step_moved:
  assumes "forward_safe d s n" "n < 2 ^ 64" "moved d s m i c" "i + unat (cx2 c) = n" "2 ^ j \<le> unat (cx2 c)"
  shows "\<exists>i'. moved d s m i' (align_step j c) \<and> i' + unat (cx2 (align_step j c)) = n \<and>
    unat (cx2 c) - 2 ^ j \<le> unat (cx2 (align_step j c))"
proof (cases "bit (cx0 c) j")
  case True
  have "unat (of_nat (2 ^ j) :: u64) = 2 ^ j"
    using assms(5) unat_lt64 [of "cx2 c"] by (intro unat_of_nat64) linarith
  then have x2: "unat (cx2 c - 2 ^ j) = unat (cx2 c) - 2 ^ j" using assms(5) by (simp add: unat_sub_fits)
  have "moved d s m (i + 2 ^ j) (move (2 ^ j) c)" by (rule moved_move [OF assms(1-3)]) (use assms(4,5) in simp)
  then have "moved d s m (i + 2 ^ j) (align_step j c)" using True by (simp add: align_step_def moved_def)
  moreover have "i + 2 ^ j + unat (cx2 (align_step j c)) = n" using True x2 assms(4,5) by (simp add: align_step_def)
  ultimately show ?thesis using True x2 by (auto simp: align_step_def)
next
  case False
  then show ?thesis using assms(3,4) by (auto simp: align_step_def)
qed

lemma alignable_copies:
  assumes "forward_safe d s n" "n < 2 ^ 63" "moved d s m i c" "i + unat (cx2 c) = n" "31 \<le> unat (cx2 c)"
  shows "memcpy_alignable c = Done (copied d s n m)"
proof -
  have n: "n < 2 ^ 64" using assms(2) by simp
  note step = align_step_moved [OF assms(1) n]
  let ?c0 = "align_step 0 c" let ?c1 = "align_step 1 ?c0" let ?c2 = "align_step 2 ?c1" let ?c3 = "align_step 3 ?c2"
  obtain i0 where 0: "moved d s m i0 ?c0" "i0 + unat (cx2 ?c0) = n" "30 \<le> unat (cx2 ?c0)"
    using step [OF assms(3,4), of 0] assms(5) by auto
  obtain i1 where 1: "moved d s m i1 ?c1" "i1 + unat (cx2 ?c1) = n" "28 \<le> unat (cx2 ?c1)"
    using step [OF 0(1,2), of 1] 0(3) by auto
  obtain i2 where 2: "moved d s m i2 ?c2" "i2 + unat (cx2 ?c2) = n" "24 \<le> unat (cx2 ?c2)"
    using step [OF 1(1,2), of 2] 1(3) by auto
  obtain i3 where 3: "moved d s m i3 ?c3" "i3 + unat (cx2 ?c3) = n"
    using step [OF 2(1,2), of 3] 2(3) by auto
  show ?thesis unfolding memcpy_alignable_def by (rule align16_copies [OF assms(1,2) 3])
qed

section \<open>The functions\<close>

lemma memcpy_copies:
  assumes "forward_safe s1 s2 (unat n)" "unat n < 2 ^ 63"
  shows "memcpy s1 s2 n m = Done (s1, copied s1 s2 (unat n) m)"
proof -
  let ?c = "\<lparr>cx0 = s1, cx1 = s2, cx2 = n, cmem = m\<rparr>"
  have 0: "moved s1 s2 m 0 ?c" "0 + unat (cx2 ?c) = unat n" by (simp_all add: moved_def)
  show ?thesis
  proof (cases "n < 32")
    case True
    then show ?thesis using below32_copies [OF assms(1) True, of m] by (simp add: memcpy_def Let_def)
  next
    case False
    then have "31 \<le> unat (cx2 ?c)" by (simp add: word_less_nat_alt)
    from align16_copies [OF assms 0] alignable_copies [OF assms 0 this] False show ?thesis
      by (auto simp: memcpy_def Let_def)
  qed
qed

lemma memscpy_copies:
  assumes "forward_safe s1 s2 (unat n)" "unat n < 2 ^ 63" "n = min sz1 sz2"
  shows "memscpy s1 sz1 s2 sz2 m = Done (n, copied s1 s2 (unat n) m)"
  using memcpy_copies [OF assms(1,2), of m] assms(3) by (auto simp: memscpy_def Let_def)

text \<open>
  A copy byte by byte from the front, whatever the overlap: the bytes between the source and
  the destination are repeated.
\<close>

definition smeared :: "uintptr_t \<Rightarrow> uintptr_t \<Rightarrow> nat \<Rightarrow> memory \<Rightarrow> memory" where
  "smeared d s n m = written d (\<lambda>j. m (s + of_nat (j mod unat (d - s)))) n m"

lemma smeared_copied: "n \<le> unat (d - s) \<Longrightarrow> smeared d s n m = copied d s n m"
  by (rule ext) (auto simp: smeared_def copied_written written_def)

lemma smear_byte:
  assumes "0 < unat (d - s)" "unat (d - s) + n \<le> 2 ^ 64" "i < n"
  shows "store_block (d + of_nat i) (load_block (smeared d s i m) (s + of_nat i) 1) (smeared d s i m) =
    smeared d s (i + 1) m"
proof -
  let ?p = "unat (d - s)"
  have read: "smeared d s i m (s + of_nat i) = m (s + of_nat (i mod ?p))"
  proof (cases "i < ?p")
    case True
    have e: "s + of_nat i - d = of_nat i - (d - s)" by (simp add: algebra_simps)
    have "unat (s + of_nat i - d) = i + 2 ^ 64 - ?p"
      using unat_sub_if' [of "of_nat i :: u64" "d - s"] True assms(2,3) unfolding e by simp
    then have "\<not> unat (s + of_nat i - d) < i" using assms(2,3) by simp
    then show ?thesis using True by (simp add: smeared_def written_def)
  next
    case False
    have "s + of_nat i - d = of_nat i - of_nat ?p" by (simp add: algebra_simps)
    also have "\<dots> = of_nat (i - ?p)" using False by (simp add: of_nat_diff)
    finally have "unat (s + of_nat i - d) = i - ?p" using assms(2,3) by simp
    then show ?thesis using False assms(1) by (simp add: smeared_def written_def le_mod_geq)
  qed
  then have "load_block (smeared d s i m) (s + of_nat i) 1 = map (\<lambda>l. m (s + of_nat ((i + l) mod ?p))) [0..<1]"
    by (simp add: load_block_def)
  then show ?thesis
    using store_written [of i 1 d "\<lambda>j. m (s + of_nat (j mod ?p))" m] assms by (simp add: smeared_def)
qed

lemma bytes_loop_smears:
  assumes "0 < unat (d - s)" "unat (d - s) + n \<le> 2 ^ 64"
  shows "cx0 c = d + of_nat i \<Longrightarrow> cx1 c = s + of_nat i \<Longrightarrow> cmem c = smeared d s i m \<Longrightarrow>
    0 < unat (cx2 c) \<Longrightarrow> i + unat (cx2 c) = n \<Longrightarrow> bytes_loop c = smeared d s n m"
proof (induction "unat (cx2 c)" arbitrary: i c rule: less_induct)
  case less
  let ?c = "(move 1 c)\<lparr>cx2 := cx2 c - 1\<rparr>"
  have x2: "unat (cx2 ?c) = unat (cx2 c) - 1" using less(5) unat_pred [of "cx2 c"] by (auto simp: unat_gt_0)
  have c: "cx0 ?c = d + of_nat (i + 1)" "cx1 ?c = s + of_nat (i + 1)" "cmem ?c = smeared d s (i + 1) m"
    using less(2-4) smear_byte [OF assms, of i m] less(5,6) by (simp_all add: move_def add.assoc)
  show ?case
  proof (cases "cx2 c - 1 = 0")
    case True
    then have "unat (cx2 c) = 1" by simp
    then show ?thesis using True c(3) less(6) by (simp add: bytes_loop.simps [of c])
  next
    case False
    then have "bytes_loop c = bytes_loop ?c" by (simp add: bytes_loop.simps [of c] Let_def)
    also have "\<dots> = smeared d s n m"
      by (rule less(1) [OF _ c]) (use False x2 less(5,6) unat_gt_0 [of "cx2 c - 1"] in auto)
    finally show ?thesis .
  qed
qed

lemma memcpy_bytes_smears:
  assumes "0 < unat (d - s)" "unat (d - s) + unat n \<le> 2 ^ 64"
  shows "memcpy_bytes \<lparr>cx0 = d, cx1 = s, cx2 = n, cmem = m\<rparr> = smeared d s (unat n) m"
  using bytes_loop_smears [OF assms, of "\<lparr>cx0 = d, cx1 = s, cx2 = n, cmem = m\<rparr>" 0 m]
  by (cases "n = 0") (auto simp: memcpy_bytes_def smeared_def unat_gt_0)

section \<open>Properties of the copies\<close>

text \<open>C26: \<open>memcpy\<close> copies exactly the bytes it is asked to, for every size below \<open>2^63\<close> and every
  alignment, by whichever routine it picks, and touches nothing else, as long as the
  destination does not begin inside the source; it may overlap the source from below.
  \<open>memscpy\<close> does the same for the smaller of the two sizes and returns it.\<close>

theorem memcpy_spec:
  assumes "forward_safe s1 s2 (unat n)" "unat n < 2 ^ 63"
  shows "memcpy s1 s2 n m = Done (s1, copied s1 s2 (unat n) m) \<and>
    (min sz1 sz2 = n \<longrightarrow> memscpy s1 sz1 s2 sz2 m = Done (n, copied s1 s2 (unat n) m))"
  using memcpy_copies [OF assms] memscpy_copies [OF assms] by simp

text \<open>300 bytes to an odd address, which the aligning routine and the loop over chunks copy.\<close>

theorem memcpy_spec_witness:
  "\<forall>m. \<exists>m'. memcpy 0x1003 0x2000 300 m = Done (0x1003, m') \<and> m' 0x112e = m 0x212b \<and> m' 0x112f = m 0x112f"
proof
  fix m
  have "forward_safe 0x1003 0x2000 (unat (300 :: u64))" by (simp add: forward_safe_def)
  from memcpy_spec [OF this, of m] show "\<exists>m'. memcpy 0x1003 0x2000 300 m = Done (0x1003, m') \<and>
      m' 0x112e = m 0x212b \<and> m' 0x112f = m 0x112f" by (simp add: copied_def)
qed

lemma copy_not_above:
  assumes "unat s1 + unat n \<le> 2 ^ 64" "unat s2 + unat n \<le> 2 ^ 64"
    "s1 \<le> s2 \<or> unat s2 + unat n \<le> unat s1"
  shows "forward_safe s1 s2 (unat n)"
  using assms unat_sub_if' [of s1 s2] by (auto simp: forward_safe_def word_le_nat_alt word_unat_eq_iff)



end
