(* ===== verification/MemSetSpec.thy ===== *)
theory MemSetSpec
  imports MemSet MemCopySpec
begin

unbundle bit_operations_syntax

text \<open>
  \<open>memset\<close> fills exactly the bytes it is asked to, whichever routine it picks: the sizes and
  alignments at which \<^verbatim>\<open>string.c\<close> calls a routine are the ones that routine is made for.
\<close>

section \<open>Fills\<close>

definition filled :: "uintptr_t \<Rightarrow> u8 \<Rightarrow> nat \<Rightarrow> memory \<Rightarrow> memory" where
  "filled d v n m = written d (\<lambda>_. v) n m"

text \<open>The registers after the first \<open>i\<close> bytes of a fill with \<open>v\<close> from \<open>d\<close> on.\<close>

definition set_upto :: "uintptr_t \<Rightarrow> u8 \<Rightarrow> memory \<Rightarrow> nat \<Rightarrow> set_regs \<Rightarrow> bool" where
  "set_upto d v m i c \<longleftrightarrow> sx0 c = d + of_nat i \<and> smem c = filled d v i m"

text \<open>The first \<open>k\<close> bytes of a register pair are \<open>v\<close>.\<close>

definition repeats :: "u64 \<Rightarrow> u8 \<Rightarrow> nat \<Rightarrow> bool" where
  "repeats w v k \<longleftrightarrow> take k (pair_bytes w) = replicate k v"

lemma length_pair_bytes [simp]: "length (pair_bytes w) = 16"
  by (simp add: pair_bytes_def reg_bytes_def)

lemma repeats_mono: "repeats w v k \<Longrightarrow> j \<le> k \<Longrightarrow> repeats w v j"
  unfolding repeats_def by (metis min.absorb1 take_replicate take_take)

lemma repeats_zero: "repeats 0 0 16"
  by (simp add: repeats_def pair_bytes_def reg_bytes_def eval_nat_numeral)

lemma repeats_pair: "repeats w v 16 \<Longrightarrow> pair_bytes w = replicate 16 v"
  by (simp add: repeats_def)

lemma fill_block: "i + k < 2 ^ 64 \<Longrightarrow>
    store_block (d + of_nat i) (replicate k v) (filled d v i m) = filled d v (i + k) m"
  using store_written [of i k d "\<lambda>_. v" m] by (simp add: filled_def map_replicate_const)

lemma set_upto_put:
  assumes "set_upto d v m i c" "repeats w v k" "i + k < 2 ^ 64"
  shows "set_upto d v m (i + k) (put k w c)"
  using assms fill_block [OF assms(3), of d v m] by (simp add: set_upto_def put_def repeats_def add.assoc)

lemma ssize_put [simp]: "ssize (put k w c) = ssize c" "ssize (put_bit j w c) = ssize c"
  by (simp_all add: put_def put_bit_def)

lemma set_upto_bit:
  assumes "set_upto d v m i c" "repeats w v 16" "i + of_bool (bit (ssize c) j) * 2 ^ j < 2 ^ 64" "j \<le> 4"
  shows "set_upto d v m (i + of_bool (bit (ssize c) j) * 2 ^ j) (put_bit j w c)"
proof -
  have "(2 :: nat) ^ j \<le> 2 ^ 4" using assms(4) by (intro power_increasing) auto
  then have "repeats w v (2 ^ j)" by (intro repeats_mono [OF assms(2)]) simp
  then show ?thesis using set_upto_put [OF assms(1), of w "2 ^ j"] assms(1,3) by (auto simp: put_bit_def)
qed

lemma below16_fills:
  assumes "set_upto d v m i c" "repeats w v 16" "i + unat (ssize c) mod 16 < 2 ^ 64"
  shows "memset_below16 w c = filled d v (i + unat (ssize c) mod 16) m"
proof -
  let ?b = "\<lambda>j. of_bool (bit (ssize c) j) :: nat"
  note bits = low_bits4 [of "unat (ssize c)", unfolded bit_of_unat]
  have 1: "set_upto d v m (i + ?b 3 * 2 ^ 3) (put_bit 3 w c)"
    using set_upto_bit [OF assms(1,2), of 3] assms(3) bits by simp
  have 2: "set_upto d v m (i + ?b 3 * 2 ^ 3 + ?b 2 * 2 ^ 2) (put_bit 2 w (put_bit 3 w c))"
    using set_upto_bit [OF 1 assms(2), of 2] assms(3) bits by simp
  have 3: "set_upto d v m (i + ?b 3 * 2 ^ 3 + ?b 2 * 2 ^ 2 + ?b 1 * 2 ^ 1) (put_bit 1 w (put_bit 2 w (put_bit 3 w c)))"
    using set_upto_bit [OF 2 assms(2), of 1] assms(3) bits by simp
  have 4: "set_upto d v m (i + ?b 3 * 2 ^ 3 + ?b 2 * 2 ^ 2 + ?b 1 * 2 ^ 1 + ?b 0 * 2 ^ 0)
      (put_bit 0 w (put_bit 1 w (put_bit 2 w (put_bit 3 w c))))"
    using set_upto_bit [OF 3 assms(2), of 0] assms(3) bits by simp
  then show ?thesis using bits by (simp add: memset_below16_def set_upto_def add.assoc)
qed

lemma size_below32:
  assumes "(n :: u64) < 32"
  shows "of_bool (bit n 4) * 2 ^ 4 + unat n mod 16 = unat n"
proof -
  have lt: "unat n < 32" using assms by (simp add: word_less_nat_alt)
  have "bit n 4 \<longleftrightarrow> odd (unat n div 16)" using bit_of_unat [of n 4] by (simp add: bit_iff_odd)
  also have "unat n div 16 = (if 16 \<le> unat n then 1 else 0)" using lt by auto
  finally show ?thesis using lt mod_if [of "unat n" 16] by (cases "16 \<le> unat n") auto
qed

lemma below32_fills:
  assumes "repeats w v 16" "n < 32"
  shows "memset_below32 w \<lparr>sx0 = d, ssize = n, smem = m\<rparr> = filled d v (unat n) m"
proof -
  let ?c = "\<lparr>sx0 = d, ssize = n, smem = m\<rparr>"
  note sz = size_below32 [OF assms(2)]
  have lt: "unat n < 2 ^ 64" using unat_lt64 [of n] by simp
  have "set_upto d v m 0 ?c" by (simp add: set_upto_def filled_def)
  from set_upto_bit [OF this assms(1), of 4] sz lt
  have "set_upto d v m (of_bool (bit n 4) * 2 ^ 4) (put_bit 4 w ?c)" by simp
  from below16_fills [OF this assms(1)] sz lt show ?thesis by (simp add: memset_below32_def)
qed

text \<open>Sequences of pair stores.\<close>

lemma pair_stores_fill:
  assumes "repeats w v 16" "i + 16 * k < 2 ^ 64" "a + of_nat (16 * q) = d + of_nat i"
  shows "fold (\<lambda>j. store_block (a + of_nat (16 * j)) (pair_bytes w)) [q..<q + k] (filled d v i m) =
    filled d v (i + 16 * k) m"
  using assms(2)
proof (induction k)
  case (Suc k)
  have "a + of_nat (16 * (q + k)) = d + of_nat (i + 16 * k)"
    using assms(3) by (simp add: algebra_simps)
  moreover have "store_block (d + of_nat (i + 16 * k)) (replicate 16 v) (filled d v (i + 16 * k) m) =
      filled d v (i + 16 * k + 16) m"
    by (rule fill_block) (use Suc(2) in simp)
  moreover have "[q..<q + Suc k] = [q..<q + k] @ [q + k]" "i + 16 * Suc k = i + 16 * k + 16" by simp_all
  moreover note Suc(1)
  ultimately show ?case using Suc(2)
    by (simp only: fold_append fold.simps comp_apply id_apply repeats_pair [OF assms(1)])
qed simp

lemma stores_below_fill:
  assumes "repeats w v 16" "i + 16 * k < 2 ^ 64" "k \<le> cnt" "x0 = d + of_nat (i + 16 * k)"
  shows "stores_below cnt k w x0 (filled d v i m) = filled d v (i + 16 * k) m"
proof -
  have "of_nat (16 * cnt) = (of_nat (16 * k) + of_nat (16 * (cnt - k)) :: u64)"
    using assms(3) by (simp flip: of_nat_add of_nat_mult add: algebra_simps)
  then have "x0 - of_nat (16 * cnt) + of_nat (16 * (cnt - k)) = d + of_nat i"
    using assms(4) by (simp only: of_nat_add) simp
  from pair_stores_fill [OF assms(1,2) this] assms(3) show ?thesis by (simp add: stores_below_def)
qed

section \<open>The routines for zero\<close>

lemma zeros_below: "memset_zeros_below16 = memset_below16 0" "memset_zeros_below32 = memset_below32 0"
  by (simp_all add: fun_eq_iff memset_zeros_below16_def memset_below16_def memset_zeros_below32_def memset_below32_def)

lemma no_dczva_fills:
  assumes "set_upto d 0 m i c" "unat (ssize c) < 64" "i + unat (ssize c) = n" "n < 2 ^ 64"
  shows "memset_zeros_no_dczva c = Done (filled d 0 n m)"
proof -
  let ?r = "unat (ssize c)"
  let ?k = "?r div 16"
  let ?x0 = "sx0 c + of_nat (16 * ?k)" and ?x1 = "ssize c - of_nat (16 * ?k)"
  note c = assms(1)[unfolded set_upto_def]
  have k: "?k \<le> 3" using assms(2) by simp
  have m: "stores_below 3 ?k 0 ?x0 (smem c) = filled d 0 (i + 16 * ?k) m"
    using stores_below_fill [OF repeats_zero _ k, of i ?x0 d m] c assms(3,4) by (simp add: add.assoc)
  have "unat (of_nat (16 * ?k) :: u64) = 16 * ?k" using assms(2) by (subst unat_of_nat64) auto
  then have x1: "unat ?x1 = ?r mod 16" by (subst unat_sub_fits) (simp_all add: minus_mult_div_eq_mod [symmetric])
  have "set_upto d 0 m (i + 16 * ?k) \<lparr>sx0 = ?x0, ssize = ?x1, smem = filled d 0 (i + 16 * ?k) m\<rparr>"
    using c by (simp add: set_upto_def add.assoc)
  note b = below16_fills [OF this repeats_zero]
  have sum: "i + 16 * ?k + ?r mod 16 = n" using assms(3) by simp
  have last: "(if ?x1 \<noteq> 0 then memset_zeros_below16 \<lparr>sx0 = ?x0, ssize = ?x1, smem = filled d 0 (i + 16 * ?k) m\<rparr>
      else filled d 0 (i + 16 * ?k) m) = filled d 0 n m"
  proof (cases "?x1 = 0")
    case True
    then have "?r mod 16 = 0" using x1 by simp
    then show ?thesis using True sum by simp
  next
    case False
    with b x1 sum assms(4) show ?thesis by (simp add: zeros_below add.commute)
  qed
  have "drop_bit 4 (ssize c) \<le> 3" using k unat_nibbles(1) [of "ssize c"] by (simp add: word_le_nat_alt)
  then show ?thesis
    unfolding memset_zeros_no_dczva_def Let_def unat_nibbles m last in_object_True by simp
qed

text \<open>Addresses that are multiples of 64.\<close>

lemma and_not_low: "(x :: u64) AND NOT (mask 6) = of_nat (64 * (unat x div 64))" "x AND mask 6 = of_nat (unat x mod 64)"
proof -
  have "x AND NOT (mask 6) = push_bit 6 (drop_bit 6 x)" by (rule bit_word_eqI) (auto simp: bit_simps)
  also have "\<dots> = of_nat (unat (drop_bit 6 x)) * 64" by (simp add: push_bit_eq_mult)
  also have "\<dots> = of_nat (64 * (unat x div 64))" by (simp add: drop_bit_eq_div unat_div)
  finally show "x AND NOT (mask 6) = of_nat (64 * (unat x div 64))" .
  have "x AND mask 6 = of_nat (unat (x mod 64))" by (simp add: take_bit_eq_mask [symmetric] take_bit_eq_mod)
  then show "x AND mask 6 = of_nat (unat x mod 64)" by (simp add: unat_mod)
qed

lemma take_bit_add_word:
  fixes x y :: u64
  assumes "n \<le> 64"
  shows "take_bit n (x + y) = take_bit n (take_bit n x + take_bit n y)"
  using assms
  by (transfer fixing: n) (simp add: min_absorb1 min_absorb2 take_bit_take_bit take_bit_add)

lemma aligned_block:
  assumes "take_bit 6 (x :: u64) = 0"
  shows "x AND NOT (mask 6) = x"
proof (rule bit_word_eqI)
  fix j
  have "\<not> bit x j" if "j < 6" using that assms by (metis bit_take_bit_iff bit_0_eq bot_apply bot_bool_def)
  then show "bit (x AND NOT (mask 6)) j \<longleftrightarrow> bit x j" by (auto simp: bit_simps dest: bit_imp_le_length)
qed

lemma zva_loop_fills:
  assumes "take_bit 6 d' = 0" "d' = d + of_nat i" "i + 64 * Suc k < 2 ^ 64"
  shows "zva_loop (of_nat (64 * Suc k)) d' (filled d 0 i m) =
    Some (d' + of_nat (64 * Suc k), filled d 0 (i + 64 * Suc k) m)"
  using assms
proof (induction k arbitrary: d' i)
  case 0
  have "dc_zva d' (filled d 0 i m) = filled d 0 (i + 64) m"
    using fill_block [of i 64 d 0 m] 0 by (simp add: dc_zva_def aligned_block)
  then show ?case by (subst zva_loop.simps) (simp add: Let_def)
next
  case (Suc k)
  have z: "dc_zva d' (filled d 0 i m) = filled d 0 (i + 64) m"
    using fill_block [of i 64 d 0 m] Suc(2-4) by (simp add: dc_zva_def aligned_block)
  have "take_bit 6 (d' + 64) = take_bit 6 (take_bit 6 d' + take_bit 6 64)" by (rule take_bit_add_word) simp
  then have a: "take_bit 6 (d' + 64) = 0" using Suc(2) by simp
  have x2: "of_nat (64 * Suc (Suc k)) - 64 = (of_nat (64 * Suc k) :: u64)" by simp
  have "unat (of_nat (64 * Suc k) :: u64) = 64 * Suc k" using Suc(4) by (intro unat_of_nat64) simp
  then have nz: "(of_nat (64 * Suc k) :: u64) \<noteq> 0" by (metis nat_0_less_mult_iff unat_0 less_irrefl zero_less_Suc zero_less_numeral)
  have "zva_loop (of_nat (64 * Suc (Suc k))) d' (filled d 0 i m) =
      zva_loop (of_nat (64 * Suc k)) (d' + 64) (filled d 0 (i + 64) m)"
    by (subst zva_loop.simps) (use nz in \<open>simp only: Let_def x2 z if_True not_False_eq_True simp_thms\<close>)
  also have "\<dots> = Some (d' + 64 + of_nat (64 * Suc k), filled d 0 (i + 64 + 64 * Suc k) m)"
    by (rule Suc(1) [OF a]) (use Suc(3,4) in simp_all)
  finally show ?case by (simp add: algebra_simps)
qed

lemma dczva_fills:
  assumes "set_upto d 0 m i c" "take_bit 6 (sx0 c) = 0" "64 \<le> unat (ssize c)" "i + unat (ssize c) = n" "n < 2 ^ 64"
  shows "memset_zeros_dczva c = Done (filled d 0 n m)"
proof -
  let ?r = "unat (ssize c)"
  note c = assms(1)[unfolded set_upto_def]
  obtain k where k: "?r div 64 = Suc k" using assms(3) by (cases "?r div 64") auto
  have "64 * Suc k \<le> ?r" unfolding k [symmetric] by simp
  then have z: "zva_loop (of_nat (64 * (?r div 64))) (sx0 c) (smem c) =
      Some (sx0 c + of_nat (64 * (?r div 64)), filled d 0 (i + 64 * (?r div 64)) m)"
    using zva_loop_fills [OF assms(2), of d i k m] c assms(4,5) unfolding k by simp
  let ?c = "\<lparr>sx0 = sx0 c + of_nat (64 * (?r div 64)), ssize = of_nat (?r mod 64),
      smem = filled d 0 (i + 64 * (?r div 64)) m\<rparr>"
  have x1: "unat (ssize ?c) = ?r mod 64" by simp
  have "set_upto d 0 m (i + 64 * (?r div 64)) ?c" using c by (simp add: set_upto_def add.assoc)
  from no_dczva_fills [OF this _ _ assms(5)] x1 assms(4)
  have "memset_zeros_no_dczva ?c = Done (filled d 0 n m)" by simp
  moreover have "i + 64 * (?r div 64) = n" if "of_nat (?r mod 64) = (0 :: u64)"
  proof -
    have "?r mod 64 = 0" using x1 that by simp
    then show ?thesis using assms(4) div_mult_mod_eq [of ?r 64] by linarith
  qed
  ultimately show ?thesis unfolding memset_zeros_dczva_def Let_def and_not_low z option.case split_conv by auto
qed

lemma to_next_block:
  fixes x :: u64
  assumes "take_bit 4 x = 0"
  defines "g \<equiv> (- x) AND mask 6"
  shows "g AND 15 = 0" "take_bit 6 (x + g) = 0" "unat g < 64" "unat g = 16 * (unat g div 16)"
proof -
  have t: "take_bit 6 (- x) = g" by (simp add: g_def take_bit_eq_mask)
  have neg: "take_bit 4 (- x) = 0"
    using take_bit_add_word [of 4 x "- x"] assms(1) by simp
  have "take_bit 4 g = take_bit 4 (- x)" unfolding t [symmetric] by simp
  then have g4: "take_bit 4 g = 0" using neg by simp
  have m15: "(15 :: u64) = mask 4" by (simp add: mask_eq_exp_minus_1)
  show "g AND 15 = 0" using g4 unfolding m15 by (simp add: take_bit_eq_mask)
  have "take_bit 6 (x + g) = take_bit 6 (take_bit 6 x + take_bit 6 g)" by (rule take_bit_add_word) simp
  also have "take_bit 6 g = take_bit 6 (- x)" unfolding t [symmetric] by simp
  also have "take_bit 6 (take_bit 6 x + take_bit 6 (- x)) = take_bit 6 (x + - x)"
    by (rule take_bit_add_word [symmetric]) simp
  finally show "take_bit 6 (x + g) = 0" by simp
  show "unat g < 64" using and_not_low(2) [of "- x"] unfolding g_def by simp
  have "unat g mod 16 = unat (g mod 16)" by (simp add: unat_mod)
  also have "g mod 16 = 0" using g4 by (simp add: take_bit_eq_mod)
  finally show "unat g = 16 * (unat g div 16)" using mult_div_mod_eq [of 16 "unat g"] by simp
qed

lemma zeros_align16_fills:
  assumes "set_upto d 0 m i c" "take_bit 4 (sx0 c) = 0" "i + unat (ssize c) = n" "n < 2 ^ 63"
  shows "memset_zeros_align16 c = Done (filled d 0 n m)"
proof -
  have n: "n < 2 ^ 64" and small: "unat (ssize c) < 2 ^ 63" using assms(3,4) by simp_all
  note c = assms(1)[unfolded set_upto_def]
  define g where "g = (- sx0 c) AND mask 6"
  note g = to_next_block [OF assms(2), folded g_def]
  show ?thesis
  proof (cases "sint (ssize c) < 64")
    case True
    then show ?thesis
      using no_dczva_fills [OF assms(1) _ assms(3) n] sint_size(1) [OF small]
      by (simp add: memset_zeros_align16_def Let_def)
  next
    case False
    then have big: "64 \<le> unat (ssize c)" using sint_size(1) [OF small] by simp
    let ?x0 = "sx0 c + g" and ?x1 = "ssize c - g"
    have m: "stores_below 3 (unat g div 16) 0 ?x0 (smem c) = filled d 0 (i + unat g) m"
      using stores_below_fill [OF repeats_zero, of i "unat g div 16" 3 ?x0 d m, folded g(4)] g(3) big assms(3) n c
      by (simp add: add.assoc)
    let ?c = "\<lparr>sx0 = ?x0, ssize = ?x1, smem = filled d 0 (i + unat g) m\<rparr>"
    have x1: "unat (ssize ?c) = unat (ssize c) - unat g" using big g(3) by (simp add: unat_sub_fits)
    have up: "set_upto d 0 m (i + unat g) ?c" using c by (simp add: set_upto_def add.assoc)
    have sz: "i + unat g + unat (ssize ?c) = n" "unat (ssize ?c) < 2 ^ 63"
      unfolding x1 using big g(3) assms(3) small by simp_all
    have "(if sint (ssize ?c) < 64 then memset_zeros_no_dczva ?c else memset_zeros_dczva ?c) = Done (filled d 0 n m)"
    proof (cases "sint (ssize ?c) < 64")
      case True
      then show ?thesis using no_dczva_fills [OF up _ sz(1) n] sint_size(1) [OF sz(2)] by simp
    next
      case f: False
      have "memset_zeros_dczva ?c = Done (filled d 0 n m)"
        by (rule dczva_fills [OF up _ _ sz(1) n]) (use f sint_size(1) [OF sz(2)] g(2) in simp_all)
      with f show ?thesis by simp
    qed
    then show ?thesis using False g(1) m
      by (simp add: memset_zeros_align16_def Let_def g_def [symmetric] unat_nibbles(1) split: if_splits)
  qed
qed

text \<open>Aligning, one size at a time.\<close>

lemma take_bit_Suc_zero:
  fixes x :: u64
  assumes "take_bit j x = 0"
  shows "take_bit (Suc j) x = (if bit x j then 2 ^ j else 0)"
proof (rule bit_word_eqI)
  fix k assume "k < LENGTH(64)"
  have "\<not> bit x k" if "k < j" using that assms by (metis bit_take_bit_iff bit_0_eq bot_apply bot_bool_def)
  then show "bit (take_bit (Suc j) x) k \<longleftrightarrow> bit (if bit x j then 2 ^ j else 0 :: u64) k"
    using \<open>k < LENGTH(64)\<close> by (auto simp: bit_simps less_Suc_eq)
qed

lemma put_align_fills:
  assumes "set_upto d v m i c" "repeats w v (2 ^ j)" "take_bit j (sx0 c) = 0" "i + unat (ssize c) = n" "n < 2 ^ 63"
    "2 ^ j \<le> unat (ssize c)" "k = Suc j"
  shows "\<exists>i'. set_upto d v m i' (put_align j w c) \<and> take_bit k (sx0 (put_align j w c)) = 0 \<and>
    i' + unat (ssize (put_align j w c)) = n \<and> unat (ssize c) - 2 ^ j \<le> unat (ssize (put_align j w c))"
proof (cases "bit (sx0 c) j")
  case True
  have lt: "j < 63" using assms(4-6) by (metis le_less_trans le_add2 nat_power_less_imp_less zero_less_numeral)
  have "(2 :: nat) ^ j < 2 ^ LENGTH(64)" using lt by (intro power_strict_increasing) auto
  then have "unat (of_nat (2 ^ j) :: u64) = 2 ^ j" by (rule unat_of_nat_fits)
  then have x2: "unat (ssize c - 2 ^ j) = unat (ssize c) - 2 ^ j" using assms(6) by (simp add: unat_sub_fits)
  have up: "set_upto d v m (i + 2 ^ j) (put (2 ^ j) w c)"
    by (rule set_upto_put [OF assms(1,2)]) (use assms(4-6) in simp)
  have "take_bit (Suc j) (2 ^ j :: u64) = 2 ^ j" by (rule bit_word_eqI) (auto simp: bit_simps)
  moreover have "take_bit (Suc j) (sx0 c) = 2 ^ j" using True by (simp add: take_bit_Suc_zero [OF assms(3)])
  ultimately have "take_bit (Suc j) (sx0 c + 2 ^ j) = take_bit (Suc j) (2 ^ Suc j)"
    using take_bit_add_word [of "Suc j" "sx0 c" "2 ^ j"] lt by simp
  also have "\<dots> = 0" by (rule bit_word_eqI) (auto simp: bit_simps)
  finally show ?thesis using True up x2 assms(4,6,7)
    by (intro exI [of _ "i + 2 ^ j"]) (auto simp: put_align_def set_upto_def put_def)
next
  case False
  then show ?thesis using assms(1,4,7) by (auto simp: put_align_def take_bit_Suc_zero [OF assms(3)])
qed

lemma aligned_fills:
  assumes "set_upto d v m i c" "i + unat (ssize c) = n" "n < 2 ^ 63" "31 \<le> unat (ssize c)"
    "repeats w1 v 1" "repeats w2 v 2" "repeats w4 v 4" "repeats w8 v 8"
  shows "\<exists>i c'. put_align 3 w8 (put_align 2 w4 (put_align 1 w2 (put_align 0 w1 c))) = c' \<and>
    set_upto d v m i c' \<and> take_bit 4 (sx0 c') = 0 \<and> i + unat (ssize c') = n"
proof -
  let ?c0 = "put_align 0 w1 c" let ?c1 = "put_align 1 w2 ?c0" let ?c2 = "put_align 2 w4 ?c1"
  have r: "repeats w1 v (2 ^ 0)" "repeats w2 v (2 ^ 1)" "repeats w4 v (2 ^ 2)" "repeats w8 v (2 ^ 3)"
    using assms(5-8) by simp_all
  have "\<exists>i. set_upto d v m i ?c0 \<and> take_bit 1 (sx0 ?c0) = 0 \<and> i + unat (ssize ?c0) = n \<and>
      unat (ssize c) - 2 ^ 0 \<le> unat (ssize ?c0)"
    by (rule put_align_fills [OF assms(1) r(1) _ assms(2,3)]) (use assms(4) in simp_all)
  then obtain i0 where 0: "set_upto d v m i0 ?c0" "take_bit 1 (sx0 ?c0) = 0" "i0 + unat (ssize ?c0) = n"
    "unat (ssize c) - 2 ^ 0 \<le> unat (ssize ?c0)" by blast
  have "\<exists>i. set_upto d v m i ?c1 \<and> take_bit 2 (sx0 ?c1) = 0 \<and> i + unat (ssize ?c1) = n \<and>
      unat (ssize ?c0) - 2 ^ 1 \<le> unat (ssize ?c1)"
    by (rule put_align_fills [OF 0(1) r(2) 0(2,3) assms(3)]) (use assms(4) 0(4) in simp_all)
  then obtain i1 where 1: "set_upto d v m i1 ?c1" "take_bit 2 (sx0 ?c1) = 0" "i1 + unat (ssize ?c1) = n"
    "unat (ssize ?c0) - 2 ^ 1 \<le> unat (ssize ?c1)" by blast
  have "\<exists>i. set_upto d v m i ?c2 \<and> take_bit 3 (sx0 ?c2) = 0 \<and> i + unat (ssize ?c2) = n \<and>
      unat (ssize ?c1) - 2 ^ 2 \<le> unat (ssize ?c2)"
    by (rule put_align_fills [OF 1(1) r(3) 1(2,3) assms(3)]) (use assms(4) 0(4) 1(4) in simp_all)
  then obtain i2 where 2: "set_upto d v m i2 ?c2" "take_bit 3 (sx0 ?c2) = 0" "i2 + unat (ssize ?c2) = n"
    "unat (ssize ?c1) - 2 ^ 2 \<le> unat (ssize ?c2)" by blast
  have "\<exists>i. set_upto d v m i (put_align 3 w8 ?c2) \<and> take_bit 4 (sx0 (put_align 3 w8 ?c2)) = 0 \<and>
      i + unat (ssize (put_align 3 w8 ?c2)) = n \<and> unat (ssize ?c2) - 2 ^ 3 \<le> unat (ssize (put_align 3 w8 ?c2))"
    by (rule put_align_fills [OF 2(1) r(4) 2(2,3) assms(3)]) (use assms(4) 0(4) 1(4) 2(4) in simp_all)
  then show ?thesis by blast
qed

lemma repeats_zero_small: "repeats 0 0 1" "repeats 0 0 2" "repeats 0 0 4" "repeats 0 0 8"
  by (rule repeats_mono [OF repeats_zero]; simp)+

lemma zeros_alignable_fills:
  assumes "31 \<le> unat n" "unat n < 2 ^ 63"
  shows "memset_zeros_alignable \<lparr>sx0 = d, ssize = n, smem = m\<rparr> = Done (filled d 0 (unat n) m)"
proof -
  let ?c = "\<lparr>sx0 = d, ssize = n, smem = m\<rparr>"
  have "set_upto d 0 m 0 ?c" by (simp add: set_upto_def filled_def)
  from aligned_fills [OF this _ assms(2) _ repeats_zero_small] assms(1) obtain i c' where
    "put_align 3 0 (put_align 2 0 (put_align 1 0 (put_align 0 0 ?c))) = c'" "set_upto d 0 m i c'"
    "take_bit 4 (sx0 c') = 0" "i + unat (ssize c') = unat n" by auto
  with zeros_align16_fills [of d m i c'] assms(2) show ?thesis by (simp add: memset_zeros_alignable_def)
qed

section \<open>The routines for other values\<close>

text \<open>The expansion of a byte.\<close>

definition spread :: "u64 \<Rightarrow> u8 \<Rightarrow> nat \<Rightarrow> bool" where
  "spread w v k \<longleftrightarrow> (\<forall>j. bit w j \<longleftrightarrow> j < 8 * k \<and> bit v (j mod 8))"

lemma spread_byte: "spread (ucast v) v 1"
proof -
  have "bit (ucast v :: u64) j \<longleftrightarrow> j < 8 \<and> bit v (j mod 8)" for j
    using bit_imp_le_length [of v j] by (cases "j < 8") (auto simp: bit_simps)
  then show ?thesis by (simp add: spread_def)
qed

lemma spread_double:
  assumes "spread w v k" "2 * k \<le> 8"
  shows "spread (w OR push_bit (8 * k) w) v (2 * k)"
proof -
  have "(j - 8 * k) mod 8 = j mod 8" if "8 * k \<le> j" for j
    using that by (metis le_add_diff_inverse mod_mult_self2 mult.commute add.commute)
  then show ?thesis using assms by (auto simp: spread_def bit_simps)
qed

lemma spread_repeats:
  assumes "spread w v k" "k \<le> 8"
  shows "repeats w v k" "k = 8 \<Longrightarrow> repeats w v 16"
proof -
  have byte: "(ucast (drop_bit (8 * i) w) :: u8) = v" if "i < k" for i
  proof (rule bit_word_eqI)
    fix b assume "b < LENGTH(8)"
    moreover from this have "8 * i + b < 8 * k" using that by simp
    moreover have "(8 * i + b) mod 8 = b" using \<open>b < LENGTH(8)\<close> by simp
    ultimately show "bit (ucast (drop_bit (8 * i) w) :: u8) b \<longleftrightarrow> bit v b"
      using assms(1) by (simp add: spread_def bit_simps)
  qed
  have reg: "take k (reg_bytes w) = replicate k v"
    by (rule nth_equalityI) (use assms(2) byte in \<open>auto simp: reg_bytes_def\<close>)
  then show "repeats w v k" using assms(2) by (simp add: repeats_def pair_bytes_def reg_bytes_def)
  assume "k = 8"
  then have "reg_bytes w = replicate 8 v" using reg by (simp add: reg_bytes_def)
  then show "repeats w v 16" by (simp add: repeats_def pair_bytes_def eval_nat_numeral)
qed

lemma put_chunk_fill:
  assumes "repeats w v 16" "i + 128 < 2 ^ 64"
  shows "put_chunk w (d + of_nat i) (filled d v i m) = filled d v (i + 128) m"
  using pair_stores_fill [of w v i 8 "d + of_nat i" 0 d m] assms by (simp add: put_chunk_def)

lemma chunks_loop_fills:
  assumes "repeats w v 16"
  shows "unat x3 < 2 ^ 63 \<Longrightarrow> i + 128 + unat x3 < 2 ^ 64 \<Longrightarrow>
    chunks_loop w x3 (d + of_nat i) (filled d v i m) =
      (d + of_nat (i + 128 * Suc (unat x3 div 128)), filled d v (i + 128 * Suc (unat x3 div 128)) m)"
proof (induction "unat x3" arbitrary: x3 i rule: less_induct)
  case less
  note sint = sint_size(2) [OF less(2)]
  have p: "put_chunk w (d + of_nat i) (filled d v i m) = filled d v (i + 128) m"
    by (rule put_chunk_fill [OF assms]) (use less(3) in simp)
  show ?case
  proof (cases "0x80 \<le> sint x3")
    case True
    then have big: "128 \<le> unat x3" using sint by simp
    then have x: "unat (x3 - 0x80) = unat x3 - 128" by (simp add: unat_sub_fits)
    have "chunks_loop w x3 (d + of_nat i) (filled d v i m) =
        chunks_loop w (x3 - 0x80) (d + of_nat (i + 128)) (filled d v (i + 128) m)"
      using True by (subst chunks_loop.simps) (simp add: Let_def p add.assoc)
    also have "\<dots> = (d + of_nat (i + 128 + 128 * Suc (unat (x3 - 0x80) div 128)),
        filled d v (i + 128 + 128 * Suc (unat (x3 - 0x80) div 128)) m)"
      by (rule less(1)) (use x big less(2,3) in simp_all)
    also have "i + 128 + 128 * Suc (unat (x3 - 0x80) div 128) = i + 128 * Suc (unat x3 div 128)"
      using big unfolding x by (simp add: le_div_geq)
    finally show ?thesis .
  next
    case False
    then have "unat x3 div 128 = 0" using sint by simp
    with False show ?thesis by (subst chunks_loop.simps) (simp add: Let_def p add.assoc)
  qed
qed

lemma align16_fills:
  assumes "repeats w v 16" "set_upto d v m i c" "i + unat (ssize c) = n" "n < 2 ^ 63"
  shows "memset_align16 w c = Done (filled d v n m)"
proof -
  let ?r = "unat (ssize c)"
  let ?q = "?r mod 128" and ?i = "i + 128 * (?r div 128)"
  let ?k = "?q div 16"
  note c = assms(2)[unfolded set_upto_def]
  have small: "?r < 2 ^ 63" and sum: "?i + ?q = n" using assms(3,4) by simp_all
  have x2: "unat (ssize c AND 0x7f) = ?q"
  proof -
    have "ssize c AND 0x7f = take_bit 7 (ssize c)" by (simp add: take_bit_eq_mask mask_eq_exp_minus_1)
    then show ?thesis by (simp add: take_bit_eq_mod unat_mod)
  qed
  have chunks: "(if sint (ssize c) < 0x80 then (sx0 c, smem c) else chunks_loop w (ssize c - 0x80) (sx0 c) (smem c)) =
      (d + of_nat ?i, filled d v ?i m)"
  proof (cases "sint (ssize c) < 0x80")
    case True
    then have "?r div 128 = 0" using sint_size(1) [OF small] by simp
    with True c show ?thesis by simp
  next
    case False
    then have big: "128 \<le> ?r" using sint_size(1) [OF small] by simp
    then have x: "unat (ssize c - 0x80) = ?r - 128" by (simp add: unat_sub_fits)
    have "chunks_loop w (ssize c - 0x80) (d + of_nat i) (filled d v i m) =
        (d + of_nat (i + 128 * Suc ((?r - 128) div 128)), filled d v (i + 128 * Suc ((?r - 128) div 128)) m)"
      unfolding x [symmetric] by (rule chunks_loop_fills [OF assms(1)]) (use x big assms(3,4) in simp_all)
    also have "Suc ((?r - 128) div 128) = ?r div 128" using big by (simp add: le_div_geq)
    finally show ?thesis using False c by simp
  qed
  let ?x0 = "d + of_nat ?i + of_nat (16 * ?k)" and ?x2 = "(ssize c AND 0x7f) - of_nat (16 * ?k)"
  have k: "?k \<le> 7" by simp
  have m: "stores_below 7 ?k w ?x0 (filled d v ?i m) = filled d v (?i + 16 * ?k) m"
    using stores_below_fill [OF assms(1) _ k, of ?i ?x0 d m] sum assms(4) by (simp add: add.assoc)
  have "unat (of_nat (16 * ?k) :: u64) = 16 * ?k" by (rule unat_of_nat64) simp
  then have x2': "unat ((ssize c AND 0x7f) - of_nat (16 * ?k)) = ?q mod 16"
    using x2 by (subst unat_sub_fits) (simp_all add: minus_mult_div_eq_mod [symmetric])
  have "set_upto d v m (?i + 16 * ?k) \<lparr>sx0 = ?x0, ssize = ?x2, smem = filled d v (?i + 16 * ?k) m\<rparr>"
    by (simp add: set_upto_def add.assoc)
  note b = below16_fills [OF this assms(1)]
  have sum2: "?i + 16 * ?k + ?q mod 16 = n" using sum by simp
  have "(if ?x2 \<noteq> 0 then memset_below16 w \<lparr>sx0 = ?x0, ssize = ?x2, smem = filled d v (?i + 16 * ?k) m\<rparr>
      else filled d v (?i + 16 * ?k) m) = filled d v n m"
  proof (cases "?x2 = 0")
    case True
    then have "?q mod 16 = 0" using x2' by simp
    then show ?thesis using True sum2 by simp
  next
    case False
    with b x2' sum2 assms(4) show ?thesis by (simp add: mod_mod_cancel)
  qed
  then show ?thesis
    unfolding memset_align16_def Let_def chunks split_conv unat_nibbles x2 m by simp
qed

lemma alignable_fills:
  assumes "31 \<le> unat n" "unat n < 2 ^ 63"
  shows "memset_alignable v \<lparr>sx0 = d, ssize = n, smem = m\<rparr> = Done (filled d v (unat n) m)"
proof -
  let ?c = "\<lparr>sx0 = d, ssize = n, smem = m\<rparr>"
  let ?w1 = "ucast v :: u64" let ?w2 = "?w1 OR push_bit 8 ?w1" let ?w4 = "?w2 OR push_bit 16 ?w2"
  let ?w8 = "?w4 OR push_bit 32 ?w4"
  have s: "spread ?w1 v 1" "spread ?w2 v 2" "spread ?w4 v 4" "spread ?w8 v 8"
    using spread_byte [of v] spread_double [OF spread_byte, of v] spread_double [of ?w2 v 2] spread_double [of ?w4 v 4]
    by simp_all
  have r: "repeats ?w1 v 1" "repeats ?w2 v 2" "repeats ?w4 v 4" "repeats ?w8 v 8" "repeats ?w8 v 16"
    by (rule spread_repeats(1) [OF s(1)] spread_repeats(1) [OF s(2)] spread_repeats(1) [OF s(3)]
        spread_repeats(1) [OF s(4)] spread_repeats(2) [OF s(4)]; simp)+
  have "set_upto d v m 0 ?c" by (simp add: set_upto_def filled_def)
  from aligned_fills [OF this _ assms(2) _ r(1-4)] assms(1) obtain i c' where
    c': "put_align 3 ?w8 (put_align 2 ?w4 (put_align 1 ?w2 (put_align 0 ?w1 ?c))) = c'"
    "set_upto d v m i c'" "i + unat (ssize c') = unat n" by auto
  then show ?thesis using align16_fills [OF r(5) c'(2,3) assms(2)] by (simp add: memset_alignable_def Let_def)
qed

section \<open>Properties of memset\<close>

lemma memset_fills:
  assumes "unat n < 2 ^ 63"
  shows "memset s ch n m = Done (s, filled s (of_int ch) (unat n) m)"
proof -
  let ?c = "\<lparr>sx0 = s, ssize = n, smem = m\<rparr>" and ?v = "of_int ch :: u8"
  have up: "set_upto s v m 0 ?c" for v by (simp add: set_upto_def filled_def)
  have ge: "31 \<le> unat n" "\<not> n < 32 \<Longrightarrow> 32 \<le> unat n" if "\<not> n < 32" using that by (simp_all add: word_less_nat_alt)
  show ?thesis
  proof (cases "n = 0")
    case True
    then show ?thesis by (simp add: memset_def Let_def filled_def)
  next
    case nz: False
    show ?thesis
    proof (cases "ch = 0")
      case True
      have mask6: "push_bit 6 (1 :: u64) - 1 = mask 6" by (simp add: mask_eq_exp_minus_1 push_bit_eq_mult)
      have mask4: "(15 :: u64) = mask 4" by (simp add: mask_eq_exp_minus_1)
      have "memset_zeros_below32 ?c = filled s 0 (unat n) m" if "n < 32"
        unfolding zeros_below by (rule below32_fills [OF repeats_zero that])
      moreover have "memset_zeros_dczva ?c = Done (filled s 0 (unat n) m)"
        if "s AND mask 6 = 0" "0 < drop_bit 6 n"
      proof (rule dczva_fills [OF up])
        show "take_bit 6 (sx0 ?c) = 0" using that(1) by (simp add: take_bit_eq_mask)
        have "0 < unat n div 64" using that(2) by (simp add: word_less_nat_alt drop_bit_eq_div unat_div)
        then show "64 \<le> unat (ssize ?c)" by (simp add: div_greater_zero_iff)
      qed (use assms in simp_all)
      moreover have "memset_zeros_align16 ?c = Done (filled s 0 (unat n) m)" if "s AND mask 4 = 0"
        by (rule zeros_align16_fills [OF up]) (use that assms in \<open>simp_all add: take_bit_eq_mask\<close>)
      moreover have "memset_zeros_alignable ?c = Done (filled s 0 (unat n) m)" if "\<not> n < 32"
        by (rule zeros_alignable_fills [OF ge(1) [OF that] assms])
      ultimately show ?thesis using nz True unfolding memset_def Let_def mask6 mask4 by auto
    next
      case False
      let ?w1 = "ucast ?v :: u64" let ?w2 = "?w1 OR push_bit 8 ?w1" let ?w4 = "?w2 OR push_bit 16 ?w2"
      let ?w8 = "?w4 OR push_bit 32 ?w4"
      have "spread ?w8 ?v 8"
        using spread_double [OF spread_byte, of ?v] spread_double [of ?w2 ?v 2] spread_double [of ?w4 ?v 4] by simp
      then have r: "repeats ?w8 ?v 16" by (rule spread_repeats(2)) simp_all
      have "memset_below32 ?w8 ?c = filled s ?v (unat n) m" if "n < 32" by (rule below32_fills [OF r that])
      moreover have "memset_align16 ?w8 ?c = Done (filled s ?v (unat n) m)"
        by (rule align16_fills [OF r up]) (use assms in simp_all)
      moreover have "memset_alignable ?v ?c = Done (filled s ?v (unat n) m)" if "\<not> n < 32"
        by (rule alignable_fills [OF ge(1) [OF that] assms])
      ultimately show ?thesis using nz False unfolding memset_def Let_def by auto
    qed
  qed
qed

text \<open>C27: \<open>memset\<close> sets exactly the bytes it is asked to, to the low byte of its argument, for every
  address, value and size below \<open>2^63\<close>: short fills, pair stores up to an alignment, blocks
  cleared at once and the computed jumps for what is left over together leave no byte out and
  touch no other; no jump misses its sequence and the loops end.\<close>

theorem memset_spec:
  assumes "unat n < 2 ^ 63"
  shows "\<exists>m'. memset s ch n m = Done (s, m') \<and>
    (\<forall>a. m' a = (if unat (a - s) < unat n then of_int ch else m a))"
  using memset_fills [OF assms, of s ch m] by (simp add: filled_def written_def)

theorem memset_spec_witness:
  "\<forall>m. \<exists>m'. memset 0x1001 0xeb 300 m = Done (0x1001, m') \<and> m' 0x1001 = 0xeb \<and> m' 0x112c = 0xeb \<and>
     m' 0x112d = m 0x112d"
proof
  fix m
  from memset_spec [of 300 "0x1001" "0xeb" m]
  show "\<exists>m'. memset 0x1001 0xeb 300 m = Done (0x1001, m') \<and> m' 0x1001 = 0xeb \<and> m' 0x112c = 0xeb \<and>
      m' 0x112d = m 0x112d" by auto
qed

end
