(* ===== verification/BootSpec.thy ===== *)
theory BootSpec
  imports Boot MemSetSpec RuntimeSpec TimerSpec
begin

unbundle bit_operations_syntax

text \<open>
  What the application finds when it starts: the stack image of the ELF convention, an aligned
  stack pointer, the guard bytes at the far end of the stack, a heap for \<open>brk\<close>; and the invariant
  of the whole runtime, from its start on.
\<close>

section \<open>The stack\<close>

definition words_at :: "memory \<Rightarrow> uintptr_t \<Rightarrow> u64 list \<Rightarrow> bool" where
  "words_at m a ws \<longleftrightarrow> (\<forall>i < length ws. load64 m (a + of_nat (8 * i)) = ws ! i)"

definition guard_intact :: "memory \<Rightarrow> uintptr_t \<Rightarrow> bool" where
  "guard_intact m base \<longleftrightarrow> (\<forall>i < 64. m (base + of_nat i) = 0xeb)"

text \<open>Memory that differs at most in the stack of 16 KiB at \<open>base\<close> and the 16 bytes at \<open>a\<close>.\<close>

definition outside_stack :: "uintptr_t \<Rightarrow> uintptr_t \<Rightarrow> memory \<Rightarrow> memory \<Rightarrow> bool" where
  "outside_stack base a m m' \<longleftrightarrow> (\<forall>x. 0x4000 \<le> unat (x - base) \<longrightarrow> 16 \<le> unat (x - a) \<longrightarrow> m' x = m x)"

text \<open>The words \<open>ws\<close>, the last pushed first, on the stack at \<open>base\<close> over the memory \<open>m\<close>.\<close>

definition pushed :: "memory \<Rightarrow> uintptr_t \<Rightarrow> uintptr_t \<Rightarrow> u64 list \<Rightarrow> stack \<Rightarrow> bool" where
  "pushed m a base ws s \<longleftrightarrow>
     fst s = base + of_nat (0x4000 - 8 * length ws) \<and> words_at (snd s) (fst s) ws \<and> guard_intact (snd s) base \<and>
     outside_stack base a m (snd s)"

lemma words_at_push:
  assumes "words_at m a ws" "8 * length ws < 2 ^ 63"
  shows "words_at (store64 m (a - 8) v) (a - 8) (v # ws)"
  unfolding words_at_def
proof (intro allI impI)
  fix i assume i: "i < length (v # ws)"
  show "load64 (store64 m (a - 8) v) (a - 8 + of_nat (8 * i)) = (v # ws) ! i"
  proof (cases i)
    case 0
    then show ?thesis by (simp add: load64_store64)
  next
    case (Suc j)
    have a: "a - 8 + of_nat (8 * i) = a + of_nat (8 * j)" using Suc by (simp add: algebra_simps)
    have b: "a + of_nat (8 * j) - (a - 8) = of_nat (8 * Suc j)" by (simp add: algebra_simps)
    have u: "unat (of_nat (8 * Suc j) :: u64) = 8 * Suc j"
      using i Suc assms(2) by (intro unat_of_nat64) simp
    have le: "(8 :: u64) \<le> of_nat (8 * Suc j)" "of_nat (8 * Suc j) \<le> (- 8 :: u64)"
      unfolding word_le_nat_alt u using i Suc assms(2) by simp_all
    have "load64 (store64 m (a - 8) v) (a + of_nat (8 * j)) = load64 m (a + of_nat (8 * j))"
      by (rule load64_store64_other; unfold b; rule le)
    then show ?thesis using a assms(1) i Suc by (simp add: words_at_def)
  qed
qed

lemma fill_entry_outside:
  assumes "p = base + of_nat (0x4000 - 8 * k)" "8 * k + 8 \<le> 0x4000" "0x4000 \<le> unat (a - base)"
  shows "store64 m (p - 8) v a = m a"
proof (rule store64_outside)
  let ?k = "0x4000 - 8 * k"
  have "p - 8 = base + of_nat (?k - 8)" using assms(1,2) by (simp add: of_nat_diff)
  then have e: "a - (p - 8) = a - base - of_nat (?k - 8)" by (simp add: algebra_simps)
  have "unat (a - base - of_nat (?k - 8)) = unat (a - base) - (?k - 8)"
    using assms(3) by (simp add: unat_sub_fits)
  then have "unat (a - (p - 8)) = unat (a - base) - (?k - 8)" unfolding e by simp
  then show "\<not> a - (p - 8) < 8" using assms(2,3) by (simp add: word_less_nat_alt)
qed

lemma pushed_fill:
  assumes "pushed m0 x base ws s" "8 * length ws + 72 \<le> 0x4000"
  shows "pushed m0 x base (v # ws) (fill_entry v s)"
proof -
  obtain a m where s: "s = (a, m)" by (cases s)
  have a: "a = base + of_nat (0x4000 - 8 * length ws)" "words_at m a ws" "guard_intact m base"
    "outside_stack base x m0 m"
    using assms(1) unfolding pushed_def s fst_conv snd_conv by blast+
  have "0x4000 - 8 * length ws = (0x4000 - 8 * length (v # ws)) + 8" using assms(2) by simp
  then have a8: "a - 8 = base + of_nat (0x4000 - 8 * length (v # ws))" unfolding a(1) by (simp only: of_nat_add) simp
  have "store64 m (a - 8) v (base + of_nat i) = m (base + of_nat i)" if "i < 64" for i
  proof (rule store64_outside)
    define k where "k = 0x4000 - 8 * length (v # ws)"
    then have k: "64 \<le> k" "k \<le> 0x4000" using assms(2) by simp_all
    have e: "base + of_nat i - (a - 8) = of_nat i - of_nat k" unfolding a8 k_def by (simp add: algebra_simps)
    have "unat (of_nat i - of_nat k :: u64) = i + 2 ^ 64 - k"
      using that k by (simp add: unat_sub_if')
    then show "\<not> base + of_nat i - (a - 8) < 8" unfolding e word_less_nat_alt using k(2) by simp
  qed
  then have "guard_intact (store64 m (a - 8) v) base" using a(3) by (simp add: guard_intact_def)
  moreover have "words_at (store64 m (a - 8) v) (a - 8) (v # ws)"
    by (rule words_at_push [OF a(2)]) (use assms(2) in simp)
  moreover have "outside_stack base x m0 (store64 m (a - 8) v)"
    using a(4) fill_entry_outside [OF a(1)] assms(2) by (simp add: outside_stack_def)
  ultimately show ?thesis using a8 by (simp add: pushed_def fill_entry_def Let_def s)
qed

lemma pushed_auxv:
  assumes "pushed m0 x base ws s" "8 * length ws + 80 \<le> 0x4000"
  shows "pushed m0 x base (k # v # ws) (fill_auxv_entry k v s)"
proof -
  have "pushed m0 x base (v # ws) (fill_entry v s)" by (rule pushed_fill [OF assms(1)]) (use assms(2) in simp)
  then show ?thesis unfolding fill_auxv_entry_def by (rule pushed_fill) (use assms(2) in simp)
qed

lemma pushed_array:
  "pushed m0 x base ws s \<Longrightarrow> 8 * (length vals + length ws) + 64 \<le> 0x4000 \<Longrightarrow>
    pushed m0 x base (vals @ ws) (fold (\<lambda>idx. fill_entry (vals ! idx)) (rev [0..<length vals]) s)"
proof (induction vals arbitrary: ws s rule: rev_induct)
  case (snoc v vals)
  have "pushed m0 x base (v # ws) (fill_entry v s)" by (rule pushed_fill [OF snoc(2)]) (use snoc(3) in simp)
  moreover have "fold (\<lambda>idx. fill_entry ((vals @ [v]) ! idx)) (rev [0..<length vals]) s' =
      fold (\<lambda>idx. fill_entry (vals ! idx)) (rev [0..<length vals]) s'" for s'
    by (rule fold_cong) (auto simp: nth_append)
  ultimately show ?case using snoc(1) [of "v # ws" "fill_entry v s"] snoc(3) by simp
qed simp

lemma fill_array_pushed:
  assumes "pushed m0 x base ws s" "8 * (length vals + length ws) + 64 \<le> 0x4000" "cnt = int (length vals)"
  shows "\<exists>s'. fill_array cnt vals s = Done s' \<and> pushed m0 x base (vals @ ws) s'"
  using pushed_array [OF assms(1,2)] assms(3) by (simp add: fill_array_def)

text \<open>Memory outside a region.\<close>

definition same_outside :: "uintptr_t \<Rightarrow> nat \<Rightarrow> memory \<Rightarrow> memory \<Rightarrow> bool" where
  "same_outside base n m m' \<longleftrightarrow> (\<forall>a. n \<le> unat (a - base) \<longrightarrow> m' a = m a)"

lemma same_outside_fill:
  assumes "pushed m0 x base ws s" "8 * length ws + 72 \<le> 0x4000" "same_outside base n m (snd s)" "0x4000 \<le> n"
  shows "same_outside base n m (snd (fill_entry v s))"
  unfolding same_outside_def
proof (intro allI impI)
  fix a assume a: "n \<le> unat (a - base)"
  then have "store64 (snd s) (fst s - 8) v a = snd s a"
    using fill_entry_outside [of "fst s" base "length ws" a] assms(1,2,4) by (simp add: pushed_def)
  then show "snd (fill_entry v s) a = m a" using a assms(3) by (simp add: fill_entry_def Let_def same_outside_def)
qed

section \<open>The entropy\<close>

text \<open>The 16 bytes at \<open>a\<close> lie outside the stack at \<open>base\<close>.\<close>

definition off_stack :: "uintptr_t \<Rightarrow> uintptr_t \<Rightarrow> bool" where
  "off_stack a base \<longleftrightarrow> 0x4000 \<le> unat (a - base) \<and> unat (a - base) + 16 \<le> 2 ^ 64"

lemma off_stack_neq:
  assumes "off_stack a base" "k < 0x4000" "d < 16"
  shows "base + of_nat k \<noteq> a + of_nat d"
proof
  assume "base + of_nat k = a + of_nat d"
  then have "a - base + of_nat d = of_nat k" by (simp add: algebra_simps)
  moreover have "unat (a - base + of_nat d) = unat (a - base) + d"
    using assms(1,3) by (subst unat_add_fits) (simp_all add: off_stack_def)
  ultimately show False using assms by (simp add: off_stack_def)
qed

lemma get_aux_entropy_stack:
  assumes "off_stack (img_aux_entropy img) base" "k < 0x4000"
  shows "snd (get_aux_entropy hvc img t m) (base + of_nat k) = m (base + of_nat k)"
proof -
  note ne = off_stack_neq [OF assms]
  show ?thesis
    using ne [of 0] ne [of 1] ne [of 2] ne [of 3] ne [of 4] ne [of 5] ne [of 6] ne [of 7] ne [of 8] ne [of 9]
      ne [of 10] ne [of 11] ne [of 12] ne [of 13] ne [of 14] ne [of 15]
    by (simp add: get_aux_entropy_def Let_def store32_bytes add.assoc)
qed

lemma get_aux_entropy_outside:
  "outside_stack base (img_aux_entropy img) m m' \<Longrightarrow>
    outside_stack base (img_aux_entropy img) m (snd (get_aux_entropy hvc img t m'))"
proof -
  let ?a = "img_aux_entropy img"
  assume m: "outside_stack base ?a m m'"
  have "snd (get_aux_entropy hvc img t m') y = m' y" if y: "16 \<le> unat (y - ?a)" for y
  proof -
    have "y \<noteq> ?a + of_nat d" if "d < 16" for d using y that by auto
    note ne = this
    show ?thesis
      using ne [of 0] ne [of 1] ne [of 2] ne [of 3] ne [of 4] ne [of 5] ne [of 6] ne [of 7] ne [of 8] ne [of 9]
        ne [of 10] ne [of 11] ne [of 12] ne [of 13] ne [of 14] ne [of 15]
      by (simp add: get_aux_entropy_def Let_def store32_bytes add.assoc)
  qed
  with m show ?thesis by (simp add: outside_stack_def)
qed

lemma pushed_cong:
  assumes "pushed m0 x base ws (p, m)" "\<And>k. k < 0x4000 \<Longrightarrow> m' (base + of_nat k) = m (base + of_nat k)"
    "8 * length ws \<le> 0x4000" "outside_stack base x m0 m'"
  shows "pushed m0 x base ws (p, m')"
proof -
  have p: "p = base + of_nat (0x4000 - 8 * length ws)" using assms(1) by (simp add: pushed_def)
  have "load64 m' (p + of_nat (8 * i)) = load64 m (p + of_nat (8 * i))" if "i < length ws" for i
  proof (rule load64_cong)
    fix d :: u64 assume "d < 8"
    then have d: "unat d < 8" by (simp add: word_less_nat_alt)
    have e: "p + of_nat (8 * i) + d = base + of_nat (0x4000 - 8 * length ws + 8 * i + unat d)" by (simp add: p)
    have "0x4000 - 8 * length ws + 8 * i + unat d < 0x4000" using that d assms(3) by linarith
    then show "m' (p + of_nat (8 * i) + d) = m (p + of_nat (8 * i) + d)" unfolding e by (rule assms(2))
  qed
  moreover have "m' (base + of_nat i) = m (base + of_nat i)" if "i < 64" for i using that assms(2) by simp
  ultimately show ?thesis using assms(1,4)
    unfolding pushed_def fst_conv snd_conv words_at_def guard_intact_def by metis
qed

section \<open>The auxiliary vector\<close>

definition aux_words :: "elf_abi \<Rightarrow> image \<Rightarrow> bool \<Rightarrow> memory \<Rightarrow> uintptr_t \<Rightarrow> u64 list" where
  "aux_words abi img ok m app =
     (if ok then [AT_RANDOM abi, img_aux_entropy img] else []) @
     [AT_EXECFN abi, img_app_name img, AT_PHNUM abi, e_phnum abi m app, AT_PHENT abi, sizeof_phdr abi,
      AT_PHDR abi, e_phoff abi m app + app, AT_PAGESZ abi, PAGE_SIZE]"

lemma get_aux_entropy_ok: "fst (get_aux_entropy hvc img t m) \<longleftrightarrow> pr_error (gunyah_hyp_prng_get_entropy hvc 16 t) = 0"
  by (simp add: get_aux_entropy_def Let_def)

lemma setup_auxvector_pushed:
  assumes "pushed m0 (img_aux_entropy img) base ws s" "8 * length ws + 0x200 \<le> 0x4000" "off_stack (img_aux_entropy img) base"
  shows "\<exists>s'. setup_auxvector abi hvc img t app s = (e_entry abi (snd s) app + app, s') \<and>
    pushed m0 (img_aux_entropy img) base (aux_words abi img (pr_error (gunyah_hyp_prng_get_entropy hvc 16 t) = 0) (snd s) app @ ws) s'"
proof -
  let ?ws5 = "[AT_EXECFN abi, img_app_name img, AT_PHNUM abi, e_phnum abi (snd s) app, AT_PHENT abi, sizeof_phdr abi,
      AT_PHDR abi, e_phoff abi (snd s) app + app, AT_PAGESZ abi, PAGE_SIZE] @ ws"
  let ?s5 = "fill_auxv_entry (AT_EXECFN abi) (img_app_name img) (fill_auxv_entry (AT_PHNUM abi) (e_phnum abi (snd s) app)
      (fill_auxv_entry (AT_PHENT abi) (sizeof_phdr abi) (fill_auxv_entry (AT_PHDR abi) (e_phoff abi (snd s) app + app)
      (fill_auxv_entry (AT_PAGESZ abi) PAGE_SIZE s))))"
  have p5: "pushed m0 (img_aux_entropy img) base ?ws5 ?s5"
    unfolding append_Cons append_Nil by (intro pushed_auxv assms(1)) (use assms(2) in simp_all)
  obtain ok m' where e: "get_aux_entropy hvc img t (snd ?s5) = (ok, m')" by fastforce
  have ok: "ok \<longleftrightarrow> pr_error (gunyah_hyp_prng_get_entropy hvc 16 t) = 0"
    using get_aux_entropy_ok [of hvc img t "snd ?s5"] unfolding e by simp
  have p6: "pushed m0 (img_aux_entropy img) base ?ws5 (fst ?s5, m')"
  proof (rule pushed_cong)
    show "pushed m0 (img_aux_entropy img) base ?ws5 (fst ?s5, snd ?s5)" using p5 by (simp only: prod.collapse)
    show "m' (base + of_nat k) = snd ?s5 (base + of_nat k)" if "k < 0x4000" for k
      using get_aux_entropy_stack [OF assms(3) that, of hvc t "snd ?s5"] unfolding e by simp
    show "outside_stack base (img_aux_entropy img) m0 m'"
      using get_aux_entropy_outside [of base img m0 "snd ?s5" hvc t] p5 unfolding e by (simp add: pushed_def)
  qed (use assms(2) in simp)
  have p7: "pushed m0 (img_aux_entropy img) base (AT_RANDOM abi # img_aux_entropy img # ?ws5)
      (fill_auxv_entry (AT_RANDOM abi) (img_aux_entropy img) (fst ?s5, m'))"
    by (rule pushed_auxv [OF p6]) (use assms(2) in simp)
  have "setup_auxvector abi hvc img t app s = (e_entry abi (snd s) app + app,
      if ok then fill_auxv_entry (AT_RANDOM abi) (img_aux_entropy img) (fst ?s5, m') else (fst ?s5, m'))"
    by (simp add: setup_auxvector_def Let_def e)
  then show ?thesis using p6 p7 ok by (cases ok) (auto simp: aux_words_def)
qed

section \<open>The heap\<close>

lemma mem_fill_filled: "mem_fill s v n m = filled s v (unat n) m"
  by (simp add: mem_fill_def filled_def written_def)

lemma add_heap_mem:
  "mmap_add_heap base sz True mm = Done (0, mm') \<Longrightarrow>
     mm_mem mm' = filled base 0 (unat (heap_meta_size (ucast (sz div PAGE_SIZE)))) (mm_mem mm)"
  by (auto simp: mmap_add_heap_def outcome_Done Let_def mem_fill_filled split: if_splits)

lemma guard_set: "guard_intact (filled base 0xeb 64 m) base"
  by (auto simp: guard_intact_def filled_def written_def)

lemma guard_below_heap:
  assumes "guard_intact m base" "n < 2 ^ 63"
  shows "guard_intact (filled (base + 0x4000) 0 n m) base"
  unfolding guard_intact_def
proof (intro allI impI)
  fix i :: nat assume i: "i < 64"
  have e: "base + of_nat i - (base + 0x4000) = of_nat i - 0x4000" by simp
  have "unat (of_nat i - 0x4000 :: u64) = i + 2 ^ 64 - 0x4000" using i by (simp add: unat_sub_if')
  then have "\<not> unat (base + of_nat i - (base + 0x4000)) < n" unfolding e using assms(2) by simp
  then show "filled (base + 0x4000) 0 n m (base + of_nat i) = 0xeb"
    using assms(1) i by (simp add: filled_def written_def guard_intact_def)
qed

lemma same_outside_filled:
  "same_outside base k m m' \<Longrightarrow> unat (d - base) + n \<le> k \<Longrightarrow> same_outside base k m (filled d v n m')"
proof -
  assume a: "same_outside base k m m'" "unat (d - base) + n \<le> k"
  have "\<not> unat (x - d) < n" if "k \<le> unat (x - base)" for x
  proof -
    have "x - d = (x - base) - (d - base)" by simp
    then have "unat (x - d) = unat (x - base) - unat (d - base)"
      using that a(2) by (simp only: unat_sub_fits)
    then show ?thesis using that a(2) by linarith
  qed
  then show ?thesis using a(1) by (simp add: same_outside_def filled_def written_def)
qed

section \<open>The set-up of the application\<close>

text \<open>
  What the loader must provide: a memory area for stack and heap that is fresh and aligned, and
  the entropy bytes and the ELF header outside of it.
\<close>

definition header_outside :: "elf_abi \<Rightarrow> memory \<Rightarrow> uintptr_t \<Rightarrow> uintptr_t \<Rightarrow> size_t \<Rightarrow> bool" where
  "header_outside abi m app base sz \<longleftrightarrow>
     (\<forall>m'. same_outside base (unat sz) m m' \<longrightarrow>
        e_phoff abi m' app = e_phoff abi m app \<and> e_phnum abi m' app = e_phnum abi m app \<and>
        e_entry abi m' app = e_entry abi m app)"

definition boot_area_ok :: "elf_abi \<Rightarrow> image \<Rightarrow> memory \<Rightarrow> mmap_state \<Rightarrow> bool" where
  "boot_area_ok abi img m mm \<longleftrightarrow>
     (let ed = load_env_data m (img_env_data img); base = ed_app_heap_ipa ed; sz = ed_app_heap_size ed in
      0x4000 < sz \<and> unat base + unat sz < 2 ^ 64 \<and>
      new_heap (base + 0x4000) (sz - 0x4000) mm \<and> aligned_meta (sz - 0x4000) < sz - 0x4000 \<and>
      mmap_brk_node mm = 0 \<and> off_stack (img_aux_entropy img) base \<and>
      header_outside abi m (ed_app_ipa ed) base sz)"

lemma new_heap_mem [simp]: "new_heap base sz (mm\<lparr>mm_mem := m\<rparr>) = new_heap base sz mm"
  by (simp add: new_heap_def)

lemma set_out_same: "set_out (rt_out st) st = st"
  by (simp add: set_out_def rt_out_def)

lemma mm_call_quiet:
  assumes "f (rt_mm st) = Done (ret, mm)" "mm_logs mm = []"
  shows "mm_call pf f st = Done (ret, st\<lparr>rt_mm := mm\<rparr>)"
proof -
  have "mm\<lparr>mm_logs := []\<rparr> = mm" using assms(2) by (cases mm) simp
  moreover have "rt_print pf [] st1 = Done st1" for st1 by (simp add: rt_print_def set_out_same)
  ultimately show ?thesis using assms by (simp add: mm_call_def)
qed

lemma add_heap_logs: "mmap_add_heap base sz b mm = Done (r, mm') \<Longrightarrow> mm_logs mm' = mm_logs mm"
  by (auto simp: mmap_add_heap_def outcome_Done Let_def split: if_splits)

lemma stack_pad_one:
  assumes "unat base mod 16 = 0"
  shows "stack_pad (parse_device_tree img) (base + 0x4000 - 8) = 1"
proof -
  have "take_bit 4 base = base mod 16" by (simp add: take_bit_eq_mod)
  also have "base mod 16 = 0" using assms by (simp add: word_unat_eq_iff unat_mod)
  finally have b: "take_bit 4 base = 0" .
  have "take_bit 4 (base + 0x4038) = take_bit 4 (take_bit 4 base + take_bit 4 0x4038)"
    by (rule take_bit_add_word) simp
  then have "(base + 0x4038) mod 16 = 8" unfolding b by (simp add: take_bit_eq_mod)
  moreover have "(8 :: u64) div 8 = 1" by code_simp
  ultimately show ?thesis by (simp add: stack_pad_def parse_device_tree_def Let_def add.commute)
qed

text \<open>The words of the stack, from the stack pointer up.\<close>

definition start_words :: "elf_abi \<Rightarrow> image \<Rightarrow> bool \<Rightarrow> memory \<Rightarrow> uintptr_t \<Rightarrow> u64 list" where
  "start_words abi img ok m app =
     [4, img_exec_name img, img_env_data img + 88, img_log_buf img, 312, 0, img_exec_name img, 0] @
     aux_words abi img ok m app @ [0, 0]"

lemma length_start_words: "length (start_words abi img ok m app) = (if ok then 22 else 20)"
  by (simp add: start_words_def aux_words_def)

lemma int32_of_small: "int32_of 4 = 4" "int32_of 1 = 1"
  by (simp_all add: int32_of_def)

text \<open>The area of the application that the loader describes.\<close>

lemma boot_area_facts:
  assumes "boot_area_ok abi img m mm"
  defines "ed \<equiv> load_env_data m (img_env_data img)"
  defines "base \<equiv> ed_app_heap_ipa ed" and "sz \<equiv> ed_app_heap_size ed"
  shows "0x4000 < sz" "unat base + unat sz < 2 ^ 64" "new_heap (base + 0x4000) (sz - 0x4000) mm"
    "aligned_meta (sz - 0x4000) < sz - 0x4000" "mmap_brk_node mm = 0" "off_stack (img_aux_entropy img) base"
    "header_outside abi m (ed_app_ipa ed) base sz" "0x4000 < unat sz" "unat base mod 16 = 0"
    "unat (sz - 0x4000) = unat sz - 0x4000"
proof -
  show area: "0x4000 < sz" "unat base + unat sz < 2 ^ 64" "new_heap (base + 0x4000) (sz - 0x4000) mm"
    "aligned_meta (sz - 0x4000) < sz - 0x4000" "mmap_brk_node mm = 0" "off_stack (img_aux_entropy img) base"
    "header_outside abi m (ed_app_ipa ed) base sz"
    using assms(1) by (simp_all add: boot_area_ok_def Let_def ed_def [symmetric] base_def [symmetric] sz_def [symmetric])
  show size: "0x4000 < unat sz" using area(1) by (simp add: word_less_nat_alt)
  have b4: "unat (base + 0x4000) = unat base + 0x4000" using area(2) size by (subst unat_add_fits) simp_all
  have "4096 dvd unat base + 0x4000" using area(3) b4 by (simp add: new_heap_def mod_eq_0_iff_dvd)
  then have "16 dvd unat base + 0x4000" by (rule dvd_trans [rotated]) simp
  then have "16 dvd unat base" using dvd_add_left_iff [of 16 "0x4000" "unat base"] by simp
  then show "unat base mod 16 = 0" by simp
  show "unat (sz - 0x4000) = unat sz - 0x4000" using size by (simp add: unat_sub_fits)
qed

text \<open>The guard pattern and the heap: the first two steps of \<open>elf_setup\<close>.\<close>

lemma guard_and_heap:
  assumes "rt_ok st" "boot_area_ok abi img (rt_mem st) (rt_mm st)"
  defines "base \<equiv> ed_app_heap_ipa (load_env_data (rt_mem st) (img_env_data img))"
    and "sz \<equiv> ed_app_heap_size (load_env_data (rt_mem st) (img_env_data img))"
  obtains m1 mm2 where "memset base 0xeb 64 (rt_mem st) = Done (base, m1)"
    "mm_call pf (mmap_add_heap (base + 0x4000) (sz - 0x4000) True) (st\<lparr>rt_mm := (rt_mm st)\<lparr>mm_mem := m1\<rparr>\<rparr>) =
      Done (0, st\<lparr>rt_mm := mm2\<rparr>)"
    "mmap_inv mm2" "mm_logs mm2 = []" "mapped_pages mm2 = mapped_pages (rt_mm st)"
    "brk_base mm2 = base + 0x4000 + aligned_meta (sz - 0x4000)" "cur_brk mm2 = brk_base mm2"
    "brk_top mm2 = base + sz" "guard_intact (mm_mem mm2) base" "same_outside base (unat sz) (rt_mem st) (mm_mem mm2)"
proof -
  note area = boot_area_facts [OF assms(2), folded base_def sz_def]
  let ?m = "rt_mem st" and ?size = sz
  define m1 where "m1 = filled base 0xeb 64 ?m"
  have set: "memset base 0xeb 64 ?m = Done (base, m1)" using memset_fills [of 64 base "0xeb" ?m] by (simp add: m1_def)
  let ?mm1 = "(rt_mm st)\<lparr>mm_mem := m1\<rparr>"
  have inv1: "mmap_inv ?mm1" using assms(1) by (simp add: rt_ok_def)
  obtain mm2 where heap: "mmap_add_heap (base + 0x4000) (?size - 0x4000) True ?mm1 = Done (0, mm2)" "mmap_inv mm2"
    "mapped_pages mm2 = mapped_pages ?mm1" "brk_base mm2 = base + 0x4000 + aligned_meta (?size - 0x4000)"
    "cur_brk mm2 = brk_base mm2" "brk_top mm2 = base + 0x4000 + (?size - 0x4000)"
    using add_heap_brk [OF inv1, of "base + 0x4000" "?size - 0x4000"] area(3-5) by auto
  let ?n = "unat (heap_meta_size (ucast ((?size - 0x4000) div PAGE_SIZE)))"
  have m2: "mm_mem mm2 = filled (base + 0x4000) 0 ?n m1" using add_heap_mem [OF heap(1)] by simp
  have meta: "?n < 2 ^ 34" by (rule heap_meta_bound(2) [OF area(3)])
  have "?n \<le> unat (aligned_meta (?size - 0x4000))"
    unfolding aligned_meta_def
    using div_mult_mod_eq [of "?n + 4095" 4096] mod_less_divisor [of 4096 "?n + 4095"] meta
    by (subst unat_balign_up_page) simp_all
  then have n: "?n \<le> unat (?size - 0x4000)" using area(4) by (simp add: word_less_nat_alt)
  have logs: "mm_logs mm2 = []" using add_heap_logs [OF heap(1)] assms(1) by (simp add: rt_ok_def)
  let ?st1 = "st\<lparr>rt_mm := ?mm1\<rparr>"
  have "mm_call pf (mmap_add_heap (base + 0x4000) (?size - 0x4000) True) ?st1 = Done (0, st\<lparr>rt_mm := mm2\<rparr>)"
    using mm_call_quiet [of "mmap_add_heap (base + 0x4000) (?size - 0x4000) True" ?st1 0 mm2 pf] heap(1) logs by simp
  moreover have "guard_intact (mm_mem mm2) base"
    unfolding m2 by (rule guard_below_heap) (use guard_set meta in \<open>simp_all add: m1_def\<close>)
  moreover have "same_outside base (unat ?size) ?m m1"
    unfolding m1_def by (rule same_outside_filled) (use area(8) in \<open>simp_all add: same_outside_def\<close>)
  then have "same_outside base (unat ?size) ?m (mm_mem mm2)"
    unfolding m2 by (rule same_outside_filled) (use n area(8,10) in simp_all)
  ultimately show thesis using set heap logs by (intro that) simp_all
qed

text \<open>The words pushed on the stack, from the end of the auxiliary vector to the argument count.\<close>

lemma start_pushes:
  fixes hvc :: hypervisor and t :: trace
  assumes start: "pushed m0 (img_aux_entropy img) base [] (base + 0x4000, m2)" and same: "same_outside base (unat sz) m m2" "0x4000 < unat sz"
    and abi: "off_stack (img_aux_entropy img) base" "header_outside abi m app base sz"
  defines "ok \<equiv> pr_error (gunyah_hyp_prng_get_entropy hvc 16 t) = 0"
    and "argv \<equiv> [img_exec_name img, img_env_data img + 88, img_log_buf img, 312]"
  obtains s3 s4 s5 where
    "setup_auxvector abi hvc img t app (fill_entry 0 (fill_entry 0 (base + 0x4000, m2))) = (e_entry abi m app + app, s3)"
    "setup_envs 1 [img_exec_name img] s3 = Done s4" "fill_array 4 argv (fill_entry 0 s4) = Done s5"
    "pushed m0 (img_aux_entropy img) base (start_words abi img ok m app) (fill_entry 4 s5)"
proof -
  let ?s1 = "fill_entry 0 (base + 0x4000, m2)"
  let ?s2 = "fill_entry 0 ?s1"
  have p2: "pushed m0 (img_aux_entropy img) base [0, 0] ?s2"
    by (rule pushed_fill [OF pushed_fill [OF start]]) simp_all
  have o: "same_outside base (unat sz) m (snd ?s1)"
    by (rule same_outside_fill [OF start]) (use same in simp_all)
  then have o3: "same_outside base (unat sz) m (snd ?s2)"
    by (intro same_outside_fill [OF pushed_fill [OF start]]) (use same in simp_all)
  then have hdr: "e_phoff abi (snd ?s2) app = e_phoff abi m app" "e_phnum abi (snd ?s2) app = e_phnum abi m app"
    "e_entry abi (snd ?s2) app = e_entry abi m app"
    using abi(2) by (simp_all add: header_outside_def)
  have aux: "aux_words abi img ok' (snd ?s2) app = aux_words abi img ok' m app" for ok'
    by (simp add: aux_words_def hdr)
  have "8 * length [0 :: u64, 0] + 0x200 \<le> 0x4000" by simp
  from setup_auxvector_pushed [OF p2 this abi(1), of abi hvc t app, unfolded hdr(3) aux, folded ok_def]
  obtain s3 where s3: "setup_auxvector abi hvc img t app ?s2 = (e_entry abi m app + app, s3)"
    "pushed m0 (img_aux_entropy img) base (aux_words abi img ok m app @ [0, 0]) s3" by blast
  let ?aux = "aux_words abi img ok m app"
  have la: "length ?aux \<le> 12" by (simp add: aux_words_def)
  have p4: "pushed m0 (img_aux_entropy img) base (0 # ?aux @ [0, 0]) (fill_entry 0 s3)" by (rule pushed_fill [OF s3(2)]) (use la in simp)
  have "\<exists>s4. setup_envs 1 [img_exec_name img] s3 = Done s4 \<and> pushed m0 (img_aux_entropy img) base ([img_exec_name img] @ 0 # ?aux @ [0, 0]) s4"
    using fill_array_pushed [OF p4, of "[img_exec_name img]" 1] la by (simp add: setup_envs_def)
  then obtain s4 where s4: "setup_envs 1 [img_exec_name img] s3 = Done s4"
    "pushed m0 (img_aux_entropy img) base (img_exec_name img # 0 # ?aux @ [0, 0]) s4" by auto
  have p5: "pushed m0 (img_aux_entropy img) base (0 # img_exec_name img # 0 # ?aux @ [0, 0]) (fill_entry 0 s4)"
    by (rule pushed_fill [OF s4(2)]) (use la in simp)
  obtain s5 where s5: "fill_array 4 argv (fill_entry 0 s4) = Done s5"
    "pushed m0 (img_aux_entropy img) base (argv @ 0 # img_exec_name img # 0 # ?aux @ [0, 0]) s5"
    using fill_array_pushed [OF p5, of argv 4] la by (auto simp: argv_def)
  have p6: "pushed m0 (img_aux_entropy img) base (start_words abi img ok m app) (fill_entry 4 s5)"
    using pushed_fill [OF s5(2), of 4] la by (simp add: start_words_def argv_def)
  show thesis by (rule that [OF s3(1) s4(1) s5(1) p6])
qed

lemma start_sp:
  assumes "pushed m0 x base ws s" "unat base + 0x4000 < 2 ^ 64" "unat base mod 16 = 0" "length ws = 20 \<or> length ws = 22"
  shows "unat (fst s) mod 16 = 0" "util_is_baligned (fst s) 16"
proof -
  have "fst s = base + of_nat (0x4000 - 8 * length ws)" using assms(1) unfolding pushed_def by blast
  then have "unat (fst s) = unat base + (0x4000 - 8 * length ws)" using assms(2,4) by (auto simp: unat_add_fits)
  then show "unat (fst s) mod 16 = 0" using assms(3,4) by (auto simp: mod_add_left_eq [symmetric])
  then have "fst s mod 16 = 0" by (simp add: word_unat_eq_iff unat_mod)
  moreover have "fst s AND 15 = take_bit 4 (fst s)" by (simp add: take_bit_eq_mask mask_eq_exp_minus_1)
  ultimately show "util_is_baligned (fst s) 16" by (simp add: util_is_baligned_def take_bit_eq_mod)
qed

lemma elf_setup_done:
  fixes hvc :: hypervisor
  assumes "pf_ok pf" "rt_ok st" "boot_area_ok abi img (rt_mem st) (rt_mm st)"
  defines "ed \<equiv> load_env_data (rt_mem st) (img_env_data img)"
  defines "base \<equiv> ed_app_heap_ipa ed"
    and "ws \<equiv> start_words abi img (pr_error (gunyah_hyp_prng_get_entropy hvc 16 (io (rt_irq st))) = 0)
      (rt_mem st) (ed_app_ipa ed)"
  shows "\<exists>sp st'. elf_setup pf abi hvc img st =
      Done (e_entry abi (rt_mem st) (ed_app_ipa ed) + ed_app_ipa ed, sp, st') \<and> rt_ok st' \<and>
    sp = base + of_nat (0x4000 - 8 * length ws) \<and> words_at (rt_mem st') sp ws \<and> guard_intact (rt_mem st') base \<and>
    unat sp mod 16 = 0 \<and> cur_brk (rt_mm st') = brk_base (rt_mm st') \<and>
    brk_base (rt_mm st') = base + 0x4000 + aligned_meta (ed_app_heap_size ed - 0x4000) \<and>
    brk_top (rt_mm st') = base + ed_app_heap_size ed \<and> mapped_pages (rt_mm st') = mapped_pages (rt_mm st) \<and>
    (\<forall>x. unat (ed_app_heap_size ed) \<le> unat (x - base) \<longrightarrow> 16 \<le> unat (x - img_aux_entropy img) \<longrightarrow>
      rt_mem st' x = rt_mem st x)"
proof -
  let ?size = "ed_app_heap_size ed" and ?app = "ed_app_ipa ed" and ?m = "rt_mem st" and ?t = "io (rt_irq st)"
  note area = boot_area_facts [OF assms(3), folded ed_def, folded base_def]
  obtain m1 mm2 where heap: "memset base 0xeb 64 ?m = Done (base, m1)"
    "mm_call pf (mmap_add_heap (base + 0x4000) (?size - 0x4000) True) (st\<lparr>rt_mm := (rt_mm st)\<lparr>mm_mem := m1\<rparr>\<rparr>) =
      Done (0, st\<lparr>rt_mm := mm2\<rparr>)"
    "mmap_inv mm2" "mm_logs mm2 = []" "mapped_pages mm2 = mapped_pages (rt_mm st)"
    "brk_base mm2 = base + 0x4000 + aligned_meta (?size - 0x4000)" "cur_brk mm2 = brk_base mm2"
    "brk_top mm2 = base + ?size" "guard_intact (mm_mem mm2) base" "same_outside base (unat ?size) ?m (mm_mem mm2)"
    unfolding base_def ed_def by (rule guard_and_heap [OF assms(2,3)])
  have "pushed (mm_mem mm2) (img_aux_entropy img) base [] (base + 0x4000, mm_mem mm2)" using heap(9) by (simp add: pushed_def words_at_def outside_stack_def)
  from start_pushes [OF this heap(10) area(8,6,7), of hvc ?t]
  obtain s3 s4 s5 where s: "setup_auxvector abi hvc img ?t ?app (fill_entry 0 (fill_entry 0 (base + 0x4000, mm_mem mm2))) =
      (e_entry abi ?m ?app + ?app, s3)"
    "setup_envs 1 [img_exec_name img] s3 = Done s4"
    "fill_array 4 [img_exec_name img, img_env_data img + 88, img_log_buf img, 312] (fill_entry 0 s4) = Done s5"
    "pushed (mm_mem mm2) (img_aux_entropy img) base ws (fill_entry 4 s5)" unfolding ws_def by blast
  let ?sp = "fst (fill_entry 4 s5)" and ?st' = "st\<lparr>rt_mm := mm2\<lparr>mm_mem := snd (fill_entry 4 s5)\<rparr>\<rparr>"
  have sp: "?sp = base + of_nat (0x4000 - 8 * length ws)" "words_at (snd (fill_entry 4 s5)) ?sp ws"
    "guard_intact (snd (fill_entry 4 s5)) base" "outside_stack base (img_aux_entropy img) (mm_mem mm2) (snd (fill_entry 4 s5))"
    using s(4) unfolding pushed_def by blast+
  have same: "snd (fill_entry 4 s5) y = ?m y" if "unat ?size \<le> unat (y - base)" "16 \<le> unat (y - img_aux_entropy img)" for y
    using that sp(4) heap(10) area(8) by (simp add: outside_stack_def same_outside_def)
  have "length ws = 20 \<or> length ws = 22" by (simp add: ws_def length_start_words)
  then have bal: "unat ?sp mod 16 = 0" "util_is_baligned ?sp 16"
    using start_sp [OF s(4) _ area(9)] area(2,8) by auto
  have pad: "unat (stack_pad (parse_device_tree img) (fst (fill_entry 0 (base + 0x4000, mm_mem mm2)))) = 1"
    using stack_pad_one [OF area(9), of img] by (simp add: fill_entry_def Let_def)
  have "elf_setup pf abi hvc img st = Done (e_entry abi ?m ?app + ?app, ?sp, ?st')"
    using area(1) heap(1,2) s(1-3) bal(2) pad
    unfolding elf_setup_def Let_def ed_def [symmetric] base_def [symmetric]
    by (simp add: rt_mem_def parse_device_tree_def int32_of_small setup_arguments_def)
  moreover have "rt_ok ?st'" using heap(3,4) assms(2) by (simp add: rt_ok_def)
  moreover have "rt_mem ?st' = snd (fill_entry 4 s5)" by (simp add: rt_mem_def)
  ultimately show ?thesis using sp(1-3) bal(1) heap(5-8) same by auto
qed

end
