(* ===== verification/StartSpec.thy ===== *)
theory StartSpec
  imports BootSpec GicSpec
begin

unbundle bit_operations_syntax

text \<open>
  The start of the runtime as a whole and its reachable states: the set-up of \<open>boot.c\<close> and
  \<open>auxvec.c\<close> establishes the invariant of the runtime, and system calls, interrupts and the
  application's own stores keep it.
\<close>

section \<open>The initialisation\<close>

text \<open>The documented behaviour of the devices: the controller as in \<open>GicSpec\<close>, and the frequency
  register holds the frequency that the environment data announces.\<close>

definition devices_ok :: "environment \<Rightarrow> (nat \<Rightarrow> bool) \<Rightarrow> (nat \<Rightarrow> bool) \<Rightarrow> u64 \<Rightarrow> bool" where
  "devices_ok env e c freq \<longleftrightarrow>
     rwp_clears env \<and> gic_reads env e c \<and> (\<forall>t. load_value env t CNTFRQ_EL0 = freq) \<and>
     0 < unat freq \<and> unat freq \<le> 1000000000"

lemma platform_timer_init_done:
  assumes "devices_ok env e c freq"
  obtains t' where "platform_timer_init env freq t = Done t'"
    "\<And>n. n < 1020 \<Longrightarrow> gic_enabled e t' n \<longleftrightarrow> gic_enabled e t n \<or> n = 27"
    "\<not> gic_edge c t' 27"
proof -
  let ?t = "Store CNTV_CTL_EL0 CNTV_CTL_IMASK # Store CNTKCTL_EL1 0 # Load CNTFRQ_EL0 freq # t"
  have d: "rwp_clears env" "gic_reads env e c" "\<And>t. load_value env t CNTFRQ_EL0 = freq"
    using assms by (simp_all add: devices_ok_def)
  have regs: "en_reg 27 = GICR_ISENABLER0" "cfg_reg 27 = GICR_ICFGR1" by (simp_all add: en_reg_def cfg_reg_def)
  have en: "gic_enabled e ?t n = gic_enabled e t n" for n by (simp add: enable_effect_def)
  obtain t1 v t' where r: "reconfigure env (en_reg 27) (cfg_reg 27) 27 False ?t = Done t'"
    "t' = (if gic_enabled e ?t (unat (27 :: virq_t)) then platform_irq_enable 27 (Store (cfg_reg 27) v # t1)
           else Store (cfg_reg 27) v # t1)"
    "\<And>n. n < 1020 \<Longrightarrow> gic_enabled e t1 n = (gic_enabled e ?t n \<and> n \<noteq> unat (27 :: virq_t))"
    "\<And>n. n < 1020 \<Longrightarrow> gic_edge c t' n = (if n = unat (27 :: virq_t) then False else gic_edge c ?t n)"
    by (rule reconfigure_state [OF d(1,2), of 27 False ?t]) simp_all
  have "platform_irq_set_trigger env 27 IRQ_TRIGGER_LEVEL_HIGH ?t = Done (True, t')"
    using r(1) unfolding regs by (simp add: platform_irq_set_trigger_def decode_trigger_def)
  then have "platform_timer_init env freq t = Done (platform_irq_enable 27 t')"
    using d(3) by (simp add: platform_timer_init_def device_load_def Let_def device_store_def write_cntv_ctl_def)
  moreover have "gic_enabled e (platform_irq_enable 27 t') n \<longleftrightarrow> gic_enabled e t n \<or> n = 27" if "n < 1020" for n
    using r(3) [OF that] en [of n] unfolding r(2)
    by (auto simp: platform_irq_enable_state enable_effect_cfg)
  moreover have "\<not> gic_edge c (platform_irq_enable 27 t') 27"
    using r(4) [of 27] by (subst platform_irq_enable_other) (simp_all add: edge_effect_def)
  ultimately show thesis by (rule that)
qed

lemma runtime_init_done:
  assumes "devices_ok env e c freq" "ed_timer_freq (load_env_data m (img_env_data img)) = freq"
  shows "\<exists>guard st. runtime_init env hvc img (runtime_image m t) = Done (guard, st) \<and> rt_ok st \<and>
    rt_mm st = mmap_initial m \<and> ie_isr (isr_table (rt_irq st) 27) = Some Timer_isr \<and>
    (\<forall>n < 992. gic_enabled e (io (rt_irq st)) n \<longleftrightarrow> n = 27) \<and> \<not> gic_edge c (io (rt_irq st)) 27"
proof -
  let ?st = "runtime_image m t"
  have rwp: "rwp_clears env" and freq: "0 < unat freq" "unat freq \<le> 1000000000"
    using assms(1) by (simp_all add: devices_ok_def)
  obtain t1 mp where t1: "platform_irq_init env t = Done t1"
    "\<And>n. n < 1020 \<Longrightarrow> gic_enabled e t1 n = (992 \<le> n \<and> gic_enabled e t n)"
    by (rule platform_irq_init_state [OF rwp, of t e "\<lambda>_. False" "\<lambda>_. 0" c "\<lambda>_. 0"]) (rule that)
  let ?irq1 = "(rt_irq ?st)\<lparr>io := t1\<rparr>"
  have i: "interrupt_init env (rt_irq ?st) = Done ?irq1" using t1(1) by (simp add: interrupt_init_def runtime_image_def)
  obtain t2 where t2: "platform_timer_init env freq t1 = Done t2"
    "\<And>n. n < 1020 \<Longrightarrow> gic_enabled e t2 n \<longleftrightarrow> gic_enabled e t1 n \<or> n = 27" "\<not> gic_edge c t2 27"
    by (rule platform_timer_init_done [OF assms(1), of t1]) (rule that)
  let ?irq2 = "?irq1\<lparr>io := t2, isr_table := (isr_table ?irq1)(27 := \<lparr>ie_isr = Some Timer_isr, ie_data = 0\<rparr>)\<rparr>"
  have reg: "interrupt_register_isr PLATFORM_TIMER_IRQ (Some Timer_isr) 0 (?irq1\<lparr>io := t2\<rparr>) = Done (0, ?irq2)"
    by (simp add: interrupt_register_isr_def have_isr_def runtime_image_def no_isrs_def)
  have "unat ((UINT64_MAX - of_int TIMESPEC_MAX_NSEC) div freq) = (2 ^ 64 - 1000000000) div unat freq"
    by (simp add: unat_div)
  also have "\<dots> > 0" using freq by (simp add: div_greater_zero_iff)
  finally have "0 < (UINT64_MAX - of_int TIMESPEC_MAX_NSEC) div freq" by (simp add: word_less_nat_alt)
  then obtain tm where tm: "timer_init env freq ?irq1 = Done (tm, ?irq2)"
    using t2(1) reg by (simp add: timer_init_def Let_def)
  have f: "fs_init (rt_fs ?st) = Done fs_start" using fs_init_start by (simp add: runtime_image_def)
  have mem: "rt_mem ?st = m" by (simp add: rt_mem_def runtime_image_def mmap_initial_def)
  let ?st' = "?st\<lparr>rt_irq := ?irq2, rt_fs := fs_start, rt_timer := tm\<rparr>"
  obtain guard where "runtime_init env hvc img ?st = Done (guard, ?st')"
    using i f tm assms(2) by (simp add: runtime_init_def Let_def mem)
  moreover have "rt_ok ?st'"
    using mmap_inv_initial [of m] timer_init_ok [OF tm freq(2)] fs_start_ok
    by (simp add: rt_ok_def runtime_image_def console_ok_def console_initial_def log_ok_def early_log_buf_def
        mmap_initial_def)
  moreover have "\<forall>n < 992. gic_enabled e t2 n \<longleftrightarrow> n = 27" using t1(2) t2(2) by simp
  ultimately show ?thesis using t2(3) by (auto simp: runtime_image_def)
qed

section \<open>The start\<close>

lemma start_runtime_done:
  assumes "pf_ok pf" "devices_ok (pf_env pf) e c freq" "boot_area_ok abi img m (mmap_initial m)"
  defines "ed \<equiv> load_env_data m (img_env_data img)"
  assumes "ed_timer_freq ed = freq"
  shows "\<exists>guard sp st ok. start_runtime pf abi hvc img (runtime_image m t) =
      Done (guard, e_entry abi m (ed_app_ipa ed) + ed_app_ipa ed, sp, st) \<and> rt_ok st \<and>
    words_at (rt_mem st) sp (start_words abi img ok m (ed_app_ipa ed)) \<and> unat sp mod 16 = 0 \<and>
    sp = ed_app_heap_ipa ed + of_nat (0x4000 - 8 * length (start_words abi img ok m (ed_app_ipa ed))) \<and>
    guard_intact (rt_mem st) (ed_app_heap_ipa ed) \<and>
    cur_brk (rt_mm st) = brk_base (rt_mm st) \<and>
    brk_top (rt_mm st) = ed_app_heap_ipa ed + ed_app_heap_size ed \<and> mapped_pages (rt_mm st) = {} \<and>
    (\<forall>x. unat (ed_app_heap_size ed) \<le> unat (x - ed_app_heap_ipa ed) \<longrightarrow> 16 \<le> unat (x - img_aux_entropy img) \<longrightarrow>
      rt_mem st x = m x)"
proof -
  obtain guard st1 where i: "runtime_init (pf_env pf) hvc img (runtime_image m t) = Done (guard, st1)" "rt_ok st1"
    "rt_mm st1 = mmap_initial m"
    using runtime_init_done [OF assms(2), of m img hvc t] assms(4,5) by (auto simp: ed_def)
  have mem: "rt_mem st1 = m" by (simp add: rt_mem_def i(3) mmap_initial_def)
  have none: "mapped_pages (mmap_initial m) = {}" by (simp add: mapped_pages_def mmap_initial_def)
  from elf_setup_done [OF assms(1) i(2), of abi img hvc, unfolded mem i(3) none, OF assms(3)]
  show ?thesis unfolding ed_def start_runtime_def i(1) bindc.simps split_conv by force
qed

text \<open>C21: from the static image on, the runtime starts without stopping in an assertion whenever the
  devices behave as documented and the memory area is fresh, and the application finds what
  the ELF convention promises: at the aligned stack pointer the count and addresses of the
  arguments and of the environment, each list ended by a null, then the auxiliary vector and
  its end mark, all inside the 16 KiB below the heap, whose first 64 bytes still hold the guard
  pattern; the break stands at the start of an empty heap.\<close>

theorem start_spec:
  assumes "pf_ok pf" "devices_ok (pf_env pf) e c freq" "boot_area_ok abi img m (mmap_initial m)"
  defines "ed \<equiv> load_env_data m (img_env_data img)"
  assumes "ed_timer_freq ed = freq"
  shows "\<exists>guard sp st ok. start_runtime pf abi hvc img (runtime_image m t) =
      Done (guard, e_entry abi m (ed_app_ipa ed) + ed_app_ipa ed, sp, st) \<and> rt_ok st \<and>
    words_at (rt_mem st) sp (start_words abi img ok m (ed_app_ipa ed)) \<and> unat sp mod 16 = 0 \<and>
    sp = ed_app_heap_ipa ed + of_nat (0x4000 - 8 * length (start_words abi img ok m (ed_app_ipa ed))) \<and>
    guard_intact (rt_mem st) (ed_app_heap_ipa ed) \<and>
    cur_brk (rt_mm st) = brk_base (rt_mm st) \<and>
    brk_top (rt_mm st) = ed_app_heap_ipa ed + ed_app_heap_size ed \<and> mapped_pages (rt_mm st) = {}"
proof -
  from assms(5) have "ed_timer_freq (load_env_data m (img_env_data img)) = freq" by (simp add: ed_def)
  from start_runtime_done [OF assms(1-3) this, of hvc t] show ?thesis unfolding ed_def by (elim exE conjE) (intro exI conjI)
qed

text \<open>A virtual machine with 80 KiB at \<open>0xfc000\<close> and its environment data at \<open>0x1000\<close>.\<close>

definition example_env :: environment where
  "example_env =
     plain_gic\<lparr>load_value := (\<lambda>t r. if r = CNTFRQ_EL0 then 19200000 else load_value plain_gic t r)\<rparr>"

definition example_platform :: platform where
  "example_platform = quiet_platform\<lparr>pf_env := example_env\<rparr>"

definition example_abi :: elf_abi where
  "example_abi =
     \<lparr>e_phoff = \<lambda>m a. 0x40, e_phnum = \<lambda>m a. 3, e_entry = \<lambda>m a. 0x1000, sizeof_phdr = 56,
      AT_PAGESZ = 6, AT_PHDR = 3, AT_PHENT = 4, AT_PHNUM = 5, AT_EXECFN = 31, AT_RANDOM = 25\<rparr>"

definition example_image :: image where
  "example_image =
     \<lparr>img_env_data = 0x1000, img_exec_name = 0x8000, img_app_name = 0x8010, img_aux_entropy = 0x8020,
      img_log_buf = 0x8100\<rparr>"

definition example_memory :: memory where
  "example_memory =
     store64 (store64 (store64 (store64 (\<lambda>_. 0) 0x1010 0x80000) 0x1018 0xfc000) 0x1020 0x14000) 0x1030 19200000"

definition example_hypervisor :: hypervisor where
  "example_hypervisor t n r = (\<lambda>i. if i = 0 then 0 else 0x1234)"

lemma example_env_data:
  "ed_app_ipa (load_env_data example_memory 0x1000) = 0x80000"
  "ed_app_heap_ipa (load_env_data example_memory 0x1000) = 0xfc000"
  "ed_app_heap_size (load_env_data example_memory 0x1000) = 0x14000"
  "ed_timer_freq (load_env_data example_memory 0x1000) = 19200000"
  by (simp_all add: load_env_data_def example_memory_def load64_store64 load64_store64_other)

lemma example_ok:
  "pf_ok example_platform" "devices_ok (pf_env example_platform) (\<lambda>_. False) (\<lambda>_. False) 19200000"
  "boot_area_ok example_abi example_image example_memory (mmap_initial example_memory)"
proof -
  show "pf_ok example_platform"
    using quiet_platform_ok
    by (simp add: pf_ok_def example_platform_def ticks_small_def example_env_def plain_gic_def)
  have "rwp_clears example_env" using plain_gic_rwp by (simp add: rwp_clears_def example_env_def)
  moreover have "gic_reads example_env (\<lambda>_. False) (\<lambda>_. False)"
    using plain_gic_reads by (simp add: gic_reads_def example_env_def)
  ultimately show "devices_ok (pf_env example_platform) (\<lambda>_. False) (\<lambda>_. False) 19200000"
    by (simp add: devices_ok_def example_platform_def) (simp add: example_env_def)
  have "header_outside example_abi example_memory 0x80000 0xfc000 0x14000"
    by (simp add: header_outside_def example_abi_def)
  moreover have "off_stack 0x8020 0xfc000" by (simp add: off_stack_def)
  ultimately show "boot_area_ok example_abi example_image example_memory (mmap_initial example_memory)"
    using brk_heap_new [of example_memory]
    by (simp add: boot_area_ok_def Let_def example_env_data example_image_def aligned_meta_examples)
      (simp add: mmap_initial_def)
qed

theorem start_spec_witness:
  "\<exists>guard sp st. start_runtime example_platform example_abi example_hypervisor example_image
       (runtime_image example_memory []) = Done (guard, 0x81000, sp, st) \<and>
     load64 (rt_mem st) sp = 4 \<and> load64 (rt_mem st) (sp + 8) = 0x8000 \<and> brk_top (rt_mm st) = 0x110000"
proof -
  have "ed_timer_freq (load_env_data example_memory (img_env_data example_image)) = 19200000"
    by (simp add: example_image_def example_env_data)
  from start_spec [OF example_ok this, of example_hypervisor "[]"] obtain guard sp st ok where
    s: "start_runtime example_platform example_abi example_hypervisor example_image
       (runtime_image example_memory []) = Done (guard, 0x81000, sp, st)"
    "words_at (rt_mem st) sp (start_words example_abi example_image ok example_memory 0x80000)"
    "brk_top (rt_mm st) = 0x110000"
    by (auto simp: example_image_def example_env_data example_abi_def)
  have "load64 (rt_mem st) (sp + of_nat (8 * i)) = start_words example_abi example_image ok example_memory 0x80000 ! i"
    if "i < 20" for i using s(2) that by (simp add: words_at_def length_start_words)
  from this [of 0] this [of 1] have "load64 (rt_mem st) sp = 4" "load64 (rt_mem st) (sp + 8) = 0x8000"
    by (simp_all add: start_words_def example_image_def)
  with s(1,3) show ?thesis by blast
qed

section \<open>Reachable states\<close>

text \<open>
  After the start: system calls that return, interrupts that the vectors hand to
  \<open>interrupt_dispatch\<close>, and whatever the application stores in memory.
\<close>

inductive rt_reachable :: "platform \<Rightarrow> runtime \<Rightarrow> bool" for pf where
  reach_start: "devices_ok (pf_env pf) e c (ed_timer_freq (load_env_data m (img_env_data img))) \<Longrightarrow>
    boot_area_ok abi img m (mmap_initial m) \<Longrightarrow>
    start_runtime pf abi hvc img (runtime_image m t) = Done (guard, app_entry, app_stack, st) \<Longrightarrow>
    rt_reachable pf st"
| reach_call: "rt_reachable pf st \<Longrightarrow> call_ok pf arg0 arg1 arg2 sys_num st \<Longrightarrow>
    aarch64_do_syscall pf arg0 arg1 arg2 arg3 arg4 arg5 sys_num st = Done (Returned ret st') \<Longrightarrow>
    rt_reachable pf st'"
| reach_irq: "rt_reachable pf st \<Longrightarrow> interrupt_dispatch (pf_env pf) (rt_irq st) = Done irq \<Longrightarrow>
    rt_reachable pf (st\<lparr>rt_irq := irq\<rparr>)"
| reach_app: "rt_reachable pf st \<Longrightarrow> rt_reachable pf (st\<lparr>rt_mm := (rt_mm st)\<lparr>mm_mem := m\<rparr>\<rparr>)"

lemma rt_reachable_ok:
  assumes "pf_ok pf" "rt_reachable pf st"
  shows "rt_ok st"
  using assms(2)
proof (induction rule: rt_reachable.induct)
  case (reach_start e c m img abi hvc t guard app_entry app_stack st)
  from start_runtime_done [OF assms(1) reach_start(1,2) refl, of hvc t] reach_start(3) show ?case by auto
next
  case (reach_call st arg0 arg1 arg2 sys_num arg3 arg4 arg5 ret st')
  from syscall_result [OF assms(1) reach_call(4,2), of arg3 arg4 arg5] reach_call(3) show ?case
    by (simp add: call_result_def)
qed (simp_all add: rt_ok_def)



end
