(* ===== verification/NodeList.thy ===== *)
theory NodeList
  imports CMachine
begin

text \<open>
  The lists of \<^verbatim>\<open>include/list.h\<close>: nodes linked through pointers in memory, where the first node's
  \<open>prev\<close> is the last node. They refine the lists that the model of the page allocator uses for
  \<open>mmap_node_list\<close>.
\<close>

section \<open>The macros\<close>

text \<open>The pointers of all nodes and the head; 0 is the null pointer.\<close>

record node_links =
  nl_next :: "uintptr_t \<Rightarrow> uintptr_t"
  nl_prev :: "uintptr_t \<Rightarrow> uintptr_t"
  nl_head :: uintptr_t

definition set_next :: "uintptr_t \<Rightarrow> uintptr_t \<Rightarrow> node_links \<Rightarrow> node_links" where
  "set_next node p st = st\<lparr>nl_next := (nl_next st)(node := p)\<rparr>"

definition set_prev :: "uintptr_t \<Rightarrow> uintptr_t \<Rightarrow> node_links \<Rightarrow> node_links" where
  "set_prev node p st = st\<lparr>nl_prev := (nl_prev st)(node := p)\<rparr>"

definition list_append :: "uintptr_t \<Rightarrow> node_links \<Rightarrow> node_links" where
  "list_append node st =
     (if nl_head st = 0 then (set_prev node node (set_next node 0 st))\<lparr>nl_head := node\<rparr>
      else
        let tail_p = nl_prev st (nl_head st);
            st = set_next node 0 st;
            st = set_prev node tail_p st;
            st = set_next tail_p node st
        in set_prev (nl_head st) node st)"

definition list_remove :: "uintptr_t \<Rightarrow> node_links \<Rightarrow> node_links outcome" where
  "list_remove node st =
     (let n_next = nl_next st node;
          n_prev = nl_prev st node in
      ensure (nl_head st \<noteq> 0)
        (ensure (n_prev \<noteq> 0)
          (let st = (if n_next \<noteq> 0 then set_prev n_next n_prev st else st) in
           Done
             (if nl_head st = node then st\<lparr>nl_head := if n_prev = node then 0 else n_next\<rparr>
              else
                let st = set_next n_prev n_next st in
                if nl_prev st (nl_head st) = node then set_prev (nl_head st) n_prev st else st))))"

text \<open>The nodes that \<open>loop_list\<close> visits; \<open>None\<close> if it never ends.\<close>

partial_function (option) loop_list :: "node_links \<Rightarrow> uintptr_t \<Rightarrow> uintptr_t list option" where
  "loop_list st node =
     (if node = 0 then Some []
      else Option.bind (loop_list st (nl_next st node)) (\<lambda>ns. Some (node # ns)))"

section \<open>Segments\<close>

text \<open>The nodes of a part of a list, between the node before it and the one after it.\<close>

fun seg :: "node_links \<Rightarrow> uintptr_t \<Rightarrow> uintptr_t list \<Rightarrow> uintptr_t \<Rightarrow> bool" where
  "seg st before [] after \<longleftrightarrow> True"
| "seg st before [x] after \<longleftrightarrow> nl_prev st x = before \<and> nl_next st x = after"
| "seg st before (x # y # xs) after \<longleftrightarrow> nl_prev st x = before \<and> nl_next st x = y \<and> seg st x (y # xs) after"

definition is_list :: "node_links \<Rightarrow> uintptr_t list \<Rightarrow> bool" where
  "is_list st ns \<longleftrightarrow>
     distinct ns \<and> 0 \<notin> set ns \<and> nl_head st = (if ns = [] then 0 else hd ns) \<and>
     (ns \<noteq> [] \<longrightarrow> seg st (last ns) ns 0)"

lemma set_links [simp]:
  "nl_next (set_next a p st) = (nl_next st)(a := p)" "nl_prev (set_next a p st) = nl_prev st"
  "nl_prev (set_prev a p st) = (nl_prev st)(a := p)" "nl_next (set_prev a p st) = nl_next st"
  "nl_head (set_next a p st) = nl_head st" "nl_head (set_prev a p st) = nl_head st"
  by (simp_all add: set_next_def set_prev_def)

lemma seg_cong:
  "(\<And>x. x \<in> set xs \<Longrightarrow> nl_next st' x = nl_next st x \<and> nl_prev st' x = nl_prev st x) \<Longrightarrow>
     seg st' before xs after \<longleftrightarrow> seg st before xs after"
  by (induction st before xs after rule: seg.induct) auto

lemma seg_append:
  "xs \<noteq> [] \<Longrightarrow> ys \<noteq> [] \<Longrightarrow>
     seg st before (xs @ ys) after \<longleftrightarrow> seg st before xs (hd ys) \<and> seg st (last xs) ys after"
proof (induction st before xs after rule: seg.induct)
  case (2 st before x after)
  then show ?case by (cases ys) auto
qed auto

lemma seg_first: "xs \<noteq> [] \<Longrightarrow> seg st before xs after \<Longrightarrow> nl_prev st (hd xs) = before"
  by (cases "(st, before, xs, after)" rule: seg.cases) auto

lemma seg_last: "xs \<noteq> [] \<Longrightarrow> seg st before xs after \<Longrightarrow> nl_next st (last xs) = after"
  by (induction st before xs after rule: seg.induct) auto

text \<open>New neighbours.\<close>

lemma seg_set_prev:
  assumes "distinct xs" "xs \<noteq> []" "seg st before xs after"
  shows "seg (set_prev (hd xs) p st) p xs after"
proof -
  obtain x ys where xs: "xs = x # ys" using assms(2) by (cases xs) auto
  show ?thesis
  proof (cases ys)
    case Nil
    then show ?thesis using assms xs by simp
  next
    case (Cons y zs)
    have "seg (set_prev x p st) x (y # zs) after \<longleftrightarrow> seg st x (y # zs) after"
      by (rule seg_cong) (use assms(1) xs Cons in auto)
    then show ?thesis using assms(3) xs Cons by simp
  qed
qed

lemma seg_set_next:
  "distinct xs \<Longrightarrow> xs \<noteq> [] \<Longrightarrow> seg st before xs after \<Longrightarrow> seg (set_next (last xs) p st) before xs p"
proof (induction st before xs after rule: seg.induct)
  case (3 st before x y xs after)
  then show ?case by auto
qed simp_all

section \<open>The operations\<close>

lemma ends_not_null:
  fixes xs :: "uintptr_t list"
  shows "0 \<notin> set xs \<Longrightarrow> xs \<noteq> [] \<Longrightarrow> hd xs \<noteq> 0 \<and> last xs \<noteq> 0"
  by (metis hd_in_set last_in_set)

lemma is_list_Nil: "nl_head st = 0 \<Longrightarrow> is_list st []"
  by (simp add: is_list_def)

lemma append_is_list:
  assumes "is_list st ns" "node \<noteq> 0" "node \<notin> set ns"
  shows "is_list (list_append node st) (ns @ [node])"
proof (cases "ns = []")
  case True
  then show ?thesis using assms by (simp add: is_list_def list_append_def)
next
  case False
  let ?tail = "last ns"
  have l: "distinct ns" "0 \<notin> set ns" "nl_head st = hd ns" "seg st ?tail ns 0" "hd ns \<noteq> 0"
    using assms(1) False ends_not_null [of ns] by (auto simp: is_list_def)
  have tail: "nl_prev st (hd ns) = ?tail" by (rule seg_first [OF False l(4)])
  have hd: "hd ns \<noteq> node" "?tail \<noteq> node" using False assms(3) by auto
  let ?st1 = "set_prev node ?tail (set_next node 0 st)"
  have st': "list_append node st = set_prev (hd ns) node (set_next ?tail node ?st1)"
    using l(3,5) tail hd by (simp add: list_append_def Let_def)
  have "seg ?st1 ?tail ns 0 \<longleftrightarrow> seg st ?tail ns 0" by (rule seg_cong) (use assms(3) in auto)
  then have "seg (set_next ?tail node ?st1) ?tail ns node" using seg_set_next [OF l(1) False] l(4) by blast
  then have "seg (list_append node st) node ns node" unfolding st' by (rule seg_set_prev [OF l(1) False])
  moreover have "nl_prev (list_append node st) node = ?tail" "nl_next (list_append node st) node = 0"
    unfolding st' using hd by (simp_all add: set_next_def set_prev_def)
  ultimately have "seg (list_append node st) node (ns @ [node]) 0" using False by (simp add: seg_append)
  moreover have "nl_head (list_append node st) = hd ns" unfolding st' by (simp add: l(3))
  ultimately show ?thesis using l assms False by (simp add: is_list_def)
qed

text \<open>The node's neighbours, from the pointers.\<close>

lemma removed_node:
  assumes "is_list st (xs @ node # ys)"
  shows "nl_prev st node = (if xs = [] then last (xs @ node # ys) else last xs)"
    "nl_next st node = (if ys = [] then 0 else hd ys)" "nl_prev st node \<noteq> 0" "nl_head st \<noteq> 0"
    "seg st (last (xs @ node # ys)) xs node" "seg st node ys 0"
proof -
  let ?ns = "xs @ node # ys"
  have l: "0 \<notin> set ?ns" "nl_head st = hd ?ns" "seg st (last ?ns) ?ns 0"
    using assms by (auto simp: is_list_def)
  have s: "seg st (last ?ns) xs node" "seg st (if xs = [] then last ?ns else last xs) (node # ys) 0"
    using l(3) by (cases "xs = []"; simp add: seg_append; cases xs; simp)+
  show prev: "nl_prev st node = (if xs = [] then last ?ns else last xs)"
    using seg_first [OF _ s(2)] by simp
  show "seg st node ys 0" "nl_next st node = (if ys = [] then 0 else hd ys)"
    using s(2) by (cases ys; simp)+
  show "nl_prev st node \<noteq> 0" "nl_head st \<noteq> 0"
    using l(1,2) prev ends_not_null [of ?ns] ends_not_null [of xs] by (cases "xs = []"; force)+
  show "seg st (last ?ns) xs node" by (rule s(1))
qed

lemma remove_first:
  assumes "is_list st (node # ys)"
  shows "\<exists>st'. list_remove node st = Done st' \<and> is_list st' ys"
proof -
  have l: "distinct ys" "node \<notin> set ys" "0 \<notin> set (node # ys)" "nl_head st = node"
    using assms by (auto simp: is_list_def)
  note r = removed_node [of st "[]" node ys, unfolded append_Nil, OF assms]
  show ?thesis
  proof (cases "ys = []")
    case True
    then have "list_remove node st = Done (st\<lparr>nl_head := 0\<rparr>)"
      using r l(4) by (simp add: list_remove_def Let_def)
    then show ?thesis using True by (simp add: is_list_Nil)
  next
    case ys: False
    let ?st' = "(set_prev (hd ys) (last ys) st)\<lparr>nl_head := hd ys\<rparr>"
    have "last ys \<noteq> node" "hd ys \<noteq> 0" using ys l(2,3) ends_not_null [of ys] by auto
    then have "list_remove node st = Done ?st'" using ys r l(4) by (simp add: list_remove_def Let_def)
    moreover have "seg (set_prev (hd ys) (last ys) st) (last ys) ys 0"
      by (rule seg_set_prev [OF l(1) ys]) (use r in blast)
    then have "seg ?st' (last ys) ys 0" by (subst seg_cong [of ys _ "set_prev (hd ys) (last ys) st"]) simp_all
    ultimately show ?thesis using ys l by (simp add: is_list_def)
  qed
qed

lemma remove_later:
  assumes "is_list st (xs @ node # ys)" "xs \<noteq> []"
  shows "\<exists>st'. list_remove node st = Done st' \<and> is_list st' (xs @ ys)"
proof -
  let ?ns = "xs @ node # ys"
  have l: "distinct ?ns" "0 \<notin> set ?ns" "nl_head st = hd ?ns" using assms(1) by (auto simp: is_list_def)
  have d: "distinct xs" "distinct ys" "node \<notin> set xs" "node \<notin> set ys" "set xs \<inter> set ys = {}" using l(1) by auto
  note r = removed_node [OF assms(1)] and xs = assms(2)
  have head: "nl_head st = hd xs" "hd xs \<noteq> node" "last xs \<noteq> node" using xs l(3) d(3) by auto
  have hprev: "nl_prev st (hd xs) = last ?ns" by (rule seg_first [OF xs r(5)])
  show ?thesis
  proof (cases "ys = []")
    case ys: True
    let ?st' = "set_prev (hd xs) (last xs) (set_next (last xs) 0 st)"
    have "list_remove node st = Done ?st'"
      using xs ys r(1-4) head hprev by (simp add: list_remove_def Let_def)
    moreover have "seg ?st' (last xs) xs 0"
      by (rule seg_set_prev [OF d(1) xs seg_set_next [OF d(1) xs r(5)]])
    ultimately show ?thesis using xs ys d l(2) head by (simp add: is_list_def)
  next
    case ys: False
    let ?st' = "set_next (last xs) (hd ys) (set_prev (hd ys) (last xs) st)"
    have "hd ys \<noteq> hd xs" using hd_in_set [OF xs] hd_in_set [OF ys] d(5) by (metis disjoint_iff)
    then have ne: "hd ys \<noteq> 0" "hd ys \<noteq> hd xs" "last ys \<noteq> node" using ys l(2) d(4) ends_not_null [of ys] by auto
    then have "list_remove node st = Done ?st'"
      using xs ys r(1-4) head hprev by (auto simp: list_remove_def Let_def)
    moreover have "seg (set_prev (hd ys) (last xs) st) (last xs) ys 0" by (rule seg_set_prev [OF d(2) ys r(6)])
    then have "seg ?st' (last xs) ys 0"
      by (subst seg_cong [of ys _ "set_prev (hd ys) (last xs) st"]) (use last_in_set [OF xs] d(5) in auto)
    moreover have "seg (set_prev (hd ys) (last xs) st) (last ?ns) xs node"
      by (subst seg_cong [of xs _ st]) (use hd_in_set [OF ys] d(5) r(5) in auto)
    then have "seg ?st' (last ?ns) xs (hd ys)" by (rule seg_set_next [OF d(1) xs])
    ultimately show ?thesis using xs ys d l(2) head by (simp add: is_list_def seg_append)
  qed
qed

lemma remove_is_list:
  "is_list st (xs @ node # ys) \<Longrightarrow> \<exists>st'. list_remove node st = Done st' \<and> is_list st' (xs @ ys)"
  using remove_first [of st node ys] remove_later [of st xs node ys] by (cases "xs = []") simp_all

lemma loop_list_seg:
  "seg st before ns 0 \<Longrightarrow> 0 \<notin> set ns \<Longrightarrow> ns \<noteq> [] \<Longrightarrow> loop_list st (hd ns) = Some ns"
proof (induction st before ns "0 :: uintptr_t" rule: seg.induct)
  case (2 st before x)
  then show ?case by (subst loop_list.simps) (simp add: loop_list.simps [of st 0])
next
  case (3 st before x y xs)
  then show ?case by (subst loop_list.simps) simp
qed simp

lemma loop_list_visits: "is_list st ns \<Longrightarrow> loop_list st (nl_head st) = Some ns"
  using loop_list_seg [of st "last ns" ns] by (cases "ns = []") (auto simp: is_list_def loop_list.simps)

section \<open>Properties\<close>

text \<open>The operations on lists as calls, and what they mean.\<close>

datatype list_op = Append uintptr_t | Remove uintptr_t

fun list_call :: "list_op \<Rightarrow> node_links \<Rightarrow> node_links outcome" where
  "list_call (Append node) st = Done (list_append node st)"
| "list_call (Remove node) st = list_remove node st"

fun list_calls :: "list_op list \<Rightarrow> node_links \<Rightarrow> node_links outcome" where
  "list_calls [] st = Done st"
| "list_calls (c # cs) st = bindc (list_call c st) (list_calls cs)"

fun abstract_call :: "list_op \<Rightarrow> uintptr_t list \<Rightarrow> uintptr_t list" where
  "abstract_call (Append node) ns = ns @ [node]"
| "abstract_call (Remove node) ns = remove1 node ns"

fun calls_allowed :: "list_op list \<Rightarrow> uintptr_t list \<Rightarrow> bool" where
  "calls_allowed [] ns \<longleftrightarrow> True"
| "calls_allowed (Append node # cs) ns \<longleftrightarrow> node \<noteq> 0 \<and> node \<notin> set ns \<and> calls_allowed cs (ns @ [node])"
| "calls_allowed (Remove node # cs) ns \<longleftrightarrow> node \<in> set ns \<and> calls_allowed cs (remove1 node ns)"

lemma list_calls_simulate:
  "is_list st ns \<Longrightarrow> calls_allowed cs ns \<Longrightarrow>
     \<exists>st'. list_calls cs st = Done st' \<and> is_list st' (fold abstract_call cs ns)"
proof (induction cs arbitrary: st ns)
  case (Cons c cs)
  show ?case
  proof (cases c)
    case (Append node)
    with Cons append_is_list [OF Cons(2), of node] show ?thesis by simp
  next
    case (Remove node)
    then have "node \<in> set ns" using Cons(3) by simp
    then obtain xs ys where ns: "ns = xs @ node # ys" "node \<notin> set xs" by (metis split_list_first)
    then have r: "remove1 node ns = xs @ ys" by (simp add: remove1_append)
    obtain st1 where "list_remove node st = Done st1" "is_list st1 (xs @ ys)"
      using remove_is_list [of st xs node ys] Cons(2) ns(1) by blast
    with Cons(1) [of st1 "xs @ ys"] Cons(3) Remove r show ?thesis by simp
  qed
qed simp

text \<open>C29: the list macros of the runtime implement sequences: starting from an empty list, any
  appends of new nodes and removals of present ones, at the head, in the middle or at the tail,
  never stop in an assertion, and \<open>loop_list\<close> then ends after it has visited exactly the
  nodes that are left, in the order in which they were appended.\<close>

theorem list_macros_refine:
  assumes "nl_head st = 0" "calls_allowed cs []"
  shows "\<exists>st'. list_calls cs st = Done st' \<and> loop_list st' (nl_head st') = Some (fold abstract_call cs [])"
  using list_calls_simulate [OF is_list_Nil [OF assms(1)] assms(2)] loop_list_visits by blast

theorem list_macros_refine_witness:
  "\<exists>st'. list_calls [Append 0x10, Append 0x20, Append 0x30, Remove 0x20, Remove 0x10, Append 0x20]
       \<lparr>nl_next = \<lambda>_. 7, nl_prev = \<lambda>_. 7, nl_head = 0\<rparr> = Done st' \<and>
     loop_list st' (nl_head st') = Some [0x30, 0x20]"
  using list_macros_refine [of "\<lparr>nl_next = \<lambda>_. 7, nl_prev = \<lambda>_. 7, nl_head = 0\<rparr>"
      "[Append 0x10, Append 0x20, Append 0x30, Remove 0x20, Remove 0x10, Append 0x20]"] by simp

end
