(* ===== verification/Reloc.thy ===== *)
theory Reloc
  imports Boot
begin

unbundle bit_operations_syntax

text \<open>
  The relocation of the runtime by itself: \<^verbatim>\<open>src/reloc.c\<close> with \<^verbatim>\<open>include/reloc.h\<close> and
  \<^verbatim>\<open>arch_reloc.h\<close>. It is the first function that the entry point calls.
\<close>

section \<open>reloc.c\<close>

text \<open>What comes from \<^verbatim>\<open>elf.h\<close>: the fields of the three structures, their sizes and the tags.\<close>

record elf_reloc_abi =
  d_tag :: "memory \<Rightarrow> uintptr_t \<Rightarrow> u64"
  d_ptr :: "memory \<Rightarrow> uintptr_t \<Rightarrow> u64"
  sizeof_dyn :: u64
  DT_NULL :: u64
  DT_REL :: u64
  DT_RELSZ :: u64
  DT_RELA :: u64
  DT_RELASZ :: u64
  r_offset :: "memory \<Rightarrow> uintptr_t \<Rightarrow> u64"
  r_info :: "memory \<Rightarrow> uintptr_t \<Rightarrow> u64"
  r_addend :: "memory \<Rightarrow> uintptr_t \<Rightarrow> u64"
  sizeof_rel :: u64
  sizeof_rela :: u64

abbreviation (input) "R_AARCH64_NONE \<equiv> (0 :: u64)"
abbreviation (input) "R_AARCH64_RELATIVE \<equiv> (1027 :: u64)"
abbreviation (input) "DT_CNT \<equiv> (19 :: nat)"

definition R_TYPE :: "u64 \<Rightarrow> u64" where
  "R_TYPE info = info AND 0x7fffffff"

definition R_SYM :: "u64 \<Rightarrow> u64" where
  "R_SYM info = drop_bit 32 info"

definition ARCH_CAN_PATCH :: "u64 \<Rightarrow> bool" where
  "ARCH_CAN_PATCH info \<longleftrightarrow>
     (R_TYPE info = R_AARCH64_NONE \<or> R_TYPE info = R_AARCH64_RELATIVE) \<and> R_SYM info = 0"

text \<open>
  The three loops. Each runs until it meets its end, for ever if there is none. The tag is a signed
  number, and only its upper bound is checked before it is used as an index.
\<close>

partial_function (option) dyn_loop ::
  "elf_reloc_abi \<Rightarrow> memory \<Rightarrow> uintptr_t \<Rightarrow> u64 list \<Rightarrow> u64 list outcome option" where
  "dyn_loop ab m dyni dyn =
     (if d_tag ab m dyni = DT_NULL ab then Some (Done dyn)
      else if sint (d_tag ab m dyni) < int DT_CNT
      then if 0 \<le> sint (d_tag ab m dyni)
           then dyn_loop ab m (dyni + sizeof_dyn ab) (dyn[unat (d_tag ab m dyni) := d_ptr ab m dyni])
           else Some (Fault BadAccess)
      else dyn_loop ab m (dyni + sizeof_dyn ab) dyn)"

partial_function (option) rel_loop ::
  "elf_reloc_abi \<Rightarrow> u64 \<Rightarrow> uintptr_t \<Rightarrow> uintptr_t \<Rightarrow> memory \<Rightarrow> memory option" where
  "rel_loop ab base rel rel_end m =
     (if rel < rel_end then
        if \<not> ARCH_CAN_PATCH (r_info ab m rel) then rel_loop ab base (rel + sizeof_rel ab) rel_end m
        else let r = r_offset ab m rel + base
             in rel_loop ab base (rel + sizeof_rel ab) rel_end (store64 m r (load64 m r + base))
      else Some m)"

partial_function (option) rela_loop ::
  "elf_reloc_abi \<Rightarrow> u64 \<Rightarrow> uintptr_t \<Rightarrow> uintptr_t \<Rightarrow> memory \<Rightarrow> memory option" where
  "rela_loop ab base rela rela_end m =
     (if rela < rela_end then
        if \<not> ARCH_CAN_PATCH (r_info ab m rela) then rela_loop ab base (rela + sizeof_rela ab) rela_end m
        else let r = r_offset ab m rela + base
             in rela_loop ab base (rela + sizeof_rela ab) rela_end (store64 m r (base + r_addend ab m rela))
      else Some m)"

definition returns :: "'a option \<Rightarrow> 'a outcome" where
  "returns r = (case r of None \<Rightarrow> Fault OutOfFuel | Some x \<Rightarrow> Done x)"

definition rel_fixup :: "elf_reloc_abi \<Rightarrow> uintptr_t \<Rightarrow> uintptr_t \<Rightarrow> memory \<Rightarrow> memory outcome" where
  "rel_fixup ab dyni env_data m =
     (let base = ed_runtime_ipa (load_env_data m env_data) in
      bindc (bindc (returns (dyn_loop ab m dyni (replicate DT_CNT 0))) id) (\<lambda>dyn.
      let rel = dyn ! unat (DT_REL ab) + base;
          rel_end = dyn ! unat (DT_REL ab) + base + dyn ! unat (DT_RELSZ ab)
      in bindc (returns (rel_loop ab base rel rel_end m)) (\<lambda>m.
      let rela = dyn ! unat (DT_RELA ab) + base;
          rela_end = dyn ! unat (DT_RELA ab) + base + dyn ! unat (DT_RELASZ ab)
      in returns (rela_loop ab base rela rela_end m))))"

end
