(* ===== verification/RelocSpec.thy ===== *)
theory RelocSpec
  imports Reloc BootSpec
begin

unbundle bit_operations_syntax

text \<open>
  What \<open>rel_fixup\<close> does to an image whose tables are as the linker writes them: the three loops end,
  and their stores are those that the entries name.
\<close>

section \<open>The tables of an image\<close>

text \<open>The layout that the ELF-64 specification gives to the structures of \<^verbatim>\<open>elf.h\<close>.\<close>

definition elf64_layout :: "elf_reloc_abi \<Rightarrow> bool" where
  "elf64_layout ab \<longleftrightarrow>
     d_tag ab = load64 \<and> d_ptr ab = (\<lambda>m a. load64 m (a + 8)) \<and> sizeof_dyn ab = 16 \<and>
     DT_NULL ab = 0 \<and> DT_RELA ab = 7 \<and> DT_RELASZ ab = 8 \<and> DT_REL ab = 17 \<and> DT_RELSZ ab = 18 \<and>
     r_offset ab = load64 \<and> r_info ab = (\<lambda>m a. load64 m (a + 8)) \<and>
     r_addend ab = (\<lambda>m a. load64 m (a + 16)) \<and> sizeof_rel ab = 16 \<and> sizeof_rela ab = 24"

text \<open>A dynamic section, with its tags and values, and the value a tag has last.\<close>

fun dyn_table :: "memory \<Rightarrow> uintptr_t \<Rightarrow> (u64 \<times> u64) list \<Rightarrow> bool" where
  "dyn_table m a [] \<longleftrightarrow> load64 m a = 0"
| "dyn_table m a ((t, v) # es) \<longleftrightarrow>
     load64 m a = t \<and> t \<noteq> 0 \<and> load64 m (a + 8) = v \<and> dyn_table m (a + 16) es"

definition dyn_value :: "(u64 \<times> u64) list \<Rightarrow> u64 \<Rightarrow> u64" where
  "dyn_value es t = (case map_of (rev es) t of None \<Rightarrow> 0 | Some v \<Rightarrow> v)"

text \<open>A table of relocations is a list of the words of its entries.\<close>

definition rel_words :: "(u64 \<times> u64) list \<Rightarrow> u64 list" where
  "rel_words rs = concat (map (\<lambda>(offset, info). [offset, info]) rs)"

definition rela_words :: "(u64 \<times> u64 \<times> u64) list \<Rightarrow> u64 list" where
  "rela_words rs = concat (map (\<lambda>(offset, info, addend). [offset, info, addend]) rs)"

text \<open>The places the entries change, and for the second kind what is written there.\<close>

definition rel_places :: "u64 \<Rightarrow> (u64 \<times> u64) list \<Rightarrow> uintptr_t list" where
  "rel_places base rs = [offset + base. (offset, info) \<leftarrow> rs, ARCH_CAN_PATCH info]"

definition rela_patches :: "u64 \<Rightarrow> (u64 \<times> u64 \<times> u64) list \<Rightarrow> (uintptr_t \<times> u64) list" where
  "rela_patches base rs = [(offset + base, base + addend). (offset, info, addend) \<leftarrow> rs, ARCH_CAN_PATCH info]"

text \<open>Two words of eight bytes that do not overlap.\<close>

definition apart :: "uintptr_t \<Rightarrow> uintptr_t \<Rightarrow> bool" where
  "apart a b \<longleftrightarrow> 8 \<le> b - a \<and> b - a \<le> - 8"

definition apart_from_words :: "uintptr_t \<Rightarrow> uintptr_t \<Rightarrow> 'b list \<Rightarrow> bool" where
  "apart_from_words p a ws \<longleftrightarrow> (\<forall>i < length ws. apart p (a + of_nat (8 * i)))"

lemma words_at_store_apart:
  "apart_from_words p a ws \<Longrightarrow> words_at (store64 m p v) a ws \<longleftrightarrow> words_at m a ws"
  by (auto simp: words_at_def apart_from_words_def apart_def load64_store64_other)

lemma words_at_Cons: "words_at m a (w # ws) \<longleftrightarrow> load64 m a = w \<and> words_at m (a + 8) ws"
  unfolding words_at_def by (simp add: All_less_Suc2 algebra_simps del: of_nat_mult)

lemma apart_from_words_Cons: "apart_from_words p a (w # ws) \<longleftrightarrow> apart p a \<and> apart_from_words p (a + 8) ws"
  unfolding apart_from_words_def by (simp add: All_less_Suc2 algebra_simps del: of_nat_mult)

section \<open>The loops\<close>

definition dyn_slots :: "(u64 \<times> u64) list \<Rightarrow> u64 list \<Rightarrow> u64 list" where
  "dyn_slots es dyn = fold (\<lambda>(t, v) d. if sint t < 19 then d[unat t := v] else d) es dyn"

lemma dyn_loop_table:
  assumes "elf64_layout ab" "dyn_table m a es" "\<And>t v. (t, v) \<in> set es \<Longrightarrow> 0 \<le> sint t"
  shows "dyn_loop ab m a dyn = Some (Done (dyn_slots es dyn))"
  using assms(2,3)
proof (induction es arbitrary: a dyn)
  case Nil
  then show ?case using assms(1) by (subst dyn_loop.simps) (simp add: elf64_layout_def dyn_slots_def)
next
  case (Cons e es)
  obtain t v where e: "e = (t, v)" by (cases e)
  have "0 \<le> sint t" using Cons.prems(2) [of t v] e by simp
  moreover have "dyn_loop ab m (a + 16) dyn = Some (Done (dyn_slots es dyn))" for dyn
    using Cons by (auto simp: e)
  ultimately show ?case using assms(1) Cons.prems(1) unfolding e
    by (subst dyn_loop.simps) (simp add: elf64_layout_def dyn_slots_def)
qed

lemma length_dyn_slots: "length (dyn_slots es dyn) = length dyn"
  by (induction es arbitrary: dyn) (auto simp: dyn_slots_def)

lemma dyn_slots_nth:
  assumes "k < 19"
  shows "dyn_slots es (replicate DT_CNT 0) ! unat k = dyn_value es k"
proof (induction es rule: rev_induct)
  case Nil
  show ?case using assms by (simp add: dyn_slots_def dyn_value_def word_less_nat_alt)
next
  case (snoc e es)
  obtain t v where e: "e = (t, v)" by (cases e)
  have k: "unat k < 19" using assms by (simp add: word_less_nat_alt)
  then have "sint k = int (unat k)" by (intro sint_nonneg) simp
  then have sk: "sint k < 19" using k by linarith
  have step: "dyn_slots (es @ [e]) (replicate DT_CNT 0) =
    (if sint t < 19 then (dyn_slots es (replicate DT_CNT 0))[unat t := v] else dyn_slots es (replicate DT_CNT 0))"
    by (simp add: dyn_slots_def e)
  show ?case
  proof (cases "t = k")
    case True
    then show ?thesis using sk k unfolding step by (simp add: e dyn_value_def length_dyn_slots)
  next
    case False
    then have "unat t \<noteq> unat k" by (simp add: word_unat_eq_iff)
    then show ?thesis using snoc False unfolding step by (auto simp: e dyn_value_def)
  qed
qed

text \<open>The stores of the two tables, as a reference.\<close>

definition add_base :: "u64 \<Rightarrow> uintptr_t list \<Rightarrow> memory \<Rightarrow> memory" where
  "add_base base ps m = fold (\<lambda>p m. store64 m p (load64 m p + base)) ps m"

definition put_words :: "(uintptr_t \<times> u64) list \<Rightarrow> memory \<Rightarrow> memory" where
  "put_words ps m = fold (\<lambda>(p, v) m. store64 m p v) ps m"

lemma entry_end:
  fixes a k :: u64
  assumes "unat a + n * Suc l < 2 ^ 64" "unat k = n" "0 < n"
  shows "a < a + k + of_nat (n * l)" "unat (a + k) + n * l < 2 ^ 64"
    "a + of_nat (n * Suc l) = a + k + of_nat (n * l)"
proof -
  have "unat (a + k) = unat a + n" using assms by (simp add: unat_add_fits)
  then show "unat (a + k) + n * l < 2 ^ 64" using assms(1) by simp
  have "unat (of_nat (n * Suc l) :: u64) = n * Suc l" using assms(1) by (intro unat_of_nat_fits) simp
  note size = this
  have "unat (a + of_nat (n * Suc l)) = unat a + unat (of_nat (n * Suc l) :: u64)"
    by (rule unat_add_fits, subst size) (use assms(1) in simp)
  then have "unat (a + of_nat (n * Suc l)) = unat a + n * Suc l" unfolding size .
  then have "a < a + of_nat (n * Suc l)" using assms(3) by (simp add: word_less_nat_alt)
  moreover have "k = of_nat n" using assms(2) by auto
  ultimately show "a < a + k + of_nat (n * l)" "a + of_nat (n * Suc l) = a + k + of_nat (n * l)"
    by (simp_all add: add.assoc)
qed

lemma rel_loop_table:
  assumes "elf64_layout ab" "words_at m a (rel_words rs)"
    "unat a + 16 * length rs < 2 ^ 64"
    "\<And>p. p \<in> set (rel_places base rs) \<Longrightarrow> apart_from_words p a (rel_words rs)"
  shows "rel_loop ab base a (a + of_nat (16 * length rs)) m = Some (add_base base (rel_places base rs) m)"
  using assms(2-)
proof (induction rs arbitrary: a m)
  case Nil
  then show ?case by (subst rel_loop.simps) (simp add: add_base_def rel_places_def)
next
  case (Cons r rs)
  obtain offset info where r: "r = (offset, info)" by (cases r)
  have "unat a + 16 * Suc (length rs) < 2 ^ 64" "unat (16 :: u64) = 16" using Cons.prems(2) by simp_all
  note fits = entry_end [OF this]
  have last: "a + of_nat (16 * length (r # rs)) = a + 16 + of_nat (16 * length rs)" using fits(3) by simp
  have tab: "load64 m a = offset" "load64 m (a + 8) = info" "words_at m (a + 16) (rel_words rs)"
    using Cons.prems(1) by (simp_all add: r rel_words_def words_at_Cons add.assoc)
  have ap: "apart_from_words p (a + 16) (rel_words rs)" if "p \<in> set (rel_places base (r # rs))" for p
    using Cons.prems(3) [OF that] by (simp add: r rel_words_def apart_from_words_Cons add.assoc)
  have sub: "set (rel_places base rs) \<subseteq> set (rel_places base (r # rs))" by (auto simp: rel_places_def)
  show ?case
  proof (cases "ARCH_CAN_PATCH info")
    case False
    have "rel_loop ab base (a + 16) (a + 16 + of_nat (16 * length rs)) m = Some (add_base base (rel_places base rs) m)"
      by (rule Cons.IH) (use tab fits ap sub in auto)
    then show ?thesis using assms(1) fits(1) tab False unfolding last
      by (subst rel_loop.simps) (simp add: elf64_layout_def rel_places_def r)
  next
    case True
    let ?p = "offset + base"
    let ?m = "store64 m ?p (load64 m ?p + base)"
    have "?p \<in> set (rel_places base (r # rs))" using True by (simp add: rel_places_def r)
    then have "words_at ?m (a + 16) (rel_words rs)" using tab(3) words_at_store_apart [OF ap] by simp
    then have "rel_loop ab base (a + 16) (a + 16 + of_nat (16 * length rs)) ?m = Some (add_base base (rel_places base rs) ?m)"
      by (intro Cons.IH) (use fits ap sub in auto)
    then show ?thesis using assms(1) fits(1) tab True unfolding last
      by (subst rel_loop.simps) (simp add: elf64_layout_def rel_places_def add_base_def r Let_def)
  qed
qed

lemma rela_loop_table:
  assumes "elf64_layout ab" "words_at m a (rela_words rs)"
    "unat a + 24 * length rs < 2 ^ 64"
    "\<And>p. p \<in> fst ` set (rela_patches base rs) \<Longrightarrow> apart_from_words p a (rela_words rs)"
  shows "rela_loop ab base a (a + of_nat (24 * length rs)) m = Some (put_words (rela_patches base rs) m)"
  using assms(2-)
proof (induction rs arbitrary: a m)
  case Nil
  then show ?case by (subst rela_loop.simps) (simp add: put_words_def rela_patches_def)
next
  case (Cons r rs)
  obtain offset info addend where r: "r = (offset, info, addend)" by (cases r)
  have "unat a + 24 * Suc (length rs) < 2 ^ 64" "unat (24 :: u64) = 24" using Cons.prems(2) by simp_all
  note fits = entry_end [OF this]
  have last: "a + of_nat (24 * length (r # rs)) = a + 24 + of_nat (24 * length rs)" using fits(3) by simp
  have tab: "load64 m a = offset" "load64 m (a + 8) = info" "load64 m (a + 16) = addend"
    "words_at m (a + 24) (rela_words rs)"
    using Cons.prems(1) by (simp_all add: r rela_words_def words_at_Cons add.assoc)
  have ap: "apart_from_words p (a + 24) (rela_words rs)" if "p \<in> fst ` set (rela_patches base (r # rs))" for p
    using Cons.prems(3) [OF that] by (simp add: r rela_words_def apart_from_words_Cons add.assoc)
  have sub: "set (rela_patches base rs) \<subseteq> set (rela_patches base (r # rs))" by (auto simp: rela_patches_def)
  show ?case
  proof (cases "ARCH_CAN_PATCH info")
    case False
    have "rela_loop ab base (a + 24) (a + 24 + of_nat (24 * length rs)) m = Some (put_words (rela_patches base rs) m)"
      by (rule Cons.IH) (use tab fits ap sub in auto)
    then show ?thesis using assms(1) fits(1) tab False unfolding last
      by (subst rela_loop.simps) (simp add: elf64_layout_def rela_patches_def r)
  next
    case True
    let ?m = "store64 m (offset + base) (base + addend)"
    have "offset + base \<in> fst ` set (rela_patches base (r # rs))" using True by (simp add: rela_patches_def r)
    then have "words_at ?m (a + 24) (rela_words rs)" using tab(4) words_at_store_apart [OF ap] by simp
    then have "rela_loop ab base (a + 24) (a + 24 + of_nat (24 * length rs)) ?m = Some (put_words (rela_patches base rs) ?m)"
      by (intro Cons.IH) (use fits ap sub in auto)
    then show ?thesis using assms(1) fits(1) tab True unfolding last
      by (subst rela_loop.simps) (simp add: elf64_layout_def rela_patches_def put_words_def r Let_def)
  qed
qed

section \<open>The stores of a table\<close>

lemma apart_sym: "apart a b \<Longrightarrow> apart b a"
proof -
  assume ab: "apart a b"
  define d where "d = b - a"
  have d: "8 \<le> uint d" "uint d \<le> 2 ^ 64 - 8" using ab by (simp_all add: apart_def d_def word_le_def)
  have "uint (- d) = (- uint d) mod 2 ^ 64" by (simp add: uint_word_ariths)
  also have "\<dots> = 2 ^ 64 - uint d" using d by (simp add: zmod_zminus1_eq_if)
  finally have "8 \<le> - d" "- d \<le> - 8" using d by (simp_all add: word_le_def)
  moreover have "a - b = - d" by (simp add: d_def)
  ultimately show "apart b a" by (simp add: apart_def)
qed

lemma load64_apart: "apart p q \<Longrightarrow> load64 (store64 m p v) q = load64 m q"
  by (simp add: apart_def load64_store64_other)

lemma add_base_unchanged:
  "(\<And>p. p \<in> set ps \<Longrightarrow> apart p q) \<Longrightarrow> load64 (add_base base ps m) q = load64 m q"
  by (induction ps arbitrary: m) (simp_all add: add_base_def load64_apart)

lemma put_words_unchanged:
  "(\<And>p. p \<in> fst ` set ps \<Longrightarrow> apart p q) \<Longrightarrow> load64 (put_words ps m) q = load64 m q"
  by (induction ps arbitrary: m) (auto simp: put_words_def load64_apart)

lemma add_base_at:
  "sorted_wrt apart ps \<Longrightarrow> q \<in> set ps \<Longrightarrow> load64 (add_base base ps m) q = load64 m q + base"
proof (induction ps arbitrary: m)
  case (Cons p ps)
  let ?m = "store64 m p (load64 m p + base)"
  have step: "add_base base (p # ps) m = add_base base ps ?m" by (simp add: add_base_def)
  show ?case
  proof (cases "q = p")
    case True
    then have "load64 (add_base base ps ?m) q = load64 ?m q"
      using Cons.prems by (intro add_base_unchanged) (auto intro: apart_sym)
    then show ?thesis using True by (simp add: step load64_store64)
  next
    case False
    then have "load64 ?m q = load64 m q" using Cons.prems by (auto intro: load64_apart)
    then show ?thesis using Cons False by (simp add: step)
  qed
qed simp

lemma put_words_at:
  "sorted_wrt apart (map fst ps) \<Longrightarrow> (q, v) \<in> set ps \<Longrightarrow> load64 (put_words ps m) q = v"
proof (induction ps arbitrary: m)
  case (Cons e ps)
  obtain p w where e: "e = (p, w)" by (cases e)
  have step: "put_words (e # ps) m = put_words ps (store64 m p w)" by (simp add: put_words_def e)
  show ?case
  proof (cases "(q, v) \<in> set ps")
    case True
    then show ?thesis using Cons by (simp add: step)
  next
    case False
    then have "q = p" "v = w" using Cons.prems(2) e by auto
    moreover have "load64 (put_words ps (store64 m p w)) p = w"
      using Cons.prems(1) e by (subst put_words_unchanged) (auto intro: apart_sym simp: load64_store64)
    ultimately show ?thesis by (simp add: step)
  qed
qed simp

lemma add_base_outside: "\<forall>p \<in> set ps. \<not> x - p < 8 \<Longrightarrow> add_base base ps m x = m x"
  by (induction ps arbitrary: m) (simp_all add: add_base_def store64_outside)

lemma put_words_outside: "\<forall>p \<in> fst ` set ps. \<not> x - p < 8 \<Longrightarrow> put_words ps m x = m x"
  by (induction ps arbitrary: m) (auto simp: put_words_def store64_outside)

section \<open>The relocated image\<close>

text \<open>
  An image as the linker writes it and the loader puts it at \<open>base\<close>: a dynamic section and two
  tables of relocations, which lie inside the address space, and places to patch that do not
  overlap each other or the tables.
\<close>

definition relocatable ::
  "memory \<Rightarrow> u64 \<Rightarrow> uintptr_t \<Rightarrow> (u64 \<times> u64) list \<Rightarrow> (u64 \<times> u64) list \<Rightarrow> (u64 \<times> u64 \<times> u64) list \<Rightarrow> bool" where
  "relocatable m base dyni es rels relas \<longleftrightarrow>
     (let a = dyn_value es 17 + base; b = dyn_value es 7 + base;
          places = rel_places base rels @ map fst (rela_patches base relas) in
      dyn_table m dyni es \<and> (\<forall>(t, v) \<in> set es. 0 \<le> sint t) \<and>
      dyn_value es 18 = of_nat (16 * length rels) \<and> unat a + 16 * length rels < 2 ^ 64 \<and>
      words_at m a (rel_words rels) \<and>
      dyn_value es 8 = of_nat (24 * length relas) \<and> unat b + 24 * length relas < 2 ^ 64 \<and>
      words_at m b (rela_words relas) \<and>
      sorted_wrt apart places \<and>
      (\<forall>p \<in> set places. apart_from_words p a (rel_words rels) \<and> apart_from_words p b (rela_words relas)))"

lemma words_at_add_base:
  "\<forall>p \<in> set ps. apart_from_words p a ws \<Longrightarrow> words_at m a ws \<Longrightarrow> words_at (add_base base ps m) a ws"
  by (auto simp: words_at_def apart_from_words_def add_base_unchanged)

lemma rel_fixup_stores:
  assumes "elf64_layout ab" "relocatable m (ed_runtime_ipa (load_env_data m env_data)) dyni es rels relas"
  shows "rel_fixup ab dyni env_data m =
    Done (put_words (rela_patches (ed_runtime_ipa (load_env_data m env_data)) relas)
      (add_base (ed_runtime_ipa (load_env_data m env_data))
        (rel_places (ed_runtime_ipa (load_env_data m env_data)) rels) m))"
proof -
  define base where "base = ed_runtime_ipa (load_env_data m env_data)"
  let ?m = "add_base base (rel_places base rels) m"
  note img = assms(2)[unfolded relocatable_def Let_def, folded base_def]
  have dyn: "dyn_loop ab m dyni (replicate DT_CNT 0) = Some (Done (dyn_slots es (replicate DT_CNT 0)))"
    using assms(1) img by (intro dyn_loop_table) auto
  have slots: "dyn_slots es (replicate DT_CNT 0) ! 17 = dyn_value es 17"
    "dyn_slots es (replicate DT_CNT 0) ! 18 = dyn_value es 18"
    "dyn_slots es (replicate DT_CNT 0) ! 7 = dyn_value es 7"
    "dyn_slots es (replicate DT_CNT 0) ! 8 = dyn_value es 8"
    using dyn_slots_nth [of 17 es] dyn_slots_nth [of 18 es] dyn_slots_nth [of 7 es] dyn_slots_nth [of 8 es]
    by simp_all
  have rel: "rel_loop ab base (dyn_value es 17 + base) (dyn_value es 17 + base + dyn_value es 18) m = Some ?m"
    using img rel_loop_table [OF assms(1), of m "dyn_value es 17 + base" rels base] by simp
  have "words_at ?m (dyn_value es 7 + base) (rela_words relas)"
    using img by (intro words_at_add_base) auto
  then have rela: "rela_loop ab base (dyn_value es 7 + base) (dyn_value es 7 + base + dyn_value es 8) ?m =
      Some (put_words (rela_patches base relas) ?m)"
    using img rela_loop_table [OF assms(1), of ?m "dyn_value es 7 + base" relas base] by simp
  have tags: "unat (DT_REL ab) = 17" "unat (DT_RELSZ ab) = 18" "unat (DT_RELA ab) = 7" "unat (DT_RELASZ ab) = 8"
    using assms(1) by (simp_all add: elf64_layout_def)
  show ?thesis unfolding rel_fixup_def base_def [symmetric] Let_def dyn returns_def option.case bindc.simps id_apply
      tags slots rel rela ..
qed

lemma relocatable_apart:
  assumes "relocatable m base dyni es rels relas"
  shows "sorted_wrt apart (rel_places base rels)" "sorted_wrt apart (map fst (rela_patches base relas))"
    "p \<in> set (rel_places base rels) \<Longrightarrow> q \<in> fst ` set (rela_patches base relas) \<Longrightarrow> apart p q"
  using assms by (auto simp: relocatable_def Let_def sorted_wrt_append)

text \<open>C25: rel_fixup ends on every image that the linker can write. It adds the load address to each word that a relocation without addend names and writes the load address plus the addend to each word that one with an addend names; no other byte of memory changes.\<close>

theorem rel_fixup_spec:
  assumes "elf64_layout ab" "base = ed_runtime_ipa (load_env_data m env_data)"
    "relocatable m base dyni es rels relas"
  shows "\<exists>m'. rel_fixup ab dyni env_data m = Done m' \<and>
    (\<forall>p \<in> set (rel_places base rels). load64 m' p = load64 m p + base) \<and>
    (\<forall>(p, v) \<in> set (rela_patches base relas). load64 m' p = v) \<and>
    (\<forall>x. (\<forall>p \<in> set (rel_places base rels) \<union> fst ` set (rela_patches base relas). \<not> x - p < 8) \<longrightarrow> m' x = m x)"
proof -
  let ?m = "add_base base (rel_places base rels) m"
  note ap = relocatable_apart [OF assms(3)]
  have "load64 (put_words (rela_patches base relas) ?m) p = load64 m p + base" if "p \<in> set (rel_places base rels)" for p
    using ap(3) [OF that] add_base_at [OF ap(1) that] by (subst put_words_unchanged) (auto intro: apart_sym)
  moreover have "\<forall>(p, v) \<in> set (rela_patches base relas). load64 (put_words (rela_patches base relas) ?m) p = v"
    using put_words_at [OF ap(2)] by blast
  moreover have "put_words (rela_patches base relas) ?m x = m x"
    if "\<forall>p \<in> set (rel_places base rels) \<union> fst ` set (rela_patches base relas). \<not> x - p < 8" for x
    using that by (simp add: put_words_outside add_base_outside)
  ultimately show ?thesis using rel_fixup_stores [OF assms(1)] assms(2,3) by auto
qed

definition elf64 :: elf_reloc_abi where
  "elf64 = \<lparr>d_tag = load64, d_ptr = (\<lambda>m a. load64 m (a + 8)), sizeof_dyn = 16, DT_NULL = 0, DT_REL = 17,
     DT_RELSZ = 18, DT_RELA = 7, DT_RELASZ = 8, r_offset = load64, r_info = (\<lambda>m a. load64 m (a + 8)),
     r_addend = (\<lambda>m a. load64 m (a + 16)), sizeof_rel = 16, sizeof_rela = 24\<rparr>"

text \<open>
  An image at 0x10000 with its environment at the start, the dynamic section at offset 0x100, one
  relocation with addend, at 0x200, and one without, at 0x300.
\<close>

definition reloc_image_stores :: "(uintptr_t \<times> u64) list" where
  "reloc_image_stores =
     [(0x10008, 0x10000), (0x10100, 7), (0x10108, 0x200), (0x10110, 8), (0x10118, 24), (0x10120, 17),
      (0x10128, 0x300), (0x10130, 18), (0x10138, 16), (0x10140, 0), (0x10200, 0x400), (0x10208, 1027),
      (0x10210, 0x1234), (0x10300, 0x408), (0x10308, 1027), (0x10408, 5)]"

definition reloc_image :: memory where
  "reloc_image = put_words reloc_image_stores (\<lambda>_. 0)"

lemma reloc_stores_apart: "sorted_wrt apart (map fst reloc_image_stores)"
  unfolding reloc_image_stores_def apart_def by simp

lemma reloc_image_words:
  "load64 reloc_image 0x10008 = 0x10000" "load64 reloc_image 0x10100 = 7"
  "load64 reloc_image 0x10108 = 0x200" "load64 reloc_image 0x10110 = 8"
  "load64 reloc_image 0x10118 = 24" "load64 reloc_image 0x10120 = 17"
  "load64 reloc_image 0x10128 = 0x300" "load64 reloc_image 0x10130 = 18"
  "load64 reloc_image 0x10138 = 16" "load64 reloc_image 0x10140 = 0"
  "load64 reloc_image 0x10200 = 0x400" "load64 reloc_image 0x10208 = 1027"
  "load64 reloc_image 0x10210 = 0x1234" "load64 reloc_image 0x10300 = 0x408"
  "load64 reloc_image 0x10308 = 1027" "load64 reloc_image 0x10408 = 5"
  unfolding reloc_image_def
  by (rule put_words_at [OF reloc_stores_apart]; simp add: reloc_image_stores_def)+

lemma no_words: "words_at m a []" "apart_from_words p a []"
  by (simp_all add: words_at_def apart_from_words_def)

lemma reloc_image_ok:
  "relocatable reloc_image 0x10000 0x10100 [(7, 0x200), (8, 24), (17, 0x300), (18, 16)] [(0x408, 1027)]
     [(0x400, 1027, 0x1234)]"
  by (simp add: relocatable_def dyn_value_def words_at_Cons rel_words_def rela_words_def reloc_image_words
      rel_places_def rela_patches_def ARCH_CAN_PATCH_def R_TYPE_def R_SYM_def apart_def apart_from_words_Cons no_words)

theorem rel_fixup_spec_witness:
  "\<exists>m'. rel_fixup elf64 0x10100 0x10000 reloc_image = Done m' \<and>
     load64 m' 0x10400 = 0x11234 \<and> load64 m' 0x10408 = 0x10005"
proof -
  have base: "ed_runtime_ipa (load_env_data reloc_image 0x10000) = 0x10000"
    by (simp add: load_env_data_def reloc_image_words)
  have "\<exists>m'. rel_fixup elf64 0x10100 0x10000 reloc_image = Done m' \<and>
    (\<forall>p \<in> set (rel_places 0x10000 [(0x408, 1027)]). load64 m' p = load64 reloc_image p + 0x10000) \<and>
    (\<forall>(p, v) \<in> set (rela_patches 0x10000 [(0x400, 1027, 0x1234)]). load64 m' p = v)"
    using rel_fixup_spec [OF _ base [symmetric] reloc_image_ok, of elf64]
    by (auto simp: elf64_layout_def elf64_def)
  then show ?thesis
    by (auto simp: rel_places_def rela_patches_def ARCH_CAN_PATCH_def R_TYPE_def R_SYM_def reloc_image_words)
qed

text \<open>The check of the tag is signed: a negative tag is used as an index before the array.\<close>

lemma rel_fixup_negative_tag:
  assumes "elf64_layout ab" "sint (load64 m dyni) < 0"
  shows "rel_fixup ab dyni env_data m = Fault BadAccess"
proof -
  have "dyn_loop ab m dyni dyn = Some (Fault BadAccess)" for dyn
    using assms by (subst dyn_loop.simps) (auto simp: elf64_layout_def)
  then show ?thesis by (simp add: rel_fixup_def returns_def)
qed

end
