(* ===== verification/Vectors.thy ===== *)
theory Vectors
  imports Runtime
begin

unbundle bit_operations_syntax

text \<open>
  The exception vectors: \<^verbatim>\<open>arch/armv8/src/vectors.S\<close> with the macros of
  \<^verbatim>\<open>arch/armv8/include/el1.inc\<close> that save and restore the registers. A system call of the
  application and an interrupt enter the runtime here; every other exception prints its registers
  and ends the application.
\<close>

section \<open>The processor\<close>

text \<open>The registers x0 to x30, the stack pointer and the registers of the exception.\<close>

record cpu =
  xr :: "nat \<Rightarrow> u64"
  sp_el1 :: u64
  elr_el1 :: u64
  spsr_el1 :: u64
  esr_el1 :: u64
  sp_el0 :: u64

text \<open>
  What the model takes from outside: the two pointer authentication functions of the processor, of a
  pointer and the stack pointer, the contents a call of a C function leaves in the registers it need
  not preserve, and what the two builtins of \<open>panic\<close> read.
\<close>

record machine =
  pac_sign :: "u64 \<Rightarrow> u64 \<Rightarrow> u64"
  pac_auth :: "u64 \<Rightarrow> u64 \<Rightarrow> u64"
  scratch :: "nat \<Rightarrow> u64"
  panic_pc :: register_t
  panic_fp :: register_t

section \<open>Instructions\<close>

datatype sysreg = SPSR_EL1 | ESR_EL1 | ELR_EL1 | SP_EL0

text \<open>
  \<open>Stp a b k\<close> is \<open>stp xa, xb, [sp, k * 16]\<close>, \<open>Stz\<close> the same with \<open>xzr\<close> for the second register;
  \<open>Ldp\<close> and \<open>Ldr\<close> are the loads. \<open>Add_sp a n\<close> is \<open>add xa, sp, n\<close>.
\<close>

datatype instr =
  Stp nat nat nat | Stz nat nat | Ldp nat nat nat | Ldr nat nat | Mrs nat sysreg | Msr sysreg nat |
  Paciasp | Autiasp | Add_sp nat u64 | Move_sp u64

definition slot :: "uintptr_t \<Rightarrow> nat \<Rightarrow> uintptr_t" where
  "slot s i = s + of_nat (8 * i)"

definition set_x :: "nat \<Rightarrow> u64 \<Rightarrow> cpu \<Rightarrow> cpu" where
  "set_x r v c = c\<lparr>xr := (xr c)(r := v)\<rparr>"

fun read_sysreg :: "sysreg \<Rightarrow> cpu \<Rightarrow> u64" where
  "read_sysreg SPSR_EL1 c = spsr_el1 c"
| "read_sysreg ESR_EL1 c = esr_el1 c"
| "read_sysreg ELR_EL1 c = elr_el1 c"
| "read_sysreg SP_EL0 c = sp_el0 c"

fun write_sysreg :: "sysreg \<Rightarrow> u64 \<Rightarrow> cpu \<Rightarrow> cpu" where
  "write_sysreg SPSR_EL1 v c = c\<lparr>spsr_el1 := v\<rparr>"
| "write_sysreg ESR_EL1 v c = c\<lparr>esr_el1 := v\<rparr>"
| "write_sysreg ELR_EL1 v c = c\<lparr>elr_el1 := v\<rparr>"
| "write_sysreg SP_EL0 v c = c\<lparr>sp_el0 := v\<rparr>"

fun step_instr :: "machine \<Rightarrow> instr \<Rightarrow> cpu \<times> memory \<Rightarrow> cpu \<times> memory" where
  "step_instr mc (Stp a b k) (c, m) =
     (c, store64 (store64 m (slot (sp_el1 c) (2 * k)) (xr c a)) (slot (sp_el1 c) (2 * k + 1)) (xr c b))"
| "step_instr mc (Stz a k) (c, m) =
     (c, store64 (store64 m (slot (sp_el1 c) (2 * k)) (xr c a)) (slot (sp_el1 c) (2 * k + 1)) 0)"
| "step_instr mc (Ldp a b k) (c, m) =
     (set_x b (load64 m (slot (sp_el1 c) (2 * k + 1))) (set_x a (load64 m (slot (sp_el1 c) (2 * k))) c), m)"
| "step_instr mc (Ldr a k) (c, m) = (set_x a (load64 m (slot (sp_el1 c) (2 * k))) c, m)"
| "step_instr mc (Mrs a r) (c, m) = (set_x a (read_sysreg r c) c, m)"
| "step_instr mc (Msr r a) (c, m) = (write_sysreg r (xr c a) c, m)"
| "step_instr mc Paciasp (c, m) = (set_x 30 (pac_sign mc (xr c 30) (sp_el1 c)) c, m)"
| "step_instr mc Autiasp (c, m) = (set_x 30 (pac_auth mc (xr c 30) (sp_el1 c)) c, m)"
| "step_instr mc (Add_sp a n) (c, m) = (set_x a (sp_el1 c + n) c, m)"
| "step_instr mc (Move_sp n) (c, m) = (c\<lparr>sp_el1 := sp_el1 c + n\<rparr>, m)"

definition exec :: "machine \<Rightarrow> instr list \<Rightarrow> cpu \<times> memory \<Rightarrow> cpu \<times> memory" where
  "exec mc is s = fold (step_instr mc) is s"

section \<open>el1.inc\<close>

abbreviation (input) "TRAP_FRAME_FULL_SIZE \<equiv> (18 * 16 :: u64)"
abbreviation (input) "TRAP_FRAME_SYSCALL_SIZE \<equiv> (11 * 16 :: u64)"
abbreviation (input) "TRAP_FRAME_IRQ_SIZE \<equiv> (12 * 16 :: u64)"

definition save_runtime_context_full :: "instr list" where
  "save_runtime_context_full =
     [Move_sp (- TRAP_FRAME_FULL_SIZE),
      Stp 0 1 0, Stp 2 3 1, Stp 4 5 2, Stp 6 7 3, Stp 8 9 4, Stp 10 11 5, Stp 12 13 6, Stp 14 15 7,
      Stp 16 17 8, Stp 18 19 9, Stp 20 21 10, Stp 22 23 11, Stp 24 25 12, Stp 26 27 13, Stp 28 30 14,
      Mrs 0 SPSR_EL1, Mrs 1 ESR_EL1, Stp 0 1 15,
      Mrs 0 SP_EL0, Add_sp 1 TRAP_FRAME_FULL_SIZE, Stp 0 1 16,
      Mrs 1 ELR_EL1, Stp 29 1 17, Add_sp 29 (17 * 16)]"

definition save_runtime_context_x1_x18 :: "instr list" where
  "save_runtime_context_x1_x18 =
     [Stp 17 18 1, Stp 1 2 2, Stp 3 4 3, Mrs 17 SPSR_EL1, Stp 5 6 4, Stp 30 17 5, Stp 7 8 6,
      Mrs 30 ELR_EL1, Stp 9 10 7, Paciasp, Stp 11 12 8, Stp 13 14 9, Stp 15 16 10, Stp 29 30 0,
      Add_sp 29 0]"

definition restore_runtime_context_x1_x18 :: "instr list" where
  "restore_runtime_context_x1_x18 =
     [Ldp 29 30 0, Ldp 17 18 1, Ldp 1 2 2, Autiasp, Ldp 3 4 3, Msr ELR_EL1 30, Ldp 5 6 4, Ldp 30 15 5,
      Ldp 7 8 6, Ldp 9 10 7, Ldp 11 12 8, Msr SPSR_EL1 15, Ldp 13 14 9, Ldp 15 16 10]"

definition save_runtime_context_syscall :: "instr list" where
  "save_runtime_context_syscall = Move_sp (- TRAP_FRAME_SYSCALL_SIZE) # save_runtime_context_x1_x18"

definition restore_runtime_context_syscall :: "instr list" where
  "restore_runtime_context_syscall = restore_runtime_context_x1_x18 @ [Move_sp TRAP_FRAME_SYSCALL_SIZE]"

definition save_runtime_context_irq :: "instr list" where
  "save_runtime_context_irq =
     Move_sp (- TRAP_FRAME_IRQ_SIZE) # save_runtime_context_x1_x18 @ [Stz 0 11]"

definition restore_runtime_context_irq :: "instr list" where
  "restore_runtime_context_irq =
     restore_runtime_context_x1_x18 @ [Ldr 0 11, Move_sp TRAP_FRAME_IRQ_SIZE]"

section \<open>vectors.S\<close>

text \<open>An exception ends with \<open>eret\<close>, which resumes the interrupted code, or the application has ended.\<close>

datatype trap_result = Resumed cpu runtime | Stopped runtime

definition set_mem :: "memory \<Rightarrow> runtime \<Rightarrow> runtime" where
  "set_mem m st = st\<lparr>rt_mm := (rt_mm st)\<lparr>mm_mem := m\<rparr>\<rparr>"

text \<open>The registers after a call of a C function with the result \<open>r\<close>: x19 to x29 are preserved.\<close>

definition c_return :: "machine \<Rightarrow> u64 \<Rightarrow> cpu \<Rightarrow> cpu" where
  "c_return mc r c =
     c\<lparr>xr := (\<lambda>i. if i = 0 then r else if i \<le> 18 \<or> i = 30 then scratch mc i else xr c i)\<rparr>"

text \<open>The structure \<open>trap_frame_t\<close> at an address.\<close>

definition load_trap_frame :: "memory \<Rightarrow> uintptr_t \<Rightarrow> trap_frame" where
  "load_trap_frame m a =
     \<lparr>tf_x = map (\<lambda>i. load64 m (slot a i)) [0..<29], tf_x30 = load64 m (slot a 29),
      tf_spsr = load64 m (slot a 30), tf_esr = load64 m (slot a 31), tf_sp_el0 = load64 m (slot a 32),
      tf_sp_el1 = load64 m (slot a 33), tf_x29 = load64 m (slot a 34), tf_elr = load64 m (slot a 35)\<rparr>"

text \<open>\<open>panic\<close> does not return.\<close>

definition panic_asm :: "machine \<Rightarrow> platform \<Rightarrow> string \<Rightarrow> runtime \<Rightarrow> trap_result outcome" where
  "panic_asm mc pf str st =
     bindc (panic pf str (panic_pc mc) (panic_fp mc) st) (\<lambda>r :: unit completion.
       case r of Halted st \<Rightarrow> Done (Stopped st) | Returned _ st \<Rightarrow> Fault BadAccess)"

definition save_and_panic ::
  "machine \<Rightarrow> platform \<Rightarrow> bool \<Rightarrow> string \<Rightarrow> cpu \<Rightarrow> runtime \<Rightarrow> trap_result outcome" where
  "save_and_panic mc pf dump str c st =
     (let (c, m) = exec mc save_runtime_context_full (c, rt_mem st);
          st = set_mem m st
      in if dump then
           bindc (dump_trap_frame (pf_tmp_log pf) (load_trap_frame (rt_mem st) (sp_el1 c)) (rt_out st)) (\<lambda>out.
             panic_asm mc pf str (set_out out st))
         else panic_asm mc pf str st)"

definition handle_el1h_sync :: "machine \<Rightarrow> platform \<Rightarrow> cpu \<Rightarrow> runtime \<Rightarrow> trap_result outcome" where
  "handle_el1h_sync mc pf c st =
     (let c = set_x 9 (esr_el1 c) c;
          c = set_x 10 (drop_bit 26 (xr c 9)) c;
          c = set_x 11 (xr c 9 AND 0xffff) c
      in if \<not> (xr c 10 = 0b010101 \<and> xr c 11 = 0) then
           let (c, m) = exec mc restore_runtime_context_syscall (c, rt_mem st)
           in save_and_panic mc pf True ''EL1h sync exception not handled'' c (set_mem m st)
         else
           let c = set_x 6 (xr c 8) c in
           bindc (aarch64_do_syscall pf (xr c 0) (xr c 1) (xr c 2) (xr c 3) (xr c 4) (xr c 5) (xr c 6) st) (\<lambda>r.
             case r of
               Halted st \<Rightarrow> Done (Stopped st)
             | Returned ret st \<Rightarrow>
                 let (c, m) = exec mc restore_runtime_context_syscall (c_return mc ret c, rt_mem st)
                 in Done (Resumed c (set_mem m st))))"

definition handle_el1h_irq :: "machine \<Rightarrow> platform \<Rightarrow> cpu \<Rightarrow> runtime \<Rightarrow> trap_result outcome" where
  "handle_el1h_irq mc pf c st =
     bindc (interrupt_dispatch (pf_env pf) (rt_irq st)) (\<lambda>irq.
       let st = st\<lparr>rt_irq := irq\<rparr>;
           (c, m) = exec mc restore_runtime_context_irq (c_return mc (scratch mc 0) c, rt_mem st)
       in Done (Resumed c (set_mem m st)))"

definition stack_chk_fail :: "machine \<Rightarrow> platform \<Rightarrow> cpu \<Rightarrow> runtime \<Rightarrow> trap_result outcome" where
  "stack_chk_fail mc pf c st = save_and_panic mc pf True ''Stack corruption detected in runtime'' c st"

text \<open>The table at \<open>vectors_aarch64\<close>.\<close>

datatype exception =
  El1t_sync | El1t_irq | El1t_fiq | El1t_serror
| El1h_sync | El1h_irq | El1h_fiq | El1h_serror
| Guest64_sync | Guest64_irq | Guest64_fiq | Guest64_serror
| Guest32_sync | Guest32_irq | Guest32_fiq | Guest32_serror

fun vectors_aarch64 :: "machine \<Rightarrow> platform \<Rightarrow> exception \<Rightarrow> cpu \<Rightarrow> runtime \<Rightarrow> trap_result outcome" where
  "vectors_aarch64 mc pf El1t_sync c st = save_and_panic mc pf True ''Current sp0 sync vector'' c st"
| "vectors_aarch64 mc pf El1t_irq c st = save_and_panic mc pf True ''Current sp0 irq vector'' c st"
| "vectors_aarch64 mc pf El1t_fiq c st = save_and_panic mc pf True ''Current sp0 fiq vector'' c st"
| "vectors_aarch64 mc pf El1t_serror c st = save_and_panic mc pf True ''Current sp0 serror vector'' c st"
| "vectors_aarch64 mc pf El1h_sync c st =
     (let (c, m) = exec mc save_runtime_context_syscall (c, rt_mem st)
      in handle_el1h_sync mc pf c (set_mem m st))"
| "vectors_aarch64 mc pf El1h_irq c st =
     (let (c, m) = exec mc save_runtime_context_irq (c, rt_mem st)
      in handle_el1h_irq mc pf c (set_mem m st))"
| "vectors_aarch64 mc pf El1h_fiq c st = save_and_panic mc pf True ''Current spx fiq vector'' c st"
| "vectors_aarch64 mc pf El1h_serror c st = save_and_panic mc pf True ''Current spx serror vector'' c st"
| "vectors_aarch64 mc pf Guest64_sync c st = save_and_panic mc pf False ''Guest 64 sync vector'' c st"
| "vectors_aarch64 mc pf Guest64_irq c st = save_and_panic mc pf False ''Guest 64 ieq vector'' c st"
| "vectors_aarch64 mc pf Guest64_fiq c st = save_and_panic mc pf False ''Guest 64 fiq vector'' c st"
| "vectors_aarch64 mc pf Guest64_serror c st = save_and_panic mc pf False ''Guest 64 serror vector'' c st"
| "vectors_aarch64 mc pf Guest32_sync c st = save_and_panic mc pf False ''Guest 32 sync vector'' c st"
| "vectors_aarch64 mc pf Guest32_irq c st = save_and_panic mc pf False ''Guest 32 irq vector'' c st"
| "vectors_aarch64 mc pf Guest32_fiq c st = save_and_panic mc pf False ''Guest 32 fiq vector'' c st"
| "vectors_aarch64 mc pf Guest32_serror c st = save_and_panic mc pf False ''Guest 32 serror vector'' c st"

end
