(* ===== verification/VectorsSpec.thy ===== *)
theory VectorsSpec
  imports Vectors RelocSpec
begin

unbundle bit_operations_syntax

text \<open>
  The exception vectors: an interrupt leaves no trace in the registers of the interrupted code, a
  system call changes x0 only, and every other exception of the runtime prints the registers it
  found. The saved registers are followed word by word through the frame on the stack.
\<close>

section \<open>Frames\<close>

lemma apart_slots_less:
  assumes "i < j" "j < 2 ^ 60"
  shows "apart (slot s i) (slot s j)"
proof -
  have "slot s j - slot s i = of_nat (8 * (j - i))" using assms by (simp add: slot_def of_nat_diff algebra_simps)
  moreover have "unat (of_nat (8 * (j - i)) :: u64) = 8 * (j - i)" using assms by (intro unat_of_nat_fits) simp
  moreover have "8 \<le> 8 * (j - i)" "8 * (j - i) \<le> 2 ^ 64 - 8" using assms by simp_all
  ultimately show ?thesis by (simp add: apart_def word_le_nat_alt del: of_nat_mult)
qed

lemma apart_slots: "i \<noteq> j \<Longrightarrow> i < 2 ^ 60 \<Longrightarrow> j < 2 ^ 60 \<Longrightarrow> apart (slot s i) (slot s j)"
  by (metis apart_slots_less apart_sym linorder_neqE_nat)

lemma load_slot_other:
  "i \<noteq> j \<Longrightarrow> i < 2 ^ 60 \<Longrightarrow> j < 2 ^ 60 \<Longrightarrow> load64 (store64 m (slot s i) v) (slot s j) = load64 m (slot s j)"
  by (simp add: load64_apart apart_slots)

lemmas load_slot = load_slot_other load64_store64

text \<open>The registers of a processor as values, for the symbolic execution of the sequences.\<close>

lemma set_x_simps [simp]:
  "xr (set_x r v c) i = (if i = r then v else xr c i)"
  "sp_el1 (set_x r v c) = sp_el1 c" "elr_el1 (set_x r v c) = elr_el1 c" "spsr_el1 (set_x r v c) = spsr_el1 c"
  "esr_el1 (set_x r v c) = esr_el1 c" "sp_el0 (set_x r v c) = sp_el0 c"
  by (simp_all add: set_x_def)

lemma cpu_eqI:
  "\<lbrakk>\<And>i. xr c i = xr d i; sp_el1 c = sp_el1 d; elr_el1 c = elr_el1 d; spsr_el1 c = spsr_el1 d;
    esr_el1 c = esr_el1 d; sp_el0 c = sp_el0 d\<rbrakk> \<Longrightarrow> c = (d :: cpu)"
  by (cases c; cases d) auto

lemma exec_Nil [simp]: "exec mc [] s = s"
  by (simp add: exec_def)

lemma exec_Cons [simp]: "exec mc (i # is) s = exec mc is (step_instr mc i s)"
  by (simp add: exec_def)

lemma exec_append: "exec mc (is @ js) s = exec mc js (exec mc is s)"
  by (simp add: exec_def)

text \<open>The words that \<open>save_runtime_context_x1_x18\<close> leaves in a frame at \<open>s\<close>.\<close>

definition framed :: "machine \<Rightarrow> cpu \<Rightarrow> uintptr_t \<Rightarrow> memory \<Rightarrow> bool" where
  "framed mc c s m \<longleftrightarrow>
     map (\<lambda>i. load64 m (slot s i)) [0..<22] =
     [xr c 29, pac_sign mc (elr_el1 c) s, xr c 17, xr c 18, xr c 1, xr c 2, xr c 3, xr c 4, xr c 5, xr c 6,
      xr c 30, spsr_el1 c, xr c 7, xr c 8, xr c 9, xr c 10, xr c 11, xr c 12, xr c 13, xr c 14, xr c 15, xr c 16]"

lemma slots_22: "[0..<22] = [0, 1, 2, 3, 4, 5, 6, 7, 8, 9, 10, 11, 12, 13, 14, 15, 16, 17, 18, 19, 20, 21]"
  by code_simp

lemma save_x1_x18:
  assumes "exec mc save_runtime_context_x1_x18 (c, m) = (c', m')"
  shows "framed mc c (sp_el1 c) m'"
    "c' = c\<lparr>xr := (xr c)(17 := spsr_el1 c, 30 := pac_sign mc (elr_el1 c) (sp_el1 c), 29 := sp_el1 c)\<rparr>"
  using assms
  by (auto simp: save_runtime_context_x1_x18_def framed_def load_slot set_x_def slots_22)

lemma above_18: "18 < (i :: nat) \<longleftrightarrow> i \<notin> {0, 1, 2, 3, 4, 5, 6, 7, 8, 9, 10, 11, 12, 13, 14, 15, 16, 17, 18}"
proof -
  have "[0..<19] = [0, 1, 2, 3, 4, 5, 6, 7, 8, 9, 10, 11, 12, 13, 14, 15, 16, 17, 18]" by code_simp
  moreover have "18 < i \<longleftrightarrow> i \<notin> set [0..<19]" by auto
  ultimately show ?thesis by simp
qed

lemma restore_x1_x18:
  assumes "framed mc c s m" "sp_el1 d = s" "\<And>p. pac_auth mc (pac_sign mc p s) s = p"
  shows "exec mc restore_runtime_context_x1_x18 (d, m) =
    (d\<lparr>xr := (\<lambda>i. if i = 0 \<or> 18 < i \<and> i \<noteq> 29 \<and> i \<noteq> 30 then xr d i else xr c i), elr_el1 := elr_el1 c,
       spsr_el1 := spsr_el1 c\<rparr>, m)"
  using assms
  by (auto simp: restore_runtime_context_x1_x18_def framed_def set_x_def slots_22 above_18 intro!: ext cpu_eqI)

text \<open>The bytes outside a frame of \<open>len\<close> bytes at \<open>s\<close>.\<close>

definition outside_frame :: "uintptr_t \<Rightarrow> u64 \<Rightarrow> uintptr_t \<Rightarrow> bool" where
  "outside_frame s len a \<longleftrightarrow> \<not> a - s < len"

lemma store_slot_outside:
  assumes "outside_frame s len a" "8 * Suc i \<le> unat len"
  shows "store64 m (slot s i) v a = m a"
proof (rule store64_outside)
  have fit: "unat (of_nat (8 * i) :: u64) = 8 * i"
    using assms(2) unat_lt64 [of len] by (intro unat_of_nat_fits) simp
  have "unat len \<le> unat (a - s)" using assms(1) by (simp add: outside_frame_def word_less_nat_alt)
  then have le: "8 * Suc i \<le> unat (a - s)" using assms(2) by simp
  have eq: "a - slot s i = (a - s) - of_nat (8 * i)" by (simp add: slot_def)
  have "unat (a - slot s i) = unat (a - s) - unat (of_nat (8 * i) :: u64)"
    unfolding eq by (rule unat_sub_fits, subst fit) (use le in simp)
  then have "unat (a - slot s i) = unat (a - s) - 8 * i" unfolding fit .
  then show "\<not> a - slot s i < 8" using le by (simp add: word_less_nat_alt)
qed

lemma save_x1_x18_outside:
  assumes "exec mc save_runtime_context_x1_x18 (c, m) = (c', m')" "outside_frame (sp_el1 c) len a"
    "176 \<le> unat len"
  shows "m' a = m a"
  using assms by (auto simp: save_runtime_context_x1_x18_def store_slot_outside)

section \<open>Interrupts\<close>

text \<open>
  Pointer authentication as the architecture documents it: authenticating a signed pointer with the
  same modifier gives the pointer back.
\<close>

definition pac_ok :: "machine \<Rightarrow> bool" where
  "pac_ok mc \<longleftrightarrow> (\<forall>p s. pac_auth mc (pac_sign mc p s) s = p)"

lemma rt_mem_set_mem [simp]: "rt_mem (set_mem m st) = m" "set_mem m (set_mem m' st) = set_mem m st"
    "set_mem (rt_mem st) st = st" "rt_irq (set_mem m st) = rt_irq st"
  by (simp_all add: rt_mem_def set_mem_def)

lemma irq_frame:
  assumes "exec mc save_runtime_context_irq (c, m) = (c', m')"
  defines "s \<equiv> sp_el1 c - 192"
  shows "framed mc c s m'" "load64 m' (slot s 22) = xr c 0" "sp_el1 c' = s"
    "\<And>i. 18 < i \<Longrightarrow> i \<noteq> 29 \<Longrightarrow> i \<noteq> 30 \<Longrightarrow> xr c' i = xr c i" "xr c' 29 = s"
    "elr_el1 c' = elr_el1 c" "spsr_el1 c' = spsr_el1 c" "esr_el1 c' = esr_el1 c" "sp_el0 c' = sp_el0 c"
    "outside_frame s 192 a \<Longrightarrow> m' a = m a"
proof -
  let ?c = "c\<lparr>sp_el1 := s\<rparr>"
  obtain d k where d: "exec mc save_runtime_context_x1_x18 (?c, m) = (d, k)" by (metis surj_pair)
  note saved = save_x1_x18 [OF d]
  have x0: "xr d 0 = xr c 0" and sp: "sp_el1 d = s" by (simp_all add: saved(2))
  have c': "c' = d" and m': "m' = store64 (store64 k (slot s 22) (xr c 0)) (slot s 23) 0"
    using assms(1) d x0 sp by (simp_all add: save_runtime_context_irq_def exec_append s_def)
  show "framed mc c s m'" using saved(1) by (simp add: framed_def slots_22 m' load_slot)
  show "load64 m' (slot s 22) = xr c 0" by (simp add: m' load_slot)
  show "outside_frame s 192 a \<Longrightarrow> m' a = m a"
    using save_x1_x18_outside [OF d, of 192 a] by (simp add: m' store_slot_outside)
  show "sp_el1 c' = s" "\<And>i. 18 < i \<Longrightarrow> i \<noteq> 29 \<Longrightarrow> i \<noteq> 30 \<Longrightarrow> xr c' i = xr c i" "xr c' 29 = s"
    "elr_el1 c' = elr_el1 c" "spsr_el1 c' = spsr_el1 c" "esr_el1 c' = esr_el1 c" "sp_el0 c' = sp_el0 c"
    by (auto simp: c' saved(2))
qed


section \<open>System calls\<close>

lemma framed_cong:
  assumes "framed mc c s m" "\<And>a. \<not> outside_frame s 176 a \<Longrightarrow> m' a = m a"
  shows "framed mc c s m'"
proof -
  have "load64 m' (slot s i) = load64 m (slot s i)" if i: "i < 22" for i
  proof (rule load64_cong)
    fix d :: u64 assume "d < 8"
    then have d: "unat d < 8" by (simp add: word_less_nat_alt)
    have fit: "unat (of_nat (8 * i) :: u64) = 8 * i" using i by (intro unat_of_nat_fits) simp
    have "unat (of_nat (8 * i) + d) = unat (of_nat (8 * i) :: u64) + unat d"
      by (rule unat_add_fits, subst fit) (use i d in simp)
    then have "unat (of_nat (8 * i) + d) < 176" using i d unfolding fit by simp
    moreover have "slot s i + d - s = of_nat (8 * i) + d" by (simp add: slot_def)
    ultimately have "unat (slot s i + d - s) < 176" by (simp only:)
    then have "\<not> outside_frame s 176 (slot s i + d)" by (simp add: outside_frame_def word_less_nat_alt)
    then show "m' (slot s i + d) = m (slot s i + d)" by (rule assms(2))
  qed
  then have "map (\<lambda>i. load64 m' (slot s i)) [0..<22] = map (\<lambda>i. load64 m (slot s i)) [0..<22]" by simp
  then show ?thesis using assms(1) unfolding framed_def by simp
qed

lemma syscall_frame:
  assumes "exec mc save_runtime_context_syscall (c, m) = (c', m')"
  defines "s \<equiv> sp_el1 c - 176"
  shows "framed mc c s m'" "outside_frame s 176 a \<Longrightarrow> m' a = m a"
    "c' = c\<lparr>sp_el1 := s, xr := (xr c)(17 := spsr_el1 c, 30 := pac_sign mc (elr_el1 c) s, 29 := s)\<rparr>"
proof -
  have d: "exec mc save_runtime_context_x1_x18 (c\<lparr>sp_el1 := s\<rparr>, m) = (c', m')"
    using assms(1) by (simp add: save_runtime_context_syscall_def s_def)
  show "framed mc c s m'" using save_x1_x18(1) [OF d] by (simp add: framed_def)
  show "outside_frame s 176 a \<Longrightarrow> m' a = m a" using save_x1_x18_outside [OF d, of 176 a] by simp
  show "c' = c\<lparr>sp_el1 := s, xr := (xr c)(17 := spsr_el1 c, 30 := pac_sign mc (elr_el1 c) s, 29 := s)\<rparr>"
    using save_x1_x18(2) [OF d] by simp
qed

text \<open>The restore gives back all registers but x0, if x19 to x28 were preserved.\<close>

lemma restore_syscall:
  assumes "pac_ok mc" "framed mc c s m" "sp_el1 d = s" "s = sp_el1 c - 176"
    "\<And>i. 18 < i \<Longrightarrow> i \<noteq> 29 \<Longrightarrow> i \<noteq> 30 \<Longrightarrow> xr d i = xr c i" "esr_el1 d = esr_el1 c" "sp_el0 d = sp_el0 c"
  shows "exec mc restore_runtime_context_syscall (d, m) = (set_x 0 (xr d 0) c, m)"
  using assms(1,4-) restore_x1_x18 [OF assms(2,3)]
  by (auto simp: restore_runtime_context_syscall_def exec_append pac_ok_def assms(3) intro!: cpu_eqI)

definition is_svc0 :: "cpu \<Rightarrow> bool" where
  "is_svc0 c \<longleftrightarrow> drop_bit 26 (esr_el1 c) = 0b010101 \<and> esr_el1 c AND 0xffff = 0"

text \<open>C22: the instruction svc 0 is a system call: the vector passes x0 to x5 and the number in x8 to aarch64_do_syscall and, as long as the call leaves the saved frame alone, resumes with the result in x0 and every other register, the stack pointer, the return address and the processor state as they were; a call that ends the application does not resume it.\<close>

theorem svc_is_system_call:
  assumes "pac_ok mc" "is_svc0 c" "m = snd (exec mc save_runtime_context_syscall (c, rt_mem st))"
    "aarch64_do_syscall pf (xr c 0) (xr c 1) (xr c 2) (xr c 3) (xr c 4) (xr c 5) (xr c 8) (set_mem m st) = Done r"
    "\<And>ret st' a. r = Returned ret st' \<Longrightarrow> \<not> outside_frame (sp_el1 c - 176) 176 a \<Longrightarrow> rt_mem st' a = m a"
  shows "vectors_aarch64 mc pf El1h_sync c st =
    Done (case r of Returned ret st' \<Rightarrow> Resumed (set_x 0 ret c) st' | Halted st' \<Rightarrow> Stopped st')"
proof -
  obtain d where d: "exec mc save_runtime_context_syscall (c, rt_mem st) = (d, m)"
    using assms(3) by (metis prod.collapse)
  note saved = syscall_frame [OF d]
  have svc: "drop_bit 26 (esr_el1 d) = 0b010101" "esr_el1 d AND 0xffff = 0"
    and args: "xr d 0 = xr c 0" "xr d 1 = xr c 1" "xr d 2 = xr c 2" "xr d 3 = xr c 3" "xr d 4 = xr c 4"
      "xr d 5 = xr c 5" "xr d 8 = xr c 8"
    using assms(2) by (simp_all add: is_svc0_def saved(3))
  show ?thesis
  proof (cases r)
    case (Returned ret st')
    let ?k = "set_x 6 (xr d 8) (set_x 11 (esr_el1 d AND 0xffff) (set_x 10 (drop_bit 26 (esr_el1 d)) (set_x 9 (esr_el1 d) d)))"
    have "framed mc c (sp_el1 c - 176) (rt_mem st')" by (rule framed_cong [OF saved(1)]) (rule assms(5) [OF Returned])
    then have "exec mc restore_runtime_context_syscall (c_return mc ret ?k, rt_mem st') =
        (set_x 0 (xr (c_return mc ret ?k) 0) c, rt_mem st')"
      by (rule restore_syscall [OF assms(1)]) (auto simp: c_return_def saved(3))
    then have "exec mc restore_runtime_context_syscall (c_return mc ret ?k, rt_mem st') = (set_x 0 ret c, rt_mem st')"
      by (simp add: c_return_def)
    then show ?thesis using assms(4) svc args by (simp add: d handle_el1h_sync_def Returned)
  next
    case (Halted st')
    then show ?thesis using assms(4) svc args by (simp add: d handle_el1h_sync_def)
  qed
qed

section \<open>Unhandled exceptions\<close>

definition frame_of :: "cpu \<Rightarrow> trap_frame" where
  "frame_of c =
     \<lparr>tf_x = map (xr c) [0..<29], tf_x30 = xr c 30, tf_spsr = spsr_el1 c, tf_esr = esr_el1 c,
      tf_sp_el0 = sp_el0 c, tf_sp_el1 = sp_el1 c, tf_x29 = xr c 29, tf_elr = elr_el1 c\<rparr>"

lemma slots_29: "[0..<29] = [0, 1, 2, 3, 4, 5, 6, 7, 8, 9, 10, 11, 12, 13, 14, 15, 16, 17, 18, 19, 20, 21, 22, 23, 24, 25, 26, 27, 28]"
  by code_simp

lemma save_full:
  assumes "exec mc save_runtime_context_full (c, m) = (c', m')"
  shows "load_trap_frame m' (sp_el1 c') = frame_of c" "sp_el1 c' = sp_el1 c - 288"
  using assms
  by (auto simp: save_runtime_context_full_def load_trap_frame_def frame_of_def slots_29 load_slot)

definition report ::
  "machine \<Rightarrow> platform \<Rightarrow> string \<Rightarrow> cpu \<Rightarrow> memory \<Rightarrow> runtime \<Rightarrow> trap_result outcome" where
  "report mc pf str c m st =
     bindc (dump_trap_frame (pf_tmp_log pf) (frame_of c) (rt_out st)) (\<lambda>out.
       panic_asm mc pf str (set_out out (set_mem m st)))"

lemma rt_out_set_mem [simp]: "rt_out (set_mem m st) = rt_out st"
  by (simp add: rt_out_def set_mem_def)

lemma save_and_panic_reports: "\<exists>m. save_and_panic mc pf True str c st = report mc pf str c m st"
proof -
  obtain d m where d: "exec mc save_runtime_context_full (c, rt_mem st) = (d, m)" by (metis surj_pair)
  then show ?thesis using save_full [OF d] by (auto simp: save_and_panic_def report_def)
qed

lemma report_set_mem: "report mc pf str c m (set_mem m' st) = report mc pf str c m st"
  by (simp add: report_def)

text \<open>What remains of a report once the message of the dump is printed.\<close>

lemma rt_ok_set_mem [simp]: "rt_ok (set_mem m st) \<longleftrightarrow> rt_ok st"
  by (simp add: rt_ok_def set_mem_def)

lemma panic_stops:
  assumes "pf_ok pf" "rt_ok st"
  shows "\<exists>st' t. panic_asm mc pf str st = Done (Stopped st') \<and>
    io (rt_irq st') = Wfe # exit_trigger 1 (rt_exit st) (Store ICC_IGRPEN1_EL1 0 # t)"
proof -
  let ?msg = "(''Panic: {:s} from PC {:#x}, FP {:#x}\<newline>'', [LogStr str, LogNum (panic_pc mc), LogNum (panic_fp mc)])"
  have "plain_logs [?msg]" by (simp add: no_side_align_def)
  then obtain st1 where st1: "rt_print pf [?msg] st = Done st1" "rt_ok st1" "rt_exit st1 = rt_exit st"
    using rt_print_ok [OF assms, of "[?msg]"] by metis
  obtain st' t where "(exit_loop pf 1 st1 :: unit completion outcome) = Done (Halted st')"
    "io (rt_irq st') = Wfe # exit_trigger 1 (rt_exit st1) (Store ICC_IGRPEN1_EL1 0 # t)"
    by (rule exit_loop_halts [OF assms(1) st1(2)])
  then show ?thesis using st1
    by (intro exI [of _ st'] exI [of _ t]) (simp add: panic_asm_def panic_def sys_exit_def)
qed

lemma report_stops:
  assumes "pf_ok pf" "rt_ok st"
  shows "\<exists>out st' t. dump_trap_frame (pf_tmp_log pf) (frame_of c) (rt_out st) = Done out \<and>
    report mc pf str c m st = Done (Stopped st') \<and>
    io (rt_irq st') = Wfe # exit_trigger 1 (rt_exit st) (Store ICC_IGRPEN1_EL1 0 # t)"
proof -
  have "length (pf_tmp_log pf) = 256" "log_ok (out_log (rt_out st))"
    using assms by (simp_all add: pf_ok_def rt_defs)
  then have "\<exists>out. dump_trap_frame (pf_tmp_log pf) (frame_of c) (rt_out st) = Done out \<and>
      log_ok (out_log out) \<and> out_console out = out_console (rt_out st)"
    unfolding dump_trap_frame_def
    by (intro log_calls_done) (simp_all add: dump_trap_frame_logs_def no_side_align_iff Let_def)
  then obtain out where out: "dump_trap_frame (pf_tmp_log pf) (frame_of c) (rt_out st) = Done out"
    "log_ok (out_log out)" "out_console out = out_console (rt_out st)" by blast
  then have "rt_ok (set_out out (set_mem m st))" using assms(2) by (simp add: rt_ok_def set_out_def set_mem_def rt_out_def)
  from panic_stops [OF assms(1) this, of mc str] show ?thesis
    by (auto simp: report_def out(1) set_out_def set_mem_def)
qed

lemma sync_reports:
  assumes "pac_ok mc" "\<not> is_svc0 c"
  shows "\<exists>m. vectors_aarch64 mc pf El1h_sync c st = report mc pf ''EL1h sync exception not handled'' c m st"
proof -
  obtain d m where d: "exec mc save_runtime_context_syscall (c, rt_mem st) = (d, m)" by (metis surj_pair)
  note saved = syscall_frame [OF d]
  let ?k = "set_x 11 (esr_el1 d AND 0xffff) (set_x 10 (drop_bit 26 (esr_el1 d)) (set_x 9 (esr_el1 d) d))"
  have "exec mc restore_runtime_context_syscall (?k, m) = (set_x 0 (xr ?k 0) c, m)"
    by (rule restore_syscall [OF assms(1) saved(1)]) (auto simp: saved(3))
  moreover have "set_x 0 (xr ?k 0) c = c" by (rule cpu_eqI) (simp_all add: saved(3))
  ultimately have r: "exec mc restore_runtime_context_syscall (?k, m) = (c, m)" by simp
  obtain m' where "save_and_panic mc pf True ''EL1h sync exception not handled'' c (set_mem m st) =
      report mc pf ''EL1h sync exception not handled'' c m' (set_mem m st)"
    using save_and_panic_reports by blast
  then show ?thesis using assms(2) r
    by (auto simp: d handle_el1h_sync_def is_svc0_def saved(3) report_set_mem)
qed

definition reports_registers :: "exception \<Rightarrow> cpu \<Rightarrow> bool" where
  "reports_registers e c \<longleftrightarrow>
     e \<in> {El1t_sync, El1t_irq, El1t_fiq, El1t_serror, El1h_fiq, El1h_serror} \<or> e = El1h_sync \<and> \<not> is_svc0 c"

lemma vectors_report:
  "pac_ok mc \<Longrightarrow> reports_registers e c \<Longrightarrow> \<exists>str m. vectors_aarch64 mc pf e c st = report mc pf str c m st"
  using sync_reports [of mc c] save_and_panic_reports [of mc pf _ c st]
  by (fastforce simp: reports_registers_def)

text \<open>C24: an exception of the runtime itself that it does not handle is fatal but reported: the frame that is printed holds the registers of the moment of the exception, x0 to x30, the stack pointers, the return address, the processor state and the syndrome; then the exit function is called with 1 and the processor halts.\<close>

theorem unhandled_exception_reported:
  assumes "pac_ok mc" "pf_ok pf" "rt_ok st" "reports_registers e c"
  shows "\<exists>str m out st' t. dump_trap_frame (pf_tmp_log pf) (frame_of c) (rt_out st) = Done out \<and>
    vectors_aarch64 mc pf e c st = panic_asm mc pf str (set_out out (set_mem m st)) \<and>
    vectors_aarch64 mc pf e c st = Done (Stopped st') \<and>
    io (rt_irq st') = Wfe # exit_trigger 1 (rt_exit st) (Store ICC_IGRPEN1_EL1 0 # t)"
proof -
  obtain str m where r: "vectors_aarch64 mc pf e c st = report mc pf str c m st"
    using vectors_report [OF assms(1,4)] by blast
  obtain out st' t where "dump_trap_frame (pf_tmp_log pf) (frame_of c) (rt_out st) = Done out"
    "report mc pf str c m st = Done (Stopped st')"
    "io (rt_irq st') = Wfe # exit_trigger 1 (rt_exit st) (Store ICC_IGRPEN1_EL1 0 # t)"
    using report_stops [OF assms(2,3)] by blast
  moreover from this have "report mc pf str c m st = panic_asm mc pf str (set_out out (set_mem m st))"
    by (simp add: report_def)
  ultimately show ?thesis unfolding r by blast
qed

section \<open>A concrete processor\<close>

text \<open>Pointer authentication by exclusive or, and a processor that has executed \<open>svc 0\<close>.\<close>

definition example_machine :: machine where
  "example_machine = \<lparr>pac_sign = (\<lambda>p s. p XOR s), pac_auth = (\<lambda>p s. p XOR s), scratch = (\<lambda>i. 0xdead),
     panic_pc = 0x4000, panic_fp = 0x8000\<rparr>"

lemma example_machine_ok: "pac_ok example_machine"
  by (simp add: pac_ok_def example_machine_def xor.assoc)

definition example_cpu :: "u64 \<Rightarrow> cpu" where
  "example_cpu esr = \<lparr>xr = (\<lambda>i. if i = 8 then 96 else of_nat i), sp_el1 = 0x9000, elr_el1 = 0x1234,
     spsr_el1 = 5, esr_el1 = esr, sp_el0 = 0\<rparr>"


text \<open>The system call \<open>set_tid_address\<close>.\<close>

theorem svc_is_system_call_witness:
  "\<exists>st'. vectors_aarch64 example_machine quiet_platform El1h_sync (example_cpu 0x56000000) (runtime_start (\<lambda>_. 0) []) =
     Done (Resumed (set_x 0 1234 (example_cpu 0x56000000)) st')"
proof -
  let ?c = "example_cpu 0x56000000"
  let ?st = "runtime_start (\<lambda>_. 0) []"
  let ?m = "snd (exec example_machine save_runtime_context_syscall (?c, rt_mem ?st))"
  have svc: "is_svc0 ?c" by (simp add: is_svc0_def example_cpu_def)
  have "aarch64_do_syscall quiet_platform (xr ?c 0) (xr ?c 1) (xr ?c 2) (xr ?c 3) (xr ?c 4) (xr ?c 5) (xr ?c 8)
      (set_mem ?m ?st) = Done (Returned 1234 (set_mem ?m ?st))"
    by (simp add: aarch64_do_syscall_def quiet_platform_def linux_libc_def example_cpu_def sys_set_tid_address_def)
  from svc_is_system_call [OF example_machine_ok svc refl this] show ?thesis by auto
qed

text \<open>A data abort.\<close>

theorem unhandled_exception_reported_witness:
  "\<exists>st' t. vectors_aarch64 example_machine quiet_platform El1h_sync (example_cpu 0x96000045)
       ((runtime_start (\<lambda>_. 0) [])\<lparr>rt_exit := 0x4000\<rparr>) = Done (Stopped st') \<and>
     io (rt_irq st') = Wfe # Call_exit 0x4000 1 # Store ICC_IGRPEN1_EL1 0 # t"
proof -
  let ?st = "(runtime_start (\<lambda>_. 0) [])\<lparr>rt_exit := 0x4000\<rparr>"
  have ok: "rt_ok ?st" using runtime_start_ok [of "\<lambda>_. 0" "[]"] by (simp add: rt_ok_def)
  have "reports_registers El1h_sync (example_cpu 0x96000045)"
    by (simp add: reports_registers_def is_svc0_def example_cpu_def)
  from unhandled_exception_reported [OF example_machine_ok quiet_platform_ok ok this] show ?thesis
    by (auto simp: exit_trigger_def)
qed

end
