(* ===== verification/Regions.thy ===== *)
theory Regions
  imports CMachine
begin

text \<open>
  The contract between an allocator of page ranges and a client that maps and unmaps regions, and
  what it is worth to the client: whatever it asks for and gives back, in any order, the regions
  it holds never overlap and account for all that is mapped.
\<close>

datatype request = Map_pages nat | Unmap_region nat

text \<open>
  A client with a list of the regions it holds, each a first page and a number of pages. It maps new
  ones and unmaps the region at a position of its list.
\<close>

fun run_requests ::
  "(nat \<Rightarrow> 's \<Rightarrow> (nat option \<times> 's) outcome) \<Rightarrow> (nat \<Rightarrow> nat \<Rightarrow> 's \<Rightarrow> 's outcome) \<Rightarrow>
     request list \<Rightarrow> (nat \<times> nat) list \<Rightarrow> 's \<Rightarrow> ((nat \<times> nat) list \<times> 's) outcome" where
  "run_requests grab release [] held s = Done (held, s)"
| "run_requests grab release (Map_pages n # rs) held s =
     bindc (grab n s) (\<lambda>(r, s).
       run_requests grab release rs (case r of None \<Rightarrow> held | Some p \<Rightarrow> (p, n) # held) s)"
| "run_requests grab release (Unmap_region i # rs) held s =
     (if i < length held then
        bindc (release (fst (held ! i)) (snd (held ! i)) s) (\<lambda>s.
          run_requests grab release rs (take i held @ drop (Suc i) held) s)
      else run_requests grab release rs held s)"

definition region :: "nat \<times> nat \<Rightarrow> nat set" where
  "region r = {fst r..<fst r + snd r}"

definition separate :: "(nat \<times> nat) list \<Rightarrow> bool" where
  "separate rs \<longleftrightarrow> sorted_wrt (\<lambda>r s. region r \<inter> region s = {}) rs"

lemma separate_remove:
  assumes "separate rs" "i < length rs"
  shows "separate (take i rs @ drop (Suc i) rs)"
    "(\<Union>r \<in> set (take i rs @ drop (Suc i) rs). region r) = (\<Union>r \<in> set rs. region r) - region (rs ! i)"
proof -
  have rs: "rs = take i rs @ rs ! i # drop (Suc i) rs" using assms(2) by (rule id_take_nth_drop)
  have "separate (take i rs @ rs ! i # drop (Suc i) rs)" using assms(1) rs by simp
  then have sep: "sorted_wrt (\<lambda>r s. region r \<inter> region s = {}) (take i rs @ drop (Suc i) rs)"
    "\<forall>r \<in> set (take i rs). region r \<inter> region (rs ! i) = {}"
    "\<forall>r \<in> set (drop (Suc i) rs). region (rs ! i) \<inter> region r = {}"
    by (auto simp: separate_def sorted_wrt_append)
  then show "separate (take i rs @ drop (Suc i) rs)" by (simp add: separate_def)
  have "set rs = set (take i rs) \<union> {rs ! i} \<union> set (drop (Suc i) rs)" by (subst rs) auto
  then show "(\<Union>r \<in> set (take i rs @ drop (Suc i) rs). region r) = (\<Union>r \<in> set rs. region r) - region (rs ! i)"
    using sep(2,3) by auto
qed

locale region_allocator =
  fixes inv :: "'s \<Rightarrow> bool"
    and mapped :: "'s \<Rightarrow> nat set"
    and fits :: "'s \<Rightarrow> nat \<times> nat \<Rightarrow> bool"
    and limit :: nat
    and grab :: "nat \<Rightarrow> 's \<Rightarrow> (nat option \<times> 's) outcome"
    and release :: "nat \<Rightarrow> nat \<Rightarrow> 's \<Rightarrow> 's outcome"
  assumes grab: "inv s \<Longrightarrow> 0 < n \<Longrightarrow> n < limit \<Longrightarrow>
      \<exists>r s'. grab n s = Done (r, s') \<and> inv s' \<and> (\<forall>q. fits s q \<longrightarrow> fits s' q) \<and>
        (case r of
           None \<Rightarrow> mapped s' = mapped s
         | Some p \<Rightarrow> fits s' (p, n) \<and> region (p, n) \<inter> mapped s = {} \<and> mapped s' = mapped s \<union> region (p, n))"
    and release: "inv s \<Longrightarrow> 0 < n \<Longrightarrow> n < limit \<Longrightarrow> fits s (p, n) \<Longrightarrow> region (p, n) \<subseteq> mapped s \<Longrightarrow>
      \<exists>s'. release p n s = Done s' \<and> inv s' \<and> (\<forall>q. fits s q \<longrightarrow> fits s' q) \<and>
        mapped s' = mapped s - region (p, n)"
begin

definition accounts :: "(nat \<times> nat) list \<Rightarrow> 's \<Rightarrow> bool" where
  "accounts held s \<longleftrightarrow>
     separate held \<and> mapped s = (\<Union>r \<in> set held. region r) \<and>
     (\<forall>r \<in> set held. fits s r \<and> 0 < snd r \<and> snd r < limit)"

lemma grab_accounts:
  assumes "inv s" "accounts held s" "0 < n" "n < limit"
  obtains r s' where "grab n s = Done (r, s')" "inv s'"
    "accounts (case r of None \<Rightarrow> held | Some p \<Rightarrow> (p, n) # held) s'"
proof -
  obtain r s' where g: "grab n s = Done (r, s')" "inv s'" "\<forall>q. fits s q \<longrightarrow> fits s' q"
    "case r of
       None \<Rightarrow> mapped s' = mapped s
     | Some p \<Rightarrow> fits s' (p, n) \<and> region (p, n) \<inter> mapped s = {} \<and> mapped s' = mapped s \<union> region (p, n)"
    using grab [OF assms(1,3,4)] by blast
  have "accounts (case r of None \<Rightarrow> held | Some p \<Rightarrow> (p, n) # held) s'"
    using assms(2-4) g(3,4) by (cases r) (auto simp: accounts_def separate_def)
  with g(1,2) show thesis by (rule that)
qed

lemma release_accounts:
  assumes "inv s" "accounts held s" "i < length held"
  obtains s' where "release (fst (held ! i)) (snd (held ! i)) s = Done s'" "inv s'"
    "accounts (take i held @ drop (Suc i) held) s'"
proof -
  have mem: "held ! i \<in> set held" using assms(3) by simp
  then have fits: "fits s (held ! i)" "0 < snd (held ! i)" "snd (held ! i) < limit"
    "region (held ! i) \<subseteq> mapped s"
    using assms(2) by (auto simp: accounts_def)
  obtain s' where s': "release (fst (held ! i)) (snd (held ! i)) s = Done s'" "inv s'"
    "\<forall>q. fits s q \<longrightarrow> fits s' q" "mapped s' = mapped s - region (held ! i)"
    using release [of s "snd (held ! i)" "fst (held ! i)"] assms(1) fits by auto
  let ?rest = "take i held @ drop (Suc i) held"
  have sep: "separate held" and all: "mapped s = (\<Union>r \<in> set held. region r)"
    and each: "\<forall>r \<in> set held. fits s r \<and> 0 < snd r \<and> snd r < limit"
    using assms(2) unfolding accounts_def by blast+
  have "set ?rest \<subseteq> set held"
    using set_take_subset [of i held] set_drop_subset [of "Suc i" held] by auto
  then have "\<forall>r \<in> set ?rest. fits s' r \<and> 0 < snd r \<and> snd r < limit" using each s'(3) by blast
  then have "accounts ?rest s'"
    unfolding accounts_def s'(4) all separate_remove(2) [OF sep assms(3)]
    using separate_remove(1) [OF sep assms(3)] by blast
  with s'(1,2) show thesis by (rule that)
qed

text \<open>The client's view: every sequence of requests runs through and keeps the account.\<close>

lemma requests_account:
  "inv s \<Longrightarrow> accounts held s \<Longrightarrow> \<forall>n. Map_pages n \<in> set rs \<longrightarrow> 0 < n \<and> n < limit \<Longrightarrow>
     \<exists>held' s'. run_requests grab release rs held s = Done (held', s') \<and> inv s' \<and> accounts held' s'"
proof (induction rs arbitrary: held s)
  case (Cons r rs)
  show ?case
  proof (cases r)
    case (Map_pages n)
    then have n: "0 < n" "n < limit" using Cons.prems(3) by auto
    obtain p s' where "grab n s = Done (p, s')" "inv s'"
      "accounts (case p of None \<Rightarrow> held | Some p \<Rightarrow> (p, n) # held) s'"
      by (rule grab_accounts [OF Cons.prems(1,2) n])
    then show ?thesis using Cons.IH Cons.prems(3) Map_pages by simp
  next
    case (Unmap_region i)
    show ?thesis
    proof (cases "i < length held")
      case True
      obtain s' where "release (fst (held ! i)) (snd (held ! i)) s = Done s'" "inv s'"
        "accounts (take i held @ drop (Suc i) held) s'"
        by (rule release_accounts [OF Cons.prems(1,2) True])
      then show ?thesis using Cons.IH Cons.prems(3) Unmap_region True by simp
    next
      case False
      then show ?thesis using Cons Unmap_region by simp
    qed
  qed
qed simp

end

end
