(* ===== verification/MmapRegions.thy ===== *)
theory MmapRegions
  imports MmapSpec Regions
begin

text \<open>
  The page allocator of \<^verbatim>\<open>src/mmap.c\<close> as a provider of regions: \<open>sys_mmap\<close> and \<open>sys_munmap\<close> obey the
  laws of the locale \<open>region_allocator\<close>. The laws need that neither call moves a heap, which
  is read off the code, function by function.
\<close>

section \<open>Heaps stay where they are\<close>

definition same_place :: "mmap_node \<Rightarrow> mmap_node \<Rightarrow> bool" where
  "same_place n n' \<longleftrightarrow> nd_base n' = nd_base n \<and> nd_size n' = nd_size n"

lemma same_place_refl [simp]: "same_place n n"
  by (simp add: same_place_def)

lemma same_place_all [simp]: "list_all2 same_place ns ns"
  by (simp add: list_all2_refl)

lemma same_place_update [simp]:
  "same_place node (node\<lparr>nd_free_pages := free\<rparr>)"
  "same_place node (node\<lparr>nd_free_pages := free, nd_avail_blocks := avail\<rparr>)"
  by (simp_all add: same_place_def)

lemma range_loop_round:
  assumes "update_range_loop s b node c r = Done (node', c')" "0 < r"
  shows "\<exists>node1. update_range_loop s b node1 (c + min r (64 - c mod 64)) (r - min r (64 - c mod 64)) = Done (node', c') \<and>
    same_place node node1"
  using assms(1) [unfolded update_range_loop.simps [of s b node c r]] assms(2)
  by (auto simp: Let_def outcome_Done split: if_splits; rule exI, rule conjI, assumption, simp)

lemma update_range_loop_place:
  "update_range_loop s b node c r = Done (node', c') \<Longrightarrow> same_place node node'"
proof (induction "unat r" arbitrary: node c r rule: less_induct)
  case less
  show ?case
  proof (cases "0 < r")
    case True
    obtain node1 where n: "same_place node node1"
      "update_range_loop s b node1 (c + min r (64 - c mod 64)) (r - min r (64 - c mod 64)) = Done (node', c')"
      using range_loop_round [OF less.prems True] by blast
    from less.hyps [OF chunk_width_decr [OF True] n(2)] n(1) show ?thesis by (simp add: same_place_def)
  next
    case False
    with less.prems show ?thesis by (subst (asm) update_range_loop.simps) simp
  qed
qed

lemma update_mmap_range_place:
  "update_mmap_range node s n b = Done node' \<Longrightarrow> same_place node node'"
  by (auto simp: update_mmap_range_def outcome_Done intro: update_range_loop_place)

lemma alloc_from_nodes_place:
  "alloc_from_nodes num ns = Done (ns', r) \<Longrightarrow> list_all2 same_place ns ns'"
proof (induction ns arbitrary: ns' r)
  case (Cons n ns)
  then show ?case
    by (auto simp: outcome_Done intro: update_mmap_range_place split: option.splits)
qed simp

lemma free_in_nodes_place:
  "free_in_nodes addr len ns = Done (Some ns') \<Longrightarrow> list_all2 same_place ns ns'"
proof (induction ns arbitrary: ns')
  case (Cons n ns)
  then show ?case
    by (auto simp: outcome_Done intro: update_mmap_range_place split: if_splits)
qed simp

lemma sys_mmap_place:
  "sys_mmap addr len prot flags fd off st = Done (r, st') \<Longrightarrow>
     list_all2 same_place (mmap_node_list st) (mmap_node_list st')"
  by (auto simp: sys_mmap_def alloc_mmap_def finish_alloc_def mm_log_def outcome_Done Let_def
      split: if_splits option.splits prod.splits; erule alloc_from_nodes_place)

lemma sys_munmap_place:
  "sys_munmap addr len st = Done (e, st') \<Longrightarrow>
     list_all2 same_place (mmap_node_list st) (mmap_node_list st')"
  by (auto simp: sys_munmap_def free_mmap_def outcome_Done
      split: if_splits option.splits; erule free_in_nodes_place)

section \<open>Regions of pages\<close>

definition heap_region :: "mmap_state \<Rightarrow> nat \<times> nat \<Rightarrow> bool" where
  "heap_region st r \<longleftrightarrow>
     0 < fst r \<and> fst r + snd r < 2 ^ 52 \<and> (\<exists>node \<in> set (mmap_node_list st). holds_pages (fst r) (snd r) node)"

lemma heap_region_kept:
  assumes "list_all2 same_place (mmap_node_list st) (mmap_node_list st')" "heap_region st r"
  shows "heap_region st' r"
proof -
  obtain node where node: "node \<in> set (mmap_node_list st)" "holds_pages (fst r) (snd r) node"
    using assms(2) by (auto simp: heap_region_def)
  then obtain node' where "node' \<in> set (mmap_node_list st')" "same_place node node'"
    using assms(1) by (metis in_set_conv_nth list_all2_conv_all_nth)
  moreover from this have "holds_pages (fst r) (snd r) node'"
    using node(2) by (simp add: holds_pages_def same_place_def base_page_def end_page_def node_pages_def)
  ultimately show ?thesis using assms(2) by (auto simp: heap_region_def)
qed

text \<open>
  What an application does with the two calls: it maps anonymous memory and takes the answer for
  an address unless it is the error, and it expects that what it mapped can be unmapped.
\<close>

definition mmap_pages :: "nat \<Rightarrow> mmap_state \<Rightarrow> (nat option \<times> mmap_state) outcome" where
  "mmap_pages n st =
     bindc (sys_mmap 0 (of_nat (4096 * n)) MMAP_RW MMAP_ANON_PRIVATE (- 1) 0 st) (\<lambda>(r, st).
       Done (if r = - of_int ENOMEM then None else Some (unat r div 4096), st))"

definition munmap_pages :: "nat \<Rightarrow> nat \<Rightarrow> mmap_state \<Rightarrow> mmap_state outcome" where
  "munmap_pages p n st =
     bindc (sys_munmap (of_nat (4096 * p)) (of_nat (4096 * n)) st) (\<lambda>(e, st). ensure (e = 0) (Done st))"

lemma page_words:
  assumes "n < 2 ^ 52"
  shows "unat (of_nat (4096 * n) :: u64) = 4096 * n"
  using assms by (intro unat_of_nat_fits) simp

lemma mmap_pages_law:
  assumes inv: "mmap_inv st" and n: "0 < n" "n < 2 ^ 52"
  shows "\<exists>r st'. mmap_pages n st = Done (r, st') \<and> mmap_inv st' \<and> (\<forall>q. heap_region st q \<longrightarrow> heap_region st' q) \<and>
    (case r of
       None \<Rightarrow> mapped_pages st' = mapped_pages st
     | Some p \<Rightarrow> heap_region st' (p, n) \<and> region (p, n) \<inter> mapped_pages st = {} \<and>
         mapped_pages st' = mapped_pages st \<union> region (p, n))"
proof -
  let ?len = "of_nat (4096 * n) :: u64"
  note len = page_words [OF n(2)]
  have "?len \<noteq> 0" using len n(1) by (auto simp del: of_nat_mult)
  then have "sys_mmap 0 ?len MMAP_RW MMAP_ANON_PRIVATE (- 1) 0 st = alloc_mmap ?len st"
    using len by (intro sys_mmap_cases(1)) (simp add: mmap_args_ok_def del: of_nat_mult)
  note eq = this
  have kept: "heap_region st q \<longrightarrow> heap_region st' q" if "alloc_mmap ?len st = Done (a, st')" for a st' q
    using heap_region_kept [OF sys_mmap_place] that unfolding eq [symmetric] by blast
  show ?thesis
  proof (cases "alloc_page st n")
    case None
    then obtain logs where "alloc_mmap ?len st = Done (- of_int ENOMEM, st\<lparr>mm_logs := mm_logs st @ logs\<rparr>)"
      using alloc_mmap_contract [OF inv len n(1)] by auto
    then show ?thesis using inv unfolding mmap_pages_def eq by (auto simp: heap_region_def)
  next
    case (Some p)
    then obtain a st' where a: "alloc_mmap ?len st = Done (a, st')" "unat a = 4096 * p" "takes_pages p n st st'"
      "mmap_inv st'"
      using alloc_mmap_contract [OF inv len n(1)] by auto
    have "a \<noteq> - of_int ENOMEM"
    proof
      assume "a = - of_int ENOMEM"
      then have "unat a mod 4096 = 4084" by simp
      with a(2) show False by simp
    qed
    then have "mmap_pages n st = Done (Some p, st')" using a(1,2) unfolding mmap_pages_def eq by simp
    moreover have "heap_region st' (p, n)" using a(3) by (simp add: takes_pages_def heap_region_def)
    ultimately show ?thesis using a(3,4) kept [OF a(1)] by (auto simp: takes_pages_def region_def)
  qed
qed

lemma munmap_pages_law:
  assumes inv: "mmap_inv st" and n: "0 < n" "n < 2 ^ 52" and r: "heap_region st (p, n)" "region (p, n) \<subseteq> mapped_pages st"
  shows "\<exists>st'. munmap_pages p n st = Done st' \<and> mmap_inv st' \<and> (\<forall>q. heap_region st q \<longrightarrow> heap_region st' q) \<and>
    mapped_pages st' = mapped_pages st - region (p, n)"
proof -
  let ?a = "of_nat (4096 * p) :: u64" and ?len = "of_nat (4096 * n) :: u64"
  have p: "0 < p" "p + n < 2 ^ 52" using r(1) by (simp_all add: heap_region_def)
  obtain node where node: "node \<in> set (mmap_node_list st)" "holds_pages p n node"
    using r(1) by (auto simp: heap_region_def)
  have a: "unat ?a = 4096 * p" using p by (intro page_words) simp
  obtain st' where st': "sys_munmap ?a ?len st = Done (0, st')" "gives_pages p n st st'" "mmap_inv st'"
    by (rule munmap_mapped [OF inv a page_words [OF n(2)] p(1) n(1) p(2) node])
      (use r(2) in \<open>simp_all add: region_def\<close>)
  then have "munmap_pages p n st = Done st'" unfolding munmap_pages_def by simp
  moreover have "\<forall>q. heap_region st q \<longrightarrow> heap_region st' q"
    using heap_region_kept [OF sys_munmap_place [OF st'(1)]] by blast
  ultimately show ?thesis using st'(2,3) by (auto simp: gives_pages_def region_def)
qed

interpretation pages: region_allocator mmap_inv mapped_pages heap_region "2 ^ 52" mmap_pages munmap_pages
  by unfold_locales (rule mmap_pages_law munmap_pages_law; assumption)+

section \<open>Applications\<close>

text \<open>C5: whatever an application maps and unmaps, in any order, the mappings it holds never overlap: every sequence of calls of sys_mmap and of sys_munmap for mappings that are held runs through without a failed assertion or an error of sys_munmap, keeps the invariant, and at its end the mapped pages are exactly those of the mappings that are held, each page in one of them.\<close>

theorem live_mappings_separate:
  assumes "mmap_inv st" "mapped_pages st = {}" "\<forall>n. Map_pages n \<in> set rs \<longrightarrow> 0 < n \<and> n < 2 ^ 52"
  shows "\<exists>held st'. run_requests mmap_pages munmap_pages rs [] st = Done (held, st') \<and> mmap_inv st' \<and>
    separate held \<and> mapped_pages st' = (\<Union>r \<in> set held. region r)"
proof -
  have "pages.accounts [] st" unfolding pages.accounts_def using assms(2) by (simp add: separate_def)
  from pages.requests_account [OF assms(1) this assms(3)] show ?thesis
    unfolding pages.accounts_def by blast
qed

text \<open>Two mappings in the example state, of which the first is unmapped and mapped again.\<close>

theorem live_mappings_separate_witness:
  "\<exists>held st'. run_requests mmap_pages munmap_pages [Map_pages 2, Map_pages 3, Unmap_region 1, Map_pages 2] [] two_heaps =
     Done (held, st') \<and> separate held \<and> mapped_pages st' = (\<Union>r \<in> set held. region r)"
  using live_mappings_separate [OF two_heaps_add(2,3),
      of "[Map_pages 2, Map_pages 3, Unmap_region 1, Map_pages 2]"] by auto

end
