(* ===== verification/Machine.thy ===== *)
theory Machine
  imports StartSpec VectorsSpec
begin

text \<open>
  The runtime under an application, at the level of the processor: the application computes on
  the registers and on memory, and the runtime is entered through the exception vectors only.
  Every such run is one of the runtime's own reachable states, so that the safety of the system
  calls carries over to the machine.
\<close>

section \<open>The machine\<close>

text \<open>The memory in which \<open>svc 0\<close> hands its arguments over, with the registers saved.\<close>

definition trap_entry :: "machine \<Rightarrow> cpu \<Rightarrow> runtime \<Rightarrow> runtime" where
  "trap_entry mc c st = set_mem (snd (exec mc save_runtime_context_syscall (c, rt_mem st))) st"

text \<open>The application keeps its part of the contract of the call it makes.\<close>

definition trap_ok :: "machine \<Rightarrow> platform \<Rightarrow> exception \<Rightarrow> cpu \<Rightarrow> runtime \<Rightarrow> bool" where
  "trap_ok mc pf e c st \<longleftrightarrow>
     (e = El1h_sync \<and> is_svc0 c \<longrightarrow> call_ok pf (xr c 0) (xr c 1) (xr c 2) (xr c 8) (trap_entry mc c st))"

inductive machine_reachable :: "machine \<Rightarrow> platform \<Rightarrow> cpu \<Rightarrow> runtime \<Rightarrow> bool" for mc pf where
  machine_start: "devices_ok (pf_env pf) e k (ed_timer_freq (load_env_data m (img_env_data img))) \<Longrightarrow>
    boot_area_ok abi img m (mmap_initial m) \<Longrightarrow>
    start_runtime pf abi hvc img (runtime_image m t) = Done (guard, app_entry, app_stack, st) \<Longrightarrow>
    sp_el1 c = app_stack \<Longrightarrow> elr_el1 c = app_entry \<Longrightarrow> machine_reachable mc pf c st"
| machine_app: "machine_reachable mc pf c st \<Longrightarrow> machine_reachable mc pf c' (set_mem m st)"
| machine_trap: "machine_reachable mc pf c st \<Longrightarrow> trap_ok mc pf e c st \<Longrightarrow>
    vectors_aarch64 mc pf e c st = Done (Resumed c' st') \<Longrightarrow> machine_reachable mc pf c' st'"

section \<open>A trap that returns is a call or an interrupt\<close>

text \<open>The restoring sequences do not write memory.\<close>

lemma restore_memory:
  "snd (exec mc restore_runtime_context_x1_x18 (c, m)) = m"
  "snd (exec mc restore_runtime_context_syscall (c, m)) = m"
  "snd (exec mc restore_runtime_context_irq (c, m)) = m"
  by (simp_all add: restore_runtime_context_x1_x18_def restore_runtime_context_syscall_def
      restore_runtime_context_irq_def)

lemma panic_not_resumed: "panic_asm mc pf str st \<noteq> Done (Resumed c st')"
  by (auto simp: panic_asm_def bindc_eq_Done split: completion.splits)

lemma save_and_panic_not_resumed: "save_and_panic mc pf dump str c st \<noteq> Done (Resumed c' st')"
  by (auto simp: save_and_panic_def bindc_eq_Done panic_not_resumed Let_def split: prod.splits)

lemma sync_resumed:
  assumes "vectors_aarch64 mc pf El1h_sync c st = Done (Resumed c' st')"
  shows "is_svc0 c \<and> (\<exists>ret. aarch64_do_syscall pf (xr c 0) (xr c 1) (xr c 2) (xr c 3) (xr c 4) (xr c 5) (xr c 8)
    (trap_entry mc c st) = Done (Returned ret st'))"
proof -
  obtain d m where d: "exec mc save_runtime_context_syscall (c, rt_mem st) = (d, m)" by (metis surj_pair)
  have same: "esr_el1 d = esr_el1 c" "\<And>i. i < 9 \<Longrightarrow> xr d i = xr c i"
    using syscall_frame(3) [OF d] by simp_all
  have entry: "trap_entry mc c st = set_mem m st" by (simp add: trap_entry_def d)
  have svc: "is_svc0 c"
  proof (rule ccontr)
    assume "\<not> is_svc0 c"
    then show False using assms
      by (auto simp: d handle_el1h_sync_def is_svc0_def same(1) save_and_panic_not_resumed Let_def split: prod.splits)
  qed
  then have esr: "drop_bit 26 (esr_el1 d) = 0b010101" "esr_el1 d AND 0xffff = 0" by (simp_all add: is_svc0_def same(1))
  let ?call = "aarch64_do_syscall pf (xr c 0) (xr c 1) (xr c 2) (xr c 3) (xr c 4) (xr c 5) (xr c 8) (set_mem m st)"
  obtain r where r: "?call = Done r"
    using assms esr by (auto simp: d handle_el1h_sync_def same(2) bindc_eq_Done Let_def)
  then obtain ret st1 where ret: "r = Returned ret st1"
    using assms esr by (cases r) (auto simp: d handle_el1h_sync_def same(2) Let_def)
  have "set_mem (snd (exec mc restore_runtime_context_syscall (k, rt_mem st1))) st1 = st1" for k
    by (simp add: restore_memory(2))
  then have "st' = st1"
    using assms esr r ret by (auto simp: d handle_el1h_sync_def same(2) Let_def split_beta)
  with svc entry r ret show ?thesis by auto
qed

lemma irq_resumed:
  assumes "vectors_aarch64 mc pf El1h_irq c st = Done (Resumed c' st')"
  shows "\<exists>irq m. interrupt_dispatch (pf_env pf) (rt_irq st) = Done irq \<and> st' = set_mem m (st\<lparr>rt_irq := irq\<rparr>)"
  using assms
  by (auto simp: handle_el1h_irq_def bindc_eq_Done Let_def set_mem_def split_beta)

lemma other_not_resumed:
  "vectors_aarch64 mc pf e c st = Done (Resumed c' st') \<Longrightarrow> e = El1h_sync \<or> e = El1h_irq"
  by (cases e) (simp_all add: save_and_panic_not_resumed)

section \<open>Refinement\<close>

lemma reach_set_mem: "rt_reachable pf st \<Longrightarrow> rt_reachable pf (set_mem m st)"
  unfolding set_mem_def by (rule reach_app)

lemma trap_reachable:
  assumes "rt_reachable pf st" "trap_ok mc pf e c st" "vectors_aarch64 mc pf e c st = Done (Resumed c' st')"
  shows "rt_reachable pf st'"
proof (cases "e = El1h_irq")
  case True
  then show ?thesis using irq_resumed assms(1,3) by (blast intro: reach_irq reach_set_mem)
next
  case False
  then have e: "e = El1h_sync" using other_not_resumed [OF assms(3)] by blast
  then obtain ret where call: "is_svc0 c"
    "aarch64_do_syscall pf (xr c 0) (xr c 1) (xr c 2) (xr c 3) (xr c 4) (xr c 5) (xr c 8) (trap_entry mc c st) =
      Done (Returned ret st')"
    using sync_resumed assms(3) by blast
  have "rt_reachable pf (trap_entry mc c st)" unfolding trap_entry_def by (rule reach_set_mem [OF assms(1)])
  then show ?thesis using reach_call call assms(2) e by (auto simp: trap_ok_def)
qed

lemma machine_is_reachable: "machine_reachable mc pf c st \<Longrightarrow> rt_reachable pf st"
  by (induction rule: machine_reachable.induct) (auto intro: reach_start reach_set_mem trap_reachable)

text \<open>What an exception can come to, in a good state.\<close>

lemma panic_done:
  assumes "pf_ok pf" "rt_ok st"
  shows "\<exists>st'. save_and_panic mc pf dump str c st = Done (Stopped st')"
proof (cases dump)
  case True
  then show ?thesis using save_and_panic_reports report_stops [OF assms] by metis
next
  case False
  obtain d m where "exec mc save_runtime_context_full (c, rt_mem st) = (d, m)" by (metis surj_pair)
  then show ?thesis using panic_stops [OF assms(1), of "set_mem m st"] assms(2) False
    by (auto simp: save_and_panic_def)
qed

lemma sync_faults:
  assumes "pf_ok pf" "rt_ok st" "vectors_aarch64 mc pf El1h_sync c st = Fault f"
  shows "is_svc0 c \<and> aarch64_do_syscall pf (xr c 0) (xr c 1) (xr c 2) (xr c 3) (xr c 4) (xr c 5) (xr c 8)
    (trap_entry mc c st) = Fault f"
proof -
  obtain d m where d: "exec mc save_runtime_context_syscall (c, rt_mem st) = (d, m)" by (metis surj_pair)
  have same: "esr_el1 d = esr_el1 c" "\<And>i. i < 9 \<Longrightarrow> xr d i = xr c i"
    using syscall_frame(3) [OF d] by simp_all
  have svc: "is_svc0 c"
  proof (rule ccontr)
    assume "\<not> is_svc0 c"
    moreover have "save_and_panic mc pf True str k (set_mem m' st) \<noteq> Fault f" for str k m'
      using panic_done [OF assms(1), of "set_mem m' st" mc True str k] assms(2) by auto
    ultimately show False using assms(3)
      by (auto simp: d handle_el1h_sync_def is_svc0_def same(1) Let_def split_beta)
  qed
  then have esr: "drop_bit 26 (esr_el1 d) = 0b010101" "esr_el1 d AND 0xffff = 0" by (simp_all add: is_svc0_def same(1))
  let ?call = "aarch64_do_syscall pf (xr c 0) (xr c 1) (xr c 2) (xr c 3) (xr c 4) (xr c 5) (xr c 8) (set_mem m st)"
  have "?call = Fault f"
  proof (cases ?call)
    case (Done r)
    then show ?thesis using assms(3) esr
      by (cases r) (simp_all add: d handle_el1h_sync_def same(2) Let_def split_beta)
  next
    case (Fault f')
    then show ?thesis using assms(3) esr by (simp add: d handle_el1h_sync_def same(2) Let_def)
  qed
  then show ?thesis using svc by (simp add: trap_entry_def d)
qed

lemma irq_not_stopped: "vectors_aarch64 mc pf El1h_irq c st \<noteq> Done (Stopped st')"
  by (auto simp: handle_el1h_irq_def bindc_eq_Done Let_def split_beta)

lemma trap_faults:
  assumes "pf_ok pf" "rt_ok st" "trap_ok mc pf e c st" "vectors_aarch64 mc pf e c st = Fault f"
  shows "e = El1h_sync \<and> is_svc0 c \<and> may_stop (pf_libc pf) (xr c 2) (xr c 8) \<or>
    e = El1h_irq \<and> interrupt_dispatch (pf_env pf) (rt_irq st) = Fault f"
proof -
  have no: "save_and_panic mc pf dump str c st \<noteq> Fault f" for dump str
    using panic_done [OF assms(1,2), of mc dump str c] by auto
  consider "e = El1h_sync" | "e = El1h_irq" using assms(4) no by (cases e) simp_all
  then show ?thesis
  proof cases
    case 1
    then have call: "is_svc0 c"
      "aarch64_do_syscall pf (xr c 0) (xr c 1) (xr c 2) (xr c 3) (xr c 4) (xr c 5) (xr c 8) (trap_entry mc c st) = Fault f"
      using sync_faults [OF assms(1,2)] assms(4) by blast+
    have "rt_ok (trap_entry mc c st)" using assms(2) by (simp add: trap_entry_def)
    moreover have "call_ok pf (xr c 0) (xr c 1) (xr c 2) (xr c 8) (trap_entry mc c st)"
      using assms(3) 1 call(1) by (simp add: trap_ok_def)
    ultimately have "call_result (may_stop (pf_libc pf) (xr c 2) (xr c 8)) (may_end (pf_libc pf) (xr c 8))
        (Fault f :: register_t completion outcome)"
      using syscall_result [OF assms(1)] call(2) by metis
    then show ?thesis using 1 call(1) by (simp add: call_result_def)
  next
    case 2
    then show ?thesis using assms(4)
      by (auto simp: handle_el1h_irq_def bindc_eq_Fault Let_def split_beta)
  qed
qed



end
