(* ===== verification/Entry.thy ===== *)
theory Entry
  imports Boot Reloc Vectors
begin

unbundle bit_operations_syntax

text \<open>
  The first instructions of the runtime: \<open>_start\<close> of \<^verbatim>\<open>arch/armv8/src/boot.S\<close>, from the entry by the
  hypervisor to the jump to the application. The word \<open>env_data\<close> and the boot stack are bytes of
  memory here; what the C functions called from \<open>_start\<close> leave on the boot stack is a parameter.
\<close>

section \<open>The processor at the start\<close>

text \<open>The system registers that \<open>_start\<close> reads or writes, its stack pointer, and where it jumps.\<close>

record boot_cpu =
  cpacr_el1 :: u64
  current_el :: u64
  vbar_el1 :: u64
  sp_sel :: u64
  id_aa64isar1_el1 :: u64
  apiakeylo_el1 :: u64
  apiakeyhi_el1 :: u64
  sctlr_el1 :: u64
  daif :: u64
  boot_sp :: u64
  boot_pc :: u64

text \<open>The addresses of the symbols that \<open>_start\<close> names.\<close>

record linkage =
  lk_env_data :: uintptr_t
  lk_vectors_aarch64 :: uintptr_t
  lk_boot_stack_bottom :: uintptr_t
  lk_dynamic :: uintptr_t

datatype boot_result = Entered boot_cpu uintptr_t runtime | Hung boot_cpu | Overflowed runtime

abbreviation (input) "BOOT_STACK_SIZE \<equiv> (1024 :: u64)"
abbreviation (input) "BOOT_STACK_CANARY \<equiv> (0xeb3a23d54a5267ab :: u64)"
abbreviation (input) "CPACR_EL1_FPEN_MASK \<equiv> (0x300000 :: u64)"
abbreviation (input) "CPACR_EL1_FPEN_ENABLE_EL1_SIMD \<equiv> (0x100000 :: u64)"
abbreviation (input) "SCTLR_EL1_ENIA_MASK \<equiv> (0x80000000 :: u64)"

section \<open>The steps\<close>

text \<open>Memory with the boot argument kept and the canary at the end of the boot stack.\<close>

definition save_boot_arg :: "linkage \<Rightarrow> u64 \<Rightarrow> memory \<Rightarrow> memory" where
  "save_boot_arg lk x0 m = store64 m (lk_env_data lk) x0"

definition set_canary :: "linkage \<Rightarrow> memory \<Rightarrow> memory" where
  "set_canary lk m =
     (let x0 = lk_boot_stack_bottom lk
      in store64 (store64 m x0 BOOT_STACK_CANARY) (x0 + 8) BOOT_STACK_CANARY)"

definition check_canary :: "linkage \<Rightarrow> memory \<Rightarrow> bool" where
  "check_canary lk m \<longleftrightarrow>
     (let x10 = lk_boot_stack_bottom lk
      in load64 m x10 = BOOT_STACK_CANARY \<and> load64 m (x10 + 8) = BOOT_STACK_CANARY)"

definition enable_simd :: "boot_cpu \<Rightarrow> boot_cpu" where
  "enable_simd c =
     c\<lparr>cpacr_el1 := (cpacr_el1 c AND NOT CPACR_EL1_FPEN_MASK) OR CPACR_EL1_FPEN_ENABLE_EL1_SIMD\<rparr>"

definition set_boot_context :: "linkage \<Rightarrow> boot_cpu \<Rightarrow> boot_cpu" where
  "set_boot_context lk c =
     c\<lparr>vbar_el1 := lk_vectors_aarch64 lk, sp_sel := 1, boot_sp := lk_boot_stack_bottom lk + BOOT_STACK_SIZE\<rparr>"

text \<open>\<open>bfi xa, xb, 32, 32\<close>.\<close>

definition bfi_32_32 :: "u64 \<Rightarrow> u64 \<Rightarrow> u64" where
  "bfi_32_32 a b = (a AND 0xffffffff) OR push_bit 32 b"

text \<open>
  The key of pointer authentication, where the processor has it, from the hypervisor's random
  numbers. The other registers of the hypercall hold what \<open>rel_fixup\<close> left in them. The loop
  at \<open>hang\<close> is \<open>None\<close>.
\<close>

definition setup_pauth :: "machine \<Rightarrow> hypervisor \<Rightarrow> trace \<Rightarrow> boot_cpu \<Rightarrow> boot_cpu option" where
  "setup_pauth mc hvc t c =
     (if id_aa64isar1_el1 c AND 0xff0 = 0 then Some c
      else let x = hvc t 0x6057 ((scratch mc)(0 := 16, 1 := 0)) in
        if x 0 \<noteq> 0 then None
        else Some (c\<lparr>apiakeylo_el1 := bfi_32_32 (x 1) (x 2), apiakeyhi_el1 := bfi_32_32 (x 3) (x 4),
                     sctlr_el1 := sctlr_el1 c OR SCTLR_EL1_ENIA_MASK\<rparr>))"

definition enter_app :: "uintptr_t \<Rightarrow> uintptr_t \<Rightarrow> boot_cpu \<Rightarrow> boot_cpu" where
  "enter_app app_entry app_stack c = c\<lparr>boot_sp := app_stack, daif := daif c AND NOT 7, boot_pc := app_entry\<rparr>"

section \<open>The start\<close>

text \<open>
  \<open>frames\<close> is what the calls leave in memory below their stack pointer. The runtime's static
  variables are those of the image, and \<open>env_data\<close> is the pointer that \<open>_start\<close> has stored.
\<close>

definition start_asm ::
  "machine \<Rightarrow> platform \<Rightarrow> elf_reloc_abi \<Rightarrow> elf_abi \<Rightarrow> hypervisor \<Rightarrow> linkage \<Rightarrow> image \<Rightarrow> (memory \<Rightarrow> memory) \<Rightarrow>
     u64 \<Rightarrow> boot_cpu \<Rightarrow> memory \<Rightarrow> trace \<Rightarrow> boot_result outcome" where
  "start_asm mc pf rabi abi hvc lk img frames x0 c m t =
     (let m = save_boot_arg lk x0 m;
          c = enable_simd c
      in if current_el c \<noteq> 4 then Done (Hung c)
      else let c = set_boot_context lk c; m = set_canary lk m in
        bindc (rel_fixup rabi (lk_dynamic lk) (load64 m (lk_env_data lk)) m) (\<lambda>m.
        case setup_pauth mc hvc t c of
          None \<Rightarrow> Done (Hung c)
        | Some c \<Rightarrow>
            bindc (start_runtime pf abi hvc (img\<lparr>img_env_data := load64 m (lk_env_data lk)\<rparr>) (runtime_image m t))
              (\<lambda>(guard, app_entry, app_stack, st).
            let st = set_mem (frames (rt_mem st)) st in
            if check_canary lk (rt_mem st) then Done (Entered (enter_app app_entry app_stack c) guard st)
            else bindc (panic_asm mc pf ''Detected boot stack overflow'' st) (\<lambda>r.
              case r of Stopped st \<Rightarrow> Done (Overflowed st) | Resumed _ _ \<Rightarrow> Fault BadAccess))))"

text \<open>The application has returned from its entry function.\<close>

definition app_returned :: "machine \<Rightarrow> platform \<Rightarrow> runtime \<Rightarrow> trap_result outcome" where
  "app_returned mc pf st = panic_asm mc pf ''Returned from app entry'' st"

end
