(* ===== verification/EntrySpec.thy ===== *)
theory EntrySpec
  imports Entry RelocSpec Machine
begin

unbundle bit_operations_syntax

text \<open>
  What \<open>_start\<close> achieves: a relocated image, the processor set up, and the application started on
  the stack that \<open>elf_setup\<close> built, in a state from which \<open>Machine\<close> proves the runtime safe.
\<close>

section \<open>Areas of memory\<close>

text \<open>The \<open>k\<close> bytes at \<open>b\<close> lie outside the \<open>n\<close> bytes at \<open>a\<close>.\<close>

definition beyond :: "uintptr_t \<Rightarrow> nat \<Rightarrow> uintptr_t \<Rightarrow> nat \<Rightarrow> bool" where
  "beyond a n b k \<longleftrightarrow> n \<le> unat (b - a) \<and> unat (b - a) + k \<le> 2 ^ 64"

lemma beyond_outside:
  assumes "beyond a n b k" "unat (x - b) < k"
  shows "n \<le> unat (x - a)"
proof -
  have "x - a = (b - a) + (x - b)" by simp
  moreover have "unat ((b - a) + (x - b)) = unat (b - a) + unat (x - b)"
    by (rule unat_add_fits) (use assms in \<open>simp add: beyond_def\<close>)
  ultimately show ?thesis using assms(1) by (simp add: beyond_def)
qed

lemma load64_same:
  assumes "\<And>x. unat (x - a) < n \<Longrightarrow> m' x = m x" "k + 8 \<le> n" "n < 2 ^ 63"
  shows "load64 m' (a + of_nat k) = load64 m (a + of_nat k)"
proof (rule load64_cong)
  fix d :: u64 assume "d < 8"
  then have d: "unat d < 8" by (simp add: word_less_nat_alt)
  have k: "unat (of_nat k :: u64) = k" using assms(2,3) by (intro unat_of_nat64) simp
  have "unat (of_nat k + d) = k + unat d" using k d assms(2,3) by (subst unat_add_fits) simp_all
  then show "m' (a + of_nat k + d) = m (a + of_nat k + d)" using d assms(2) by (intro assms(1)) (simp add: add.assoc)
qed

lemma load_env_data_same:
  assumes "\<And>x. unat (x - a) < 88 \<Longrightarrow> m' x = m x"
  shows "load_env_data m' a = load_env_data m a"
proof -
  have w: "load64 m' (a + of_nat k) = load64 m (a + of_nat k)" if "k + 8 \<le> 88" for k
    by (rule load64_same [of a 88]) (use assms that in simp_all)
  have b: "m' (a + of_nat k) = m (a + of_nat k)" if "k < 8" for k
    using that unat_of_nat64 [of k] by (intro assms) simp
  have "load32 m' a = load32 m a" "load16 m' (a + 4) = load16 m (a + 4)"
    using b [of 0] b [of 1] b [of 2] b [of 3] b [of 4] b [of 5] by (simp_all add: load32_def load16_def add.assoc)
  then show ?thesis
    using w [where k = 8] w [where k = 16] w [where k = 24] w [where k = 32] w [where k = 40] w [where k = 48] w [where k = 56] w [where k = 64] w [where k = 72] w [where k = 80]
    by (simp add: load_env_data_def)
qed

section \<open>Relocation in place\<close>

text \<open>Memory when \<open>rel_fixup\<close> is called.\<close>

definition boot_memory :: "linkage \<Rightarrow> u64 \<Rightarrow> memory \<Rightarrow> memory" where
  "boot_memory lk x0 m = set_canary lk (save_boot_arg lk x0 m)"

text \<open>
  The linker's part of the contract: no relocation patches the word \<open>env_data\<close>, the data it
  points to or the canary, and the word does not overlap the canary.
\<close>

definition relocation_ok ::
  "elf_reloc_abi \<Rightarrow> linkage \<Rightarrow> u64 \<Rightarrow> memory \<Rightarrow> (u64 \<times> u64) list \<Rightarrow> (u64 \<times> u64) list \<Rightarrow> (u64 \<times> u64 \<times> u64) list \<Rightarrow> bool" where
  "relocation_ok rabi lk x0 m es rels relas \<longleftrightarrow>
     (let base = ed_runtime_ipa (load_env_data m x0) in
      elf64_layout rabi \<and> relocatable m base (lk_dynamic lk) es rels relas \<and>
      apart (lk_boot_stack_bottom lk) (lk_env_data lk) \<and> apart (lk_boot_stack_bottom lk + 8) (lk_env_data lk) \<and>
      (\<forall>p \<in> set (rel_places base rels) \<union> fst ` set (rela_patches base relas).
         beyond (lk_env_data lk) 8 p 8 \<and> beyond x0 88 p 8 \<and> beyond (lk_boot_stack_bottom lk) 16 p 8))"

lemma boot_memory_words:
  assumes "apart (lk_boot_stack_bottom lk) (lk_env_data lk)" "apart (lk_boot_stack_bottom lk + 8) (lk_env_data lk)"
  shows "load64 (boot_memory lk x0 m) (lk_env_data lk) = x0" "check_canary lk (boot_memory lk x0 m)"
proof -
  show "load64 (boot_memory lk x0 m) (lk_env_data lk) = x0"
    by (simp add: boot_memory_def set_canary_def save_boot_arg_def Let_def load64_apart assms load64_store64)
  have "apart (lk_boot_stack_bottom lk + 8) (lk_boot_stack_bottom lk)" by (simp add: apart_def)
  then show "check_canary lk (boot_memory lk x0 m)"
    by (simp add: check_canary_def boot_memory_def set_canary_def Let_def load64_apart load64_store64)
qed

lemma check_canary_same:
  assumes "\<And>x. unat (x - lk_boot_stack_bottom lk) < 16 \<Longrightarrow> m' x = m x"
  shows "check_canary lk m' = check_canary lk m"
  using load64_same [of "lk_boot_stack_bottom lk" 16 m' m 0, OF assms]
    load64_same [of "lk_boot_stack_bottom lk" 16 m' m 8, OF assms] by (simp add: check_canary_def Let_def)

lemma relocation_done:
  assumes "relocation_ok rabi lk x0 (boot_memory lk x0 m) es rels relas"
  obtains m1 where "rel_fixup rabi (lk_dynamic lk) x0 (boot_memory lk x0 m) = Done m1"
    "load64 m1 (lk_env_data lk) = x0" "load_env_data m1 x0 = load_env_data (boot_memory lk x0 m) x0" "check_canary lk m1"
proof -
  let ?m = "boot_memory lk x0 m" and ?b = "lk_boot_stack_bottom lk"
  define base where "base = ed_runtime_ipa (load_env_data ?m x0)"
  let ?places = "set (rel_places base rels) \<union> fst ` set (rela_patches base relas)"
  define m1 where "m1 = put_words (rela_patches base relas) (add_base base (rel_places base rels) ?m)"
  note r = assms [unfolded relocation_ok_def Let_def, folded base_def]
  have "m1 x = ?m x" if "\<forall>p \<in> ?places. \<not> x - p < 8" for x
    using that by (simp add: m1_def put_words_outside add_base_outside)
  moreover have "\<not> x - p < 8" if "beyond a n p 8" "unat (x - a) < n" for a n p x
    using beyond_outside [OF that(1), of x] that(2) by (auto simp: word_less_nat_alt)
  ultimately have same: "m1 x = ?m x" if "\<forall>p \<in> ?places. beyond a n p 8" "unat (x - a) < n" for a n x
    using that by metis
  have "load64 m1 (lk_env_data lk) = load64 ?m (lk_env_data lk)"
    using load64_same [of "lk_env_data lk" 8 m1 ?m 0] same [of "lk_env_data lk" 8] r by simp
  moreover have "load_env_data m1 x0 = load_env_data ?m x0"
    by (rule load_env_data_same) (rule same [of x0 88], use r in auto)
  moreover have "check_canary lk m1 = check_canary lk ?m"
    by (rule check_canary_same) (rule same [of ?b 16], use r in auto)
  moreover have "rel_fixup rabi (lk_dynamic lk) x0 ?m = Done m1"
    unfolding m1_def base_def by (rule rel_fixup_stores [where es = es]) (use r in \<open>simp_all add: base_def\<close>)
  ultimately show thesis using boot_memory_words [of lk] r by (intro that) simp_all
qed

section \<open>The start\<close>

text \<open>
  The stack of the boot lies outside the heap area and the entropy buffer, and what the loader
  promises about the area of the application holds of the relocated image.
\<close>

definition boot_ok ::
  "elf_reloc_abi \<Rightarrow> elf_abi \<Rightarrow> linkage \<Rightarrow> image \<Rightarrow> u64 \<Rightarrow> memory \<Rightarrow> bool" where
  "boot_ok rabi abi lk img x0 m \<longleftrightarrow>
     (let ed = load_env_data m x0; b = lk_boot_stack_bottom lk in
      beyond (ed_app_heap_ipa ed) (unat (ed_app_heap_size ed)) b 1024 \<and> beyond (img_aux_entropy img) 16 b 1024 \<and>
      (\<forall>m1. rel_fixup rabi (lk_dynamic lk) x0 m = Done m1 \<longrightarrow>
         boot_area_ok abi (img\<lparr>img_env_data := x0\<rparr>) m1 (mmap_initial m1)))"

text \<open>The C functions called from \<open>_start\<close> write to the boot stack above the canary only.\<close>

definition frames_ok :: "linkage \<Rightarrow> (memory \<Rightarrow> memory) \<Rightarrow> bool" where
  "frames_ok lk frames \<longleftrightarrow>
     (\<forall>m x. \<not> (16 \<le> unat (x - lk_boot_stack_bottom lk) \<and> unat (x - lk_boot_stack_bottom lk) < 1024) \<longrightarrow>
        frames m x = m x)"

text \<open>The stack that \<open>elf_setup\<close> built is not touched by the frames.\<close>

lemma frames_keep:
  assumes "frames_ok lk frames" "beyond base n (lk_boot_stack_bottom lk) 1024" "unat (x - base) < n"
  shows "frames m x = m x"
proof -
  have "\<not> unat (x - lk_boot_stack_bottom lk) < 1024" using beyond_outside [OF assms(2), of x] assms(3) by auto
  then show ?thesis using assms(1) by (simp add: frames_ok_def)
qed

lemma words_at_same:
  assumes "words_at m a ws" "\<And>x. unat (x - a) < 8 * length ws \<Longrightarrow> m' x = m x" "8 * length ws < 2 ^ 63"
  shows "words_at m' a ws"
  unfolding words_at_def
proof (intro allI impI)
  fix i assume i: "i < length ws"
  have "load64 m' (a + of_nat (8 * i)) = load64 m (a + of_nat (8 * i))"
    by (rule load64_same [of a "8 * length ws", OF assms(2)]) (use i assms(3) in simp_all)
  then show "load64 m' (a + of_nat (8 * i)) = ws ! i" using assms(1) i by (simp add: words_at_def)
qed

text \<open>The processor when the application is entered.\<close>

definition app_context :: "linkage \<Rightarrow> boot_cpu \<Rightarrow> boot_cpu \<Rightarrow> bool" where
  "app_context lk c c' \<longleftrightarrow>
     cpacr_el1 c' AND CPACR_EL1_FPEN_MASK = CPACR_EL1_FPEN_ENABLE_EL1_SIMD \<and>
     vbar_el1 c' = lk_vectors_aarch64 lk \<and> sp_sel c' = 1 \<and> daif c' AND 7 = 0 \<and>
     (bit (sctlr_el1 c') 31 \<longleftrightarrow> bit (sctlr_el1 c) 31 \<or> id_aa64isar1_el1 c AND 0xff0 \<noteq> 0)"

lemma bit_mask20: "bit (0x300000 :: u64) n \<longleftrightarrow> n = 20 \<or> n = 21" "bit (0x100000 :: u64) n \<longleftrightarrow> n = 20"
  "bit (0x80000000 :: u64) n \<longleftrightarrow> n = 31"
proof -
  have e: "(0x300000 :: u64) = push_bit 20 1 OR push_bit 21 1" "(0x100000 :: u64) = push_bit 20 1"
    "(0x80000000 :: u64) = push_bit 31 1"
    by (simp_all add: push_bit_eq_mult)
  show "bit (0x300000 :: u64) n \<longleftrightarrow> n = 20 \<or> n = 21" "bit (0x100000 :: u64) n \<longleftrightarrow> n = 20"
    "bit (0x80000000 :: u64) n \<longleftrightarrow> n = 31"
    unfolding e by (auto simp only: bit_or_iff bit_push_bit_iff bit_1_iff possible_bit_def; auto simp: bit_simps)+
qed

lemma fpen_set: "((x AND NOT 0x300000) OR 0x100000) AND 0x300000 = (0x100000 :: u64)"
  by (rule bit_word_eqI) (auto simp only: bit_and_iff bit_or_iff bit_not_iff bit_mask20)

lemma enable_simd_fpen: "cpacr_el1 (enable_simd c) AND CPACR_EL1_FPEN_MASK = CPACR_EL1_FPEN_ENABLE_EL1_SIMD"
  using fpen_set [of "cpacr_el1 c"] by (simp add: enable_simd_def)

lemma daif_cleared: "(d AND NOT 7) AND 7 = (0 :: u64)"
  by (simp add: and.assoc)

lemma setup_pauth_context:
  assumes "setup_pauth mc hvc t (set_boot_context lk (enable_simd c)) = Some c1"
  shows "app_context lk c (enter_app entry sp c1)" "boot_sp (enter_app entry sp c1) = sp"
    "boot_pc (enter_app entry sp c1) = entry"
proof -
  let ?c = "set_boot_context lk (enable_simd c)"
  have regs: "cpacr_el1 c1 = cpacr_el1 (enable_simd c)" "vbar_el1 c1 = lk_vectors_aarch64 lk" "sp_sel c1 = 1"
    using assms by (auto simp: setup_pauth_def set_boot_context_def Let_def split: if_splits)
  have same: "id_aa64isar1_el1 ?c = id_aa64isar1_el1 c" "sctlr_el1 ?c = sctlr_el1 c"
    by (simp_all add: set_boot_context_def enable_simd_def)
  have "sctlr_el1 c1 = (if id_aa64isar1_el1 c AND 0xff0 = 0 then sctlr_el1 c else sctlr_el1 c OR SCTLR_EL1_ENIA_MASK)"
    using assms by (auto simp: setup_pauth_def same Let_def split: if_splits)
  then have "bit (sctlr_el1 c1) 31 \<longleftrightarrow> bit (sctlr_el1 c) 31 \<or> id_aa64isar1_el1 c AND 0xff0 \<noteq> 0"
    using bit_mask20(3) [of 31] by (simp add: bit_or_iff)
  then show "app_context lk c (enter_app entry sp c1)"
    using regs enable_simd_fpen [of c] daif_cleared by (simp add: app_context_def enter_app_def)
qed (simp_all add: enter_app_def)

text \<open>The C part, from the relocated image on, with what it leaves below its stack pointer.\<close>

lemma start_runtime_framed:
  assumes "pf_ok pf" "devices_ok (pf_env pf) e k (ed_timer_freq (load_env_data m1 x0))"
    "boot_area_ok abi (img\<lparr>img_env_data := x0\<rparr>) m1 (mmap_initial m1)" "frames_ok lk frames" "check_canary lk m1"
    "beyond (ed_app_heap_ipa (load_env_data m1 x0)) (unat (ed_app_heap_size (load_env_data m1 x0))) (lk_boot_stack_bottom lk) 1024"
    "beyond (img_aux_entropy img) 16 (lk_boot_stack_bottom lk) 1024"
  defines "app \<equiv> ed_app_ipa (load_env_data m1 x0)"
  obtains guard sp st ok where
    "start_runtime pf abi hvc (img\<lparr>img_env_data := x0\<rparr>) (runtime_image m1 t) = Done (guard, e_entry abi m1 app + app, sp, st)"
    "rt_ok st" "check_canary lk (frames (rt_mem st))" "unat sp mod 16 = 0"
    "words_at (frames (rt_mem st)) sp (start_words abi (img\<lparr>img_env_data := x0\<rparr>) ok m1 app)"
proof -
  let ?img = "img\<lparr>img_env_data := x0\<rparr>" and ?b = "lk_boot_stack_bottom lk" and ?ed = "load_env_data m1 x0"
  let ?base = "ed_app_heap_ipa ?ed" and ?size = "unat (ed_app_heap_size ?ed)"
  have size: "0x4000 < ?size" using boot_area_facts(8) [OF assms(3)] by simp
  have "ed_timer_freq (load_env_data m1 (img_env_data ?img)) = ed_timer_freq ?ed" by simp
  from start_runtime_done [OF assms(1-3) this, of hvc t] obtain guard sp st ok where
    s: "start_runtime pf abi hvc ?img (runtime_image m1 t) = Done (guard, e_entry abi m1 app + app, sp, st)" "rt_ok st"
      "words_at (rt_mem st) sp (start_words abi ?img ok m1 app)" "unat sp mod 16 = 0"
      "sp = ?base + of_nat (0x4000 - 8 * length (start_words abi ?img ok m1 app))"
      "\<And>x. ?size \<le> unat (x - ?base) \<Longrightarrow> 16 \<le> unat (x - img_aux_entropy img) \<Longrightarrow> rt_mem st x = m1 x"
    by (auto simp: app_def)
  have "frames (rt_mem st) x = m1 x" if "unat (x - ?b) < 16" for x
    using s(6) [of x] beyond_outside [OF assms(6), of x] beyond_outside [OF assms(7), of x] that assms(4)
    by (simp add: frames_ok_def)
  then have "check_canary lk (frames (rt_mem st))" using check_canary_same assms(5) by blast
  moreover have "words_at (frames (rt_mem st)) sp (start_words abi ?img ok m1 app)"
  proof (rule words_at_same [OF s(3)])
    let ?n = "length (start_words abi ?img ok m1 app)"
    have n: "?n \<le> 22" by (simp add: length_start_words)
    then show "8 * ?n < 2 ^ 63" by simp
    fix x assume x: "unat (x - sp) < 8 * ?n"
    define j where "j = 0x4000 - 8 * ?n"
    have j: "unat (of_nat j :: u64) = j" by (rule unat_of_nat64) (simp add: j_def)
    have "x - ?base = of_nat j + (x - sp)" using s(5) by (simp add: j_def [symmetric])
    moreover have "unat (of_nat j + (x - sp)) = j + unat (x - sp)"
      using x n j by (subst unat_add_fits) (simp_all add: j_def)
    ultimately have "unat (x - ?base) = 0x4000 - 8 * ?n + unat (x - sp)" by (simp only: j_def)
    then show "frames (rt_mem st) x = rt_mem st x" using x n size by (intro frames_keep [OF assms(4,6)]) simp
  qed
  ultimately show thesis using s(1,2,4) by (intro that)
qed

lemma start_asm_enters:
  assumes "pf_ok pf" "current_el c = 4" "relocation_ok rabi lk x0 (boot_memory lk x0 m) es rels relas"
    "boot_ok rabi abi lk img x0 (boot_memory lk x0 m)" "frames_ok lk frames"
    "devices_ok (pf_env pf) e k (ed_timer_freq (load_env_data (boot_memory lk x0 m) x0))"
    "setup_pauth mc hvc t (set_boot_context lk (enable_simd c)) = Some c1"
  defines "app \<equiv> ed_app_ipa (load_env_data (boot_memory lk x0 m) x0)"
  shows "\<exists>m1 guard sp st ok. rel_fixup rabi (lk_dynamic lk) x0 (boot_memory lk x0 m) = Done m1 \<and>
    start_asm mc pf rabi abi hvc lk img frames x0 c m t =
      Done (Entered (enter_app (e_entry abi m1 app + app) sp c1) guard st) \<and>
    unat sp mod 16 = 0 \<and> words_at (rt_mem st) sp (start_words abi (img\<lparr>img_env_data := x0\<rparr>) ok m1 app) \<and>
    (\<forall>r. sp_el1 r = sp \<longrightarrow> elr_el1 r = e_entry abi m1 app + app \<longrightarrow> machine_reachable mc pf r st)"
proof -
  let ?img = "img\<lparr>img_env_data := x0\<rparr>"
  obtain m1 where m1: "rel_fixup rabi (lk_dynamic lk) x0 (boot_memory lk x0 m) = Done m1"
    "load64 m1 (lk_env_data lk) = x0" "load_env_data m1 x0 = load_env_data (boot_memory lk x0 m) x0" "check_canary lk m1"
    by (rule relocation_done [OF assms(3)])
  have area: "boot_area_ok abi ?img m1 (mmap_initial m1)"
    and off: "beyond (ed_app_heap_ipa (load_env_data m1 x0)) (unat (ed_app_heap_size (load_env_data m1 x0)))
        (lk_boot_stack_bottom lk) 1024" "beyond (img_aux_entropy img) 16 (lk_boot_stack_bottom lk) 1024"
    using assms(4) m1(1,3) by (simp_all add: boot_ok_def Let_def)
  note dev = assms(6) [folded m1(3)]
  have app: "app = ed_app_ipa (load_env_data m1 x0)" by (simp add: app_def m1(3))
  obtain guard sp st ok where s:
    "start_runtime pf abi hvc ?img (runtime_image m1 t) = Done (guard, e_entry abi m1 app + app, sp, st)"
    "rt_ok st" "check_canary lk (frames (rt_mem st))" "unat sp mod 16 = 0"
    "words_at (frames (rt_mem st)) sp (start_words abi ?img ok m1 app)"
    by (rule start_runtime_framed [OF assms(1) dev area assms(5) m1(4) off, of hvc t, folded app]) (rule that)
  let ?st = "set_mem (frames (rt_mem st)) st"
  have mem: "rt_mem ?st = frames (rt_mem st)" by (simp add: set_mem_def rt_mem_def)
  have env: "load64 (boot_memory lk x0 m) (lk_env_data lk) = x0"
    using boot_memory_words(1) assms(3) by (simp add: relocation_ok_def Let_def)
  have el: "current_el (enable_simd c) = 4" using assms(2) by (simp add: enable_simd_def)
  have "start_asm mc pf rabi abi hvc lk img frames x0 c m t =
      Done (Entered (enter_app (e_entry abi m1 app + app) sp c1) guard ?st)"
    using m1(1,2) env el assms(7) s(1,3) unfolding start_asm_def Let_def boot_memory_def [symmetric]
    by (simp add: mem)
  moreover have "machine_reachable mc pf r ?st" if "sp_el1 r = sp" "elr_el1 r = e_entry abi m1 app + app" for r
    using machine_app [OF machine_start [OF _ area s(1) that]] dev by simp
  ultimately show ?thesis using m1(1) s(4,5) by (auto simp: mem)
qed

text \<open>The ways in which the start does not get to the application.\<close>

lemma start_asm_wrong_level:
  "current_el c \<noteq> 4 \<Longrightarrow> start_asm mc pf rabi abi hvc lk img frames x0 c m t = Done (Hung (enable_simd c))"
  by (simp add: start_asm_def Let_def enable_simd_def)

lemma setup_pauth_hangs:
  "setup_pauth mc hvc t c = None \<longleftrightarrow>
     id_aa64isar1_el1 c AND 0xff0 \<noteq> 0 \<and> hvc t 0x6057 ((scratch mc)(0 := 16, 1 := 0)) 0 \<noteq> 0"
  by (simp add: setup_pauth_def Let_def)

lemma start_asm_no_key:
  assumes "current_el c = 4" "relocation_ok rabi lk x0 (boot_memory lk x0 m) es rels relas"
    "setup_pauth mc hvc t (set_boot_context lk (enable_simd c)) = None"
  shows "start_asm mc pf rabi abi hvc lk img frames x0 c m t = Done (Hung (set_boot_context lk (enable_simd c)))"
proof -
  obtain m1 where m1: "rel_fixup rabi (lk_dynamic lk) x0 (boot_memory lk x0 m) = Done m1"
    by (rule relocation_done [OF assms(2)])
  have env: "load64 (boot_memory lk x0 m) (lk_env_data lk) = x0"
    using boot_memory_words(1) assms(2) by (simp add: relocation_ok_def Let_def)
  have "current_el (enable_simd c) = 4" using assms(1) by (simp add: enable_simd_def)
  then show ?thesis using m1 env assms(3) unfolding start_asm_def Let_def boot_memory_def [symmetric] by simp
qed

text \<open>Frames that run over the canary are detected.\<close>

lemma boot_stack_overflow_detected:
  assumes "pf_ok pf" "current_el c = 4"
    "rel_fixup rabi (lk_dynamic lk) (load64 (boot_memory lk x0 m) (lk_env_data lk)) (boot_memory lk x0 m) = Done m1"
    "setup_pauth mc hvc t (set_boot_context lk (enable_simd c)) = Some c1"
    "start_runtime pf abi hvc (img\<lparr>img_env_data := load64 m1 (lk_env_data lk)\<rparr>) (runtime_image m1 t) =
       Done (guard, entry, sp, st)"
    "rt_ok st" "\<not> check_canary lk (frames (rt_mem st))"
  shows "\<exists>st'. start_asm mc pf rabi abi hvc lk img frames x0 c m t = Done (Overflowed st')"
proof -
  let ?st = "set_mem (frames (rt_mem st)) st"
  have "rt_ok ?st" using assms(6) by simp
  from panic_stops [OF assms(1) this, of mc "''Detected boot stack overflow''"] obtain st' where
    p: "panic_asm mc pf ''Detected boot stack overflow'' ?st = Done (Stopped st')" by blast
  have "rt_mem ?st = frames (rt_mem st)" by (simp add: set_mem_def rt_mem_def)
  moreover have "current_el (enable_simd c) = 4" using assms(2) by (simp add: enable_simd_def)
  ultimately show ?thesis using assms(3-5,7) p unfolding start_asm_def Let_def boot_memory_def [symmetric] by simp
qed


text \<open>The example of \<open>StartSpec\<close> with the runtime at \<open>0x400000\<close> and one relocation.\<close>

definition entry_stores :: "(uintptr_t \<times> u64) list" where
  "entry_stores =
     [(0x1008, 0x400000), (0x1010, 0x80000), (0x1018, 0xfc000), (0x1020, 0x14000), (0x1030, 19200000),
      (0x409000, 7), (0x409008, 0x9100), (0x409010, 8), (0x409018, 24), (0x409100, 0x9200), (0x409108, 1027),
      (0x409110, 0x1234)]"

definition entry_image :: memory where
  "entry_image = put_words entry_stores (\<lambda>_. 0)"

definition entry_linkage :: linkage where
  "entry_linkage =
     \<lparr>lk_env_data = 0x408000, lk_vectors_aarch64 = 0x401000, lk_boot_stack_bottom = 0x40a000, lk_dynamic = 0x409000\<rparr>"

lemma entry_linkage_addresses [simp]:
  "lk_env_data entry_linkage = 0x408000" "lk_boot_stack_bottom entry_linkage = 0x40a000"
  "lk_dynamic entry_linkage = 0x409000"
  by (simp_all add: entry_linkage_def)

text \<open>A processor with pointer authentication, at EL1.\<close>

definition entry_cpu :: boot_cpu where
  "entry_cpu =
     \<lparr>cpacr_el1 = 0, current_el = 4, vbar_el1 = 0, sp_sel = 0, id_aa64isar1_el1 = 0x10, apiakeylo_el1 = 0,
      apiakeyhi_el1 = 0, sctlr_el1 = 0, daif = 0x3c0, boot_sp = 0, boot_pc = 0\<rparr>"

definition entry_boot_stores :: "(uintptr_t \<times> u64) list" where
  "entry_boot_stores =
     entry_stores @ [(0x408000, 0x1000), (0x40a000, BOOT_STACK_CANARY), (0x40a008, BOOT_STACK_CANARY)]"

definition entry_memory :: memory where
  "entry_memory = boot_memory entry_linkage 0x1000 entry_image"

lemma entry_memory_stores: "entry_memory = put_words entry_boot_stores (\<lambda>_. 0)"
  by (simp add: entry_memory_def boot_memory_def set_canary_def save_boot_arg_def entry_image_def entry_boot_stores_def
      put_words_def Let_def)

lemma entry_stores_apart: "sorted_wrt apart (map fst entry_boot_stores)"
  unfolding entry_boot_stores_def entry_stores_def apart_def by simp

lemma entry_words:
  "load64 entry_memory 0x1008 = 0x400000" "load64 entry_memory 0x1010 = 0x80000"
  "load64 entry_memory 0x1018 = 0xfc000" "load64 entry_memory 0x1020 = 0x14000"
  "load64 entry_memory 0x1030 = 19200000" "load64 entry_memory 0x409000 = 7"
  "load64 entry_memory 0x409008 = 0x9100" "load64 entry_memory 0x409010 = 8"
  "load64 entry_memory 0x409018 = 24" "load64 entry_memory 0x409100 = 0x9200"
  "load64 entry_memory 0x409108 = 1027" "load64 entry_memory 0x409110 = 0x1234"
  unfolding entry_memory_stores
  by (rule put_words_at [OF entry_stores_apart]; simp add: entry_boot_stores_def entry_stores_def)+

lemma entry_dynamic_end: "load64 entry_memory 0x409020 = 0"
proof -
  have "apart p 0x409020" if "p \<in> fst ` set entry_boot_stores" for p
    using that by (auto simp: entry_boot_stores_def entry_stores_def apart_def)
  then have "load64 entry_memory 0x409020 = load64 (\<lambda>_. 0) 0x409020"
    unfolding entry_memory_stores by (rule put_words_unchanged)
  then show ?thesis by (simp add: load64_def load32_def load16_def)
qed

lemma entry_env:
  "ed_runtime_ipa (load_env_data entry_memory 0x1000) = 0x400000"
  "ed_app_ipa (load_env_data entry_memory 0x1000) = 0x80000"
  "ed_app_heap_ipa (load_env_data entry_memory 0x1000) = 0xfc000"
  "ed_app_heap_size (load_env_data entry_memory 0x1000) = 0x14000"
  "ed_timer_freq (load_env_data entry_memory 0x1000) = 19200000"
  by (simp_all add: load_env_data_def entry_words)

lemma entry_relocation: "relocation_ok elf64 entry_linkage 0x1000 entry_memory [(7, 0x9100), (8, 24)] [] [(0x9200, 1027, 0x1234)]"
proof -
  have "relocatable entry_memory 0x400000 0x409000 [(7, 0x9100), (8, 24)] [] [(0x9200, 1027, 0x1234)]"
    by (simp add: relocatable_def dyn_value_def words_at_Cons rel_words_def rela_words_def entry_words entry_dynamic_end
        rel_places_def rela_patches_def ARCH_CAN_PATCH_def R_TYPE_def R_SYM_def apart_def apart_from_words_Cons no_words)
  then show ?thesis
    by (simp add: relocation_ok_def Let_def entry_env elf64_layout_def elf64_def apart_def beyond_def
        rel_places_def rela_patches_def ARCH_CAN_PATCH_def R_TYPE_def R_SYM_def)
qed

lemma entry_area:
  assumes "load_env_data m1 0x1000 = load_env_data entry_memory 0x1000"
  shows "boot_area_ok example_abi (example_image\<lparr>img_env_data := 0x1000\<rparr>) m1 (mmap_initial m1)"
proof -
  have "header_outside example_abi m1 0x80000 0xfc000 0x14000"
    by (simp add: header_outside_def example_abi_def)
  moreover have "off_stack 0x8020 0xfc000" by (simp add: off_stack_def)
  ultimately show ?thesis
    using brk_heap_new [of m1]
    by (simp add: boot_area_ok_def Let_def assms entry_env example_image_def aligned_meta_examples)
      (simp add: mmap_initial_def)
qed

lemma entry_boot_ok: "boot_ok elf64 example_abi entry_linkage example_image 0x1000 entry_memory"
proof -
  obtain m1 where "rel_fixup elf64 (lk_dynamic entry_linkage) 0x1000 entry_memory = Done m1"
    "load_env_data m1 0x1000 = load_env_data entry_memory 0x1000"
    using relocation_done [OF entry_relocation [unfolded entry_memory_def], folded entry_memory_def] by metis
  then show ?thesis
    using entry_area [of m1] by (simp add: boot_ok_def Let_def entry_env beyond_def example_image_def)
qed


end
