(* ===== verification/Spec2Isabelle.thy ===== *)
theory Spec2Isabelle
  imports MmapSpec StringPrint LogBuf CString GicSpec IrqSpec TimerSpec ExitDev Console Log FsSpec TtySpec MemSpec RuntimeSpec StartSpec NodeList RelocSpec VectorsSpec MmapRegions Machine EntrySpec
begin

text \<open>
  A verification library for the Gunyah C runtime, the part that runs between the hypervisor and
  one application linked with musl. The hypervisor starts the runtime at \<open>_start\<close>; the runtime
  relocates itself, sets up interrupts, timer, files and the stack of the application and jumps to
  it. From then on it is entered through the exception vectors only: the instruction \<open>svc 0\<close> is a
  system call, an interrupt is dispatched to its handler, everything else is fatal.

  \<^bold>\<open>Conventions.\<close> A C type is a word of its width (\<open>u8\<close> to \<open>u64\<close>; signed ones are \<open>int\<close> where
  the code computes with small numbers), a structure a record, an enumeration a datatype, a static
  variable a field of the state that its functions take and return. A call returns an \<open>outcome\<close>:
  \<open>Done\<close> with a value, or \<open>Fault\<close> for a failed \<open>assert\<close>, an access outside its object, or a loop
  that does not end. Errno values are the negative integers of the source. What lies outside the
  repository is a parameter: the devices (the record \<open>environment\<close>: the value a register load
  returns is a function of the whole history, so any device fits), the hypervisor
  (\<open>hypervisor\<close>), musl's headers (\<open>libc\<close>, \<open>fcntl\<close>), \<^verbatim>\<open>elf.h\<close> (\<open>elf_abi\<close>, \<open>elf_reloc_abi\<close>), the
  contents of uninitialised stack buffers, pointer authentication (\<open>machine\<close>). What the runtime
  does to the outside is a trace of events, newest first.

  \<^bold>\<open>Theories.\<close> A theory \<open>X\<close> holds the model of a component and \<open>XSpec\<close> its theorems, where the
  two are large; small components have both in one.

  \<^item> \<open>CMachine\<close>: words, \<open>outcome\<close>, character buffers, the macros of \<^verbatim>\<open>include/util.h\<close> and
    \<^verbatim>\<open>include/compiler.h\<close>, and the lemmas on words and searches that all others share.
  \<^item> \<open>UserMem\<close>: memory as bytes with little-endian loads and stores; \<^verbatim>\<open>sys/ioctl.h\<close>. \<open>Device\<close>: register
    accesses and the trace. \<open>Registry\<close>: the locale \<open>slot\<close>, the contract of a callback slot, interpreted by
    \<open>Console\<close>, \<open>ExitDev\<close> and \<open>IrqSpec\<close>. \<open>Bitmap\<close>: \<^verbatim>\<open>src/bitmap.c\<close>. \<open>BitAllocator\<close>: the locale
    \<open>bit_allocator\<close>, interpreted on the bitmap of file descriptors.
  \<^item> \<open>Mmap\<close>: \<^verbatim>\<open>src/mmap.c\<close>. The list of heap nodes, each with the bitmap of its free pages, is
    \<open>mmap_node_list\<close>. \<open>MmapRange\<close> relates the bit loops to sets of pages, \<open>MmapInv\<close> states the
    invariant \<open>mmap_inv\<close> and the abstract set of mapped pages, \<open>MmapCalls\<close> and \<open>MmapStats\<close> treat the
    program break, the heaps and the statistics, \<open>MmapSpec\<close> the reachable states. \<open>Regions\<close>: the locale \<open>region_allocator\<close>, what a client of \<open>mmap\<close>
    relies on, interpreted on \<open>sys_mmap\<close> and \<open>sys_munmap\<close> by \<open>MmapRegions\<close>.
    \<open>Mem\<close>, \<open>MemSpec\<close>: \<^verbatim>\<open>src/mem.c\<close> on top of it. \<open>NodeList\<close>: \<^verbatim>\<open>include/list.h\<close>, on pointers, which
    justifies the functional lists of \<open>Mmap\<close>.
  \<^item> \<open>CString\<close>: the string functions of \<^verbatim>\<open>src/string.c\<close> and \<^verbatim>\<open>arch/armv8/src/string.c\<close>. \<open>MemCopy\<close>,
    \<open>MemSet\<close> and their \<open>Spec\<close>: \<open>memcpy\<close>, \<open>memmove\<close>, \<open>memscpy\<close> and \<open>memset\<close> with the assembler
    routines of \<^verbatim>\<open>memcpy.S\<close> and \<^verbatim>\<open>memset.S\<close>, access by access.
  \<^item> \<open>StringFmt\<close>, \<open>StringFmtSpec\<close>, \<open>StringPrint\<close>: the formatter of \<^verbatim>\<open>src/string_util.c\<close>. \<open>LogBuf\<close>, \<open>Console\<close>,
    \<open>Log\<close>: the ring buffer, the console device, and \<open>log_msg\<close>, which feeds both. \<open>Tty\<close>,
    \<open>TtySpec\<close>: \<open>writev\<close> of the terminal.
  \<^item> \<open>Gic\<close>, \<open>GenericTimer\<close>, \<open>Interrupt\<close>, \<open>Timer\<close> and \<open>GicSpec\<close>, \<open>IrqSpec\<close>, \<open>TimerSpec\<close>: the drivers of the
    interrupt controller and the counter, dispatch to handlers, waiting.
  \<^item> \<open>Fs\<close>, \<open>FsSpec\<close>: the file table. \<open>ExitDev\<close>: the exit device.
  \<^item> \<open>Runtime\<close>, \<open>RuntimeSpec\<close>: all state in one record \<open>runtime\<close>, the calls on open files, the remaining
    system calls, their dispatch, and the end of the application.
  \<^item> \<open>Boot\<close>, \<open>BootSpec\<close>, \<open>StartSpec\<close>: initialisation, the stack of the application, and the reachable
    states of the whole. \<open>Reloc\<close>, \<open>RelocSpec\<close>: self-relocation. \<open>Vectors\<close>, \<open>VectorsSpec\<close>: the exception
    vectors with the register frames, instruction by instruction. \<open>Machine\<close>: the runtime under an
    application at the level of the processor, whose runs refine the reachable states of \<open>StartSpec\<close>. \<open>Entry\<close>,
    \<open>EntrySpec\<close>: \<open>_start\<close> in \<^verbatim>\<open>boot.S\<close>, from the jump of the hypervisor to the entry of the application.

  \<^bold>\<open>How the parts interact.\<close> \<open>vectors_aarch64\<close> saves the registers and calls \<open>aarch64_do_syscall\<close> or
  \<open>interrupt_dispatch\<close>. A system call reaches a component directly (memory, time, files) or through
  the open file of its descriptor: \<open>file_ioctl\<close> and \<open>tty_writev\<close>. Every component prints through
  \<open>log_calls\<close>; \<open>mmap.c\<close> and \<open>mem.c\<close> note their messages in the state (\<open>mm_logs\<close>) and \<open>mm_call\<close> prints
  them when the call returns, which is the same because nothing else is printed meanwhile. All
  registered callbacks, handlers of the application included, are events of the trace.

  \<^bold>\<open>What the theorems show.\<close>
  Memory: \<open>mmap\<close> is a first-fit page allocator that hands out fresh zeroed pages, \<open>munmap\<close> its
  inverse, the invariant holds in every reachable state, and the mappings a client holds never
  overlap; the copies and fills, with all their
  alignment cases, change exactly the bytes they should.
  Text: \<open>snprint\<close> writes the text its format denotes and stays in its buffer, and the ring buffer
  keeps the newest bytes.
  Interrupts and time: each interrupt handed out is acknowledged, given to its handler once and
  ended, in order; waits end masked, and time out exactly when the timer's handler ran.
  Files: table and bitmap agree in every reachable state, and on the map of open files \<open>openat\<close>
  and \<open>close\<close> are insertion and deletion.
  Composition: a system call keeps the invariant \<open>rt_ok\<close> of the whole runtime and returns, the
  excepted calls being named; the start establishes the invariant and the stack of the ELF
  convention; \<open>_start\<close> reaches the application on it or waits for ever, for the two reasons the code
  has; \<open>svc 0\<close> is exactly a call of \<open>aarch64_do_syscall\<close> with the other registers kept, and
  an interrupt leaves the interrupted code as it was. Where the code does not do what
  it means to do, a lemma states what it does instead (for example \<open>snprint_centre_overflow\<close>,
  \<open>platform_irq_init_skips_last\<close>, \<open>log_msg_overlong\<close>, \<open>rel_fixup_negative_tag\<close>).

  \<^bold>\<open>Loops.\<close> Loops that end for a reason in the data are \<open>fun\<close> or \<open>function\<close> with a measure. Fuel is used in
  \<open>search_loop\<close> and \<open>free_runs_loop\<close> of \<open>Mmap\<close> (a round moves the current bit forward; the fuel is
  more than the number of bits), in \<open>snprint_loop\<close> (a round but the last consumes a character of
  the format, \<open>snprint_loop_fuel\<close>), and in the loops that wait for a device, \<open>rwp_loop\<close> and
  \<open>dispatch_loop\<close>, where the field \<open>fuel\<close> of the environment bounds the rounds and the theorems
  assume a device that is done by then. \<open>zva_loop\<close>, \<open>loop_list\<close>, \<open>dyn_loop\<close>, \<open>rel_loop\<close> and \<open>rela_loop\<close> are
  \<open>partial_function\<close>s: they do not end on some arguments, and the theorems prove that they end on
  those that occur.

  \<^bold>\<open>Modelling decisions.\<close> One processor; interrupts are taken between instructions of the application,
  never inside the runtime, which runs with interrupts masked. The stack, the log area, the
  bitmaps of the heaps and the static variables of the runtime are objects of their own, not
  bytes of the memory of the application, except for the frames of the exception vectors, the
  initial stack, the word \<open>env_data\<close> and the canary of the boot stack, which are bytes. That memory is total: every address can be read and written.
  Configured as in \<^verbatim>\<open>src\<close>: \<open>MMAP_ALLOC_TRACK\<close>, \<open>MMAP_SANITISE\<close> and \<open>PLATFORM_IRQ_USE_MSI\<close> are 0,
  \<open>TIMESTAMPS\<close> is 1, and the coverage build is off.

  \<^bold>\<open>Not modelled.\<close> The generated bindings
  \<^verbatim>\<open>guest_types.h\<close>, \<^verbatim>\<open>guest_accessors.c\<close>, \<^verbatim>\<open>guest_hypresult.c\<close> and \<^verbatim>\<open>guest_interface.c\<close>, except the one
  hypercall and the one structure the runtime uses, since no function of the runtime calls
  the others; the interrupts by message of \<^verbatim>\<open>gicv3.c\<close>, which are configured out; caches,
  prefetches and the timing of devices; \<^verbatim>\<open>tools/\<close> and the linker scripts.
\<close>

end
